(* ===== verification/NvPrelude.thy ===== *)
theory NvPrelude
  imports Main "HOL-Library.Word"
begin

text \<open>
  The types and generic facts every component of the development shares: the fixed-width
  integers of the NVIDIA headers (\<open>NvU8\<close> to \<open>NvU64\<close>), the status codes the sources name,
  the faults a C++ statement can end in, and the outcome type that keeps a fault apart from a
  returned value.  The collection \<open>nvlists\<close> (facts on bounded copies) feeds the automation of
  the component theories.
\<close>

unbundle bit_operations_syntax

section \<open>Integers and status codes\<close>

type_synonym u8 = "8 word"
type_synonym u16 = "16 word"
type_synonym u32 = "32 word"
type_synonym u64 = "64 word"

text \<open>A pointer is the 64-bit address it holds; \<open>0\<close> is \<open>NULL\<close>.\<close>

type_synonym ptr = u64

abbreviation NULL :: ptr where
  "NULL \<equiv> 0"

text \<open>
  The status codes the sources return.  Their numbers are fixed by NVIDIA's headers, which are
  not part of this repository; the code only tells them apart.
\<close>

datatype nv_status =
    NV_OK
  | NV_ERR_NOT_SUPPORTED
  | NV_ERR_NO_MEMORY
  | NV_ERR_TIMEOUT_RETRY
  | NV_ERR_GENERIC

text \<open>\<open>kern_return_t\<close> and \<open>IOReturn\<close> values are integers, success is 0.\<close>

type_synonym kern_return = int

definition KERN_SUCCESS :: kern_return where
  "KERN_SUCCESS = 0"

text \<open>
  How a statement can fail to have a C++ meaning (or stop the machine).  A function that may
  reach such a statement returns an \<open>outcome\<close>.
\<close>

datatype fault =
    NullDereference
  | UninitialisedRead
  | ShiftOutOfRange
  | ArrayOutOfBounds
  | SignedOverflow
  | WrongObjectType
  | InvalidFree
  | UseAfterFree
  | Panic

datatype 'a outcome = Done 'a | Fault fault

fun is_done :: "'a outcome \<Rightarrow> bool" where
  "is_done (Done _) = True"
| "is_done (Fault _) = False"

named_theorems nvlists

section \<open>Lists and arrays\<close>

text \<open>\<open>a[i] = x\<close> on an array of \<open>length a\<close> elements.\<close>

definition store_at :: "nat \<Rightarrow> 'a \<Rightarrow> 'a list \<Rightarrow> 'a list outcome" where
  "store_at i x a = (if i < length a then Done (a[i := x]) else Fault ArrayOutOfBounds)"

lemma store_at_in [simp]: "i < length a \<Longrightarrow> store_at i x a = Done (a[i := x])"
  by (simp add: store_at_def)

lemma store_at_out [simp]: "length a \<le> i \<Longrightarrow> store_at i x a = Fault ArrayOutOfBounds"
  by (simp add: store_at_def)

lemma take_eq_iff_short [nvlists]: "(take n xs = xs) = (length xs \<le> n)"
proof
  assume "take n xs = xs"
  then have "length (take n xs) = length xs" by simp
  then show "length xs \<le> n" by simp
qed simp

lemma take_prefix_nth [nvlists]: "i < length (take n xs) \<Longrightarrow> take n xs ! i = xs ! i"
  by simp

lemma drop_past_overwrite [nvlists]:
  "length ys \<le> k \<Longrightarrow> drop k (ys @ drop (length ys) xs) = drop k xs"
  by simp

section \<open>Words\<close>

lemma unat_less_two_power_64: "unat (x :: u64) < 2 ^ 64"
  using unsigned_less [where w = x and ?'a = nat] by simp

lemma unat_less_two_power_32: "unat (x :: u32) < 2 ^ 32"
  using unsigned_less [where w = x and ?'a = nat] by simp

lemma unat_u8_less: "unat (c :: u8) < 256"
  using unsigned_less [where w = c and ?'a = nat] by simp

lemma unat_u8_Suc: "Suc (unat c) < 256 \<Longrightarrow> unat (c + 1 :: u8) = Suc (unat c)"
  by (simp add: unat_word_ariths)

lemma unat_u64_mult:
  assumes "unat a * unat b < 2 ^ 64"
  shows "unat ((a :: u64) * b) = unat a * unat b"
  using assms by (simp add: unat_word_ariths)

lemma unat_u64_add:
  assumes "unat a + unat b < 2 ^ 64"
  shows "unat ((a :: u64) + b) = unat a + unat b"
  using assms by (simp add: unat_word_ariths)

lemma unat_ucast_u32_u64 [simp]: "unat (ucast (x :: u32) :: u64) = unat x"
  using unat_less_two_power_32 [of x] by (simp add: unsigned_ucast_eq take_bit_nat_eq_self)

lemma unat_ucast_u64_u32: "unat (ucast (x :: u64) :: u32) = unat x mod 2 ^ 32"
  by (simp add: unsigned_ucast_eq take_bit_eq_mod)

lemma unat_u32_two_power:
  assumes "k < 32"
  shows "unat (2 ^ k :: u32) = 2 ^ k"
proof -
  have "(2 :: int) ^ k < 2 ^ 32" using assms by (rule power_strict_increasing) simp
  then show ?thesis by transfer (simp add: take_bit_eq_mod nat_power_eq)
qed

lemma unat_less_iff_take_bit: "unat (a :: u64) < 2 ^ k \<longleftrightarrow> take_bit k a = a"
proof -
  have "take_bit k a = a \<longleftrightarrow> take_bit k (unat a) = unat a"
    by (metis unsigned_take_bit_eq word_unat_eq_iff)
  then show ?thesis by (simp add: take_bit_nat_eq_self_iff)
qed

lemma unat_less_iff_bits: "unat (a :: u64) < 2 ^ k \<longleftrightarrow> (\<forall>n. k \<le> n \<longrightarrow> \<not> bit a n)"
proof -
  have "take_bit k a = a \<longleftrightarrow> (\<forall>n. k \<le> n \<longrightarrow> \<not> bit a n)"
  proof
    assume "take_bit k a = a"
    then show "\<forall>n. k \<le> n \<longrightarrow> \<not> bit a n" by (metis bit_take_bit_iff not_less)
  next
    assume "\<forall>n. k \<le> n \<longrightarrow> \<not> bit a n"
    then have "bit (take_bit k a) n = bit a n" for n by (metis bit_take_bit_iff not_less)
    then show "take_bit k a = a" by (simp add: bit_eq_iff)
  qed
  then show ?thesis by (simp add: unat_less_iff_take_bit)
qed

lemma unat_mask_u64: "n < 64 \<Longrightarrow> unat (mask n :: u64) = mask n"
  by transfer (simp add: take_bit_of_mask min_def nat_mask_eq)

end
