(* ===== verification/CString.thy ===== *)
theory CString
  imports NvPrelude "HOL-Library.Char_ord"
begin

text \<open>
  The C library functions the sources call on strings and byte buffers (\<open>strlen\<close>,
  \<open>strlcpy\<close>, \<open>strncpy\<close>, \<open>snprintf\<close> with a rendered argument, \<open>strtoul\<close>,
  \<open>memcmp\<close>, \<open>memcpy\<close>, \<open>memset\<close>, \<open>strcmp\<close>), and the rendering of a pointer by
  \<open>%p\<close>.  A \<open>char*\<close> argument is the list of the characters of the object from that address
  on, so reading or writing past its end is a fault.  Printed text is a list of characters
  without the terminating NUL.
\<close>

section \<open>Rendering numbers\<close>

text \<open>
  The digits of a number in a base from 2 to 36, in lower case and without leading zeros, and
  \<open>%p\<close> as Darwin prints it: \<open>0x\<close> and the hexadecimal digits, without padding.
\<close>

definition digit_char :: "nat \<Rightarrow> char" where
  "digit_char d = (if d < 10 then char_of (48 + d) else char_of (87 + d))"

function num_digits :: "nat \<Rightarrow> nat \<Rightarrow> string" where
  "num_digits b n =
     (if b < 2 \<or> n < b then [digit_char n]
      else num_digits b (n div b) @ [digit_char (n mod b)])"
  by pat_completeness auto
termination
  by (relation "measure (\<lambda>(b, n). n)") auto

declare num_digits.simps [simp del]

definition fmt_p :: "ptr \<Rightarrow> string" where
  "fmt_p p = ''0x'' @ num_digits 16 (unat p)"

lemma of_char_digit_char:
  "d < 36 \<Longrightarrow> of_char (digit_char d) = (if d < 10 then 48 + d else 87 + d)"
  by (simp add: digit_char_def)

lemma digit_char_inj:
  assumes "a < 36" and "b < 36" and "digit_char a = digit_char b"
  shows "a = b"
proof -
  from assms(3) have "(of_char (digit_char a) :: nat) = of_char (digit_char b)" by simp
  with assms(1,2) show ?thesis by (simp add: of_char_digit_char split: if_splits)
qed

lemma num_digits_small: "n < b \<Longrightarrow> num_digits b n = [digit_char n]"
  by (simp add: num_digits.simps)

lemma num_digits_step:
  "2 \<le> b \<Longrightarrow> b \<le> n \<Longrightarrow> num_digits b n = num_digits b (n div b) @ [digit_char (n mod b)]"
  by (subst num_digits.simps) simp

lemma num_digits_nonempty [simp]: "num_digits b n \<noteq> []"
  by (subst num_digits.simps) simp

lemma num_digits_length_le:
  "2 \<le> b \<Longrightarrow> n < b ^ k \<Longrightarrow> 0 < k \<Longrightarrow> length (num_digits b n) \<le> k"
proof (induction k arbitrary: n)
  case 0
  then show ?case by simp
next
  case (Suc k)
  show ?case
  proof (cases "n < b")
    case True
    then show ?thesis by (simp add: num_digits_small)
  next
    case False
    with Suc.prems have "0 < k" by (cases k) auto
    from Suc.prems have "n div b < b ^ k" by (simp add: div_less_iff_less_mult mult.commute)
    with Suc \<open>0 < k\<close> have "length (num_digits b (n div b)) \<le> k" by simp
    with False Suc.prems(1) show ?thesis by (simp add: num_digits_step)
  qed
qed

lemma num_digits_length_gt: "2 \<le> b \<Longrightarrow> b ^ k \<le> n \<Longrightarrow> k < length (num_digits b n)"
proof (induction k arbitrary: n)
  case 0
  then show ?case by simp
next
  case (Suc k)
  have "b ^ Suc 0 \<le> b ^ Suc k" by (rule power_increasing) (use Suc.prems in auto)
  from order_trans [OF this Suc.prems(2)] have big: "b \<le> n" by simp
  from Suc.prems have "b ^ k \<le> n div b"
    by (simp add: less_eq_div_iff_mult_less_eq mult.commute)
  with Suc have "k < length (num_digits b (n div b))" by simp
  with big Suc.prems(1) show ?case by (simp add: num_digits_step)
qed

lemma num_digits_length_one:
  "2 \<le> b \<Longrightarrow> length (num_digits b n) = Suc 0 \<longleftrightarrow> n < b"
  using num_digits_length_gt [of b 1 n] by (cases "b \<le> n") (auto simp: num_digits_small)

lemma num_digits_inj:
  "2 \<le> b \<Longrightarrow> b \<le> 36 \<Longrightarrow> num_digits b m = num_digits b n \<Longrightarrow> m = n"
proof (induction b m arbitrary: n rule: num_digits.induct)
  case (1 b m)
  have same_length: "m < b \<longleftrightarrow> n < b"
    using num_digits_length_one [OF "1.prems"(1)] "1.prems"(3) by metis
  show ?case
  proof (cases "m < b")
    case True
    with same_length "1.prems" show ?thesis
      by (auto simp: num_digits_small dest: digit_char_inj [rotated 2])
  next
    case False
    with "1.prems" same_length
    have parts: "num_digits b (m div b) = num_digits b (n div b)"
      "digit_char (m mod b) = digit_char (n mod b)" by (simp_all add: num_digits_step)
    from parts(1) "1.IH" False "1.prems" have "m div b = n div b" by simp
    moreover have "m mod b < 36" "n mod b < 36"
      using "1.prems" by (metis less_le_trans mod_less_divisor not_numeral_le_zero not_gr0)+
    with parts(2) have "m mod b = n mod b" by (auto dest: digit_char_inj [rotated 2])
    ultimately show ?thesis by (metis div_mult_mod_eq)
  qed
qed

lemma hex_eq_iff [simp]: "num_digits 16 m = num_digits 16 n \<longleftrightarrow> m = n"
  using num_digits_inj [of 16 m n] by auto

section \<open>Bounded printing\<close>

text \<open>
  \<open>snprintf(buf, size, \<dots>)\<close> with the text the format renders: the text the buffer holds
  afterwards (the first \<open>size - 1\<close> characters, then NUL).  \<open>size\<close> is never 0 in the sources.
\<close>

definition c_snprintf :: "nat \<Rightarrow> string \<Rightarrow> string" where
  "c_snprintf sz rendered = take (sz - 1) rendered"

lemma c_snprintf_length: "length (c_snprintf sz s) \<le> sz - 1"
  by (simp add: c_snprintf_def)

lemma c_snprintf_lossless: "0 < sz \<Longrightarrow> (c_snprintf sz s = s) = (length s < sz)"
  by (auto simp: c_snprintf_def nvlists)

section \<open>Strings in buffers\<close>

definition NUL :: char where
  "NUL = CHR 0x00"

definition c_text :: "char list \<Rightarrow> string" where
  "c_text buf = takeWhile (\<lambda>c. c \<noteq> NUL) buf"

text \<open>\<open>strlen\<close> reads up to the first NUL; an object without one is overrun.\<close>

definition c_strlen :: "char list \<Rightarrow> nat outcome" where
  "c_strlen buf = (if NUL \<in> set buf then Done (length (c_text buf)) else Fault ArrayOutOfBounds)"

text \<open>Writing the list \<open>ys\<close> to the start of an object.\<close>

definition overwrite :: "'a list \<Rightarrow> 'a list \<Rightarrow> 'a list outcome" where
  "overwrite ys buf =
     (if length ys \<le> length buf then Done (ys @ drop (length ys) buf)
      else Fault ArrayOutOfBounds)"

text \<open>
  \<open>strlcpy(dst, src, size)\<close>: at most \<open>size - 1\<close> characters and a NUL, nothing at all when
  \<open>size\<close> is 0.  \<open>strncpy(dst, src, n)\<close>: exactly \<open>n\<close> characters, padded with NUL.
\<close>

definition c_strlcpy :: "char list \<Rightarrow> char list \<Rightarrow> nat \<Rightarrow> char list outcome" where
  "c_strlcpy dst src sz =
     (if NUL \<notin> set src then Fault ArrayOutOfBounds
      else if sz = 0 then Done dst
      else overwrite (take (sz - 1) (c_text src) @ [NUL]) dst)"

definition c_strncpy :: "char list \<Rightarrow> char list \<Rightarrow> nat \<Rightarrow> char list outcome" where
  "c_strncpy dst src n =
     (if NUL \<notin> set src \<and> length src < n then Fault ArrayOutOfBounds
      else (let txt = take n (c_text src)
            in overwrite (txt @ replicate (n - length txt) NUL) dst))"

lemma overwrite_ok: "length ys \<le> length buf \<Longrightarrow> overwrite ys buf = Done (ys @ drop (length ys) buf)"
  by (simp add: overwrite_def)

lemma c_text_no_NUL: "NUL \<notin> set (c_text buf)"
  by (auto simp: c_text_def dest: set_takeWhileD)

lemma c_text_append_NUL [simp]: "NUL \<notin> set s \<Longrightarrow> c_text (s @ NUL # rest) = s"
  by (induction s) (auto simp: c_text_def)

lemma c_text_length_lt: "NUL \<in> set buf \<Longrightarrow> length (c_text buf) < length buf"
  by (induction buf) (auto simp: c_text_def)

lemma c_text_id: "NUL \<notin> set s \<Longrightarrow> c_text s = s"
  by (auto simp: c_text_def)

section \<open>Byte buffers\<close>

definition c_memcpy :: "u8 list \<Rightarrow> u8 list \<Rightarrow> nat \<Rightarrow> u8 list outcome" where
  "c_memcpy dst src n =
     (if length src < n then Fault ArrayOutOfBounds else overwrite (take n src) dst)"

definition c_memset :: "u8 list \<Rightarrow> u8 \<Rightarrow> nat \<Rightarrow> u8 list outcome" where
  "c_memset dst c n = overwrite (replicate n c) dst"

text \<open>
  \<open>memcmp\<close> and \<open>strcmp\<close>: the sign is fixed by the C standard; like Darwin's
  implementations the model returns the difference of the first two bytes that differ.
\<close>

fun first_diff :: "nat list \<Rightarrow> nat list \<Rightarrow> int" where
  "first_diff (x # xs) (y # ys) = (if x = y then first_diff xs ys else int x - int y)"
| "first_diff _ _ = 0"

definition c_memcmp :: "u8 list \<Rightarrow> u8 list \<Rightarrow> nat \<Rightarrow> int outcome" where
  "c_memcmp s1 s2 n =
     (if length s1 < n \<or> length s2 < n then Fault ArrayOutOfBounds
      else Done (first_diff (map unat (take n s1)) (map unat (take n s2))))"

definition c_strcmp :: "char list \<Rightarrow> char list \<Rightarrow> int outcome" where
  "c_strcmp s1 s2 =
     (if NUL \<notin> set s1 \<or> NUL \<notin> set s2 then Fault ArrayOutOfBounds
      else Done (first_diff (map of_char (c_text s1) @ [0]) (map of_char (c_text s2) @ [0])))"

lemma first_diff_same [simp]: "first_diff xs xs = 0"
  by (induction xs) auto

lemma first_diff_zero_iff: "length xs = length ys \<Longrightarrow> first_diff xs ys = 0 \<longleftrightarrow> xs = ys"
  by (induction xs ys rule: first_diff.induct) auto

section \<open>strtoul\<close>

text \<open>
  \<open>strtoul\<close> of the C standard: white space, an optional sign, an optional \<open>0x\<close> for base 16
  (or base 0, where a leading \<open>0\<close> means octal), then digits of the base.  The result is the
  value (all ones when it does not fit in an \<open>unsigned long\<close>) and the number of characters
  consumed, 0 when there was no number.
\<close>

definition digit_val :: "char \<Rightarrow> nat option" where
  "digit_val c =
     (let n = of_char c in
      if 48 \<le> n \<and> n \<le> 57 then Some (n - 48)
      else if 97 \<le> n \<and> n \<le> 122 then Some (n - 87)
      else if 65 \<le> n \<and> n \<le> 90 then Some (n - 55)
      else None)"

definition is_digit :: "nat \<Rightarrow> char \<Rightarrow> bool" where
  "is_digit b c = (case digit_val c of None \<Rightarrow> False | Some d \<Rightarrow> d < b)"

definition c_isspace :: "char \<Rightarrow> bool" where
  "c_isspace c = (let n = (of_char c :: nat) in n = 32 \<or> 9 \<le> n \<and> n \<le> 13)"

definition add_digit :: "nat \<Rightarrow> nat \<Rightarrow> char \<Rightarrow> nat" where
  "add_digit b v c = v * b + (case digit_val c of None \<Rightarrow> 0 | Some d \<Rightarrow> d)"

definition digits_value :: "nat \<Rightarrow> string \<Rightarrow> nat" where
  "digits_value b cs = foldl (add_digit b) 0 cs"

definition strtoul_sign :: "string \<Rightarrow> bool \<times> string" where
  "strtoul_sign s =
     (case s of [] \<Rightarrow> (False, [])
      | c # r \<Rightarrow> if c = CHR ''-'' then (True, r)
                 else if c = CHR ''+'' then (False, r) else (False, s))"

definition strtoul_prefix :: "nat \<Rightarrow> string \<Rightarrow> nat \<times> string" where
  "strtoul_prefix base s =
     (let b = (if base = 0 then (if take 1 s = ''0'' then 8 else 10) else base) in
      if base = 0 \<or> base = 16 then
        (case s of z # x # c # r \<Rightarrow>
           if z = CHR ''0'' \<and> (x = CHR ''x'' \<or> x = CHR ''X'') \<and> is_digit 16 c
           then (16, c # r) else (b, s)
         | _ \<Rightarrow> (b, s))
      else (b, s))"

definition c_strtoul :: "string \<Rightarrow> nat \<Rightarrow> nat \<times> nat" where
  "c_strtoul str base =
     (if base = 1 \<or> 36 < base then (0, 0)
      else
        (let (neg, s2) = strtoul_sign (dropWhile c_isspace str);
             (b, s3) = strtoul_prefix base s2;
             cs = takeWhile (is_digit b) s3;
             v = digits_value b cs
         in if cs = [] then (0, 0)
            else (if 2 ^ 64 \<le> v then 2 ^ 64 - 1
                  else if neg then (2 ^ 64 - v) mod 2 ^ 64 else v,
                  length str - length (dropWhile (is_digit b) s3))))"

lemma digit_val_digit_char [simp]: "d < 36 \<Longrightarrow> digit_val (digit_char d) = Some d"
  by (simp add: digit_val_def of_char_digit_char)

lemma is_digit_digit_char [simp]: "d < b \<Longrightarrow> b \<le> 36 \<Longrightarrow> is_digit b (digit_char d)"
  by (simp add: is_digit_def)

lemma num_digits_are_digits:
  "2 \<le> b \<Longrightarrow> b \<le> 36 \<Longrightarrow> c \<in> set (num_digits b n) \<Longrightarrow> is_digit b c"
proof (induction b n rule: num_digits.induct)
  case (1 b n)
  then show ?case
    by (cases "n < b") (auto simp: num_digits_small num_digits_step)
qed

lemma digits_value_num_digits:
  "2 \<le> b \<Longrightarrow> b \<le> 36 \<Longrightarrow> digits_value b (num_digits b n) = n"
proof (induction b n rule: num_digits.induct)
  case (1 b n)
  show ?case
  proof (cases "n < b")
    case True
    with "1.prems" show ?thesis by (simp add: num_digits_small digits_value_def add_digit_def)
  next
    case False
    have "n mod b < 36" using "1.prems" mod_less_divisor [of b n] by linarith
    with False "1.IH" "1.prems" show ?thesis
      by (simp add: num_digits_step digits_value_def add_digit_def)
  qed
qed

lemma digit_not_space: "is_digit b c \<Longrightarrow> \<not> c_isspace c"
  by (auto simp: is_digit_def digit_val_def c_isspace_def Let_def split: if_splits)

lemma digit_not_sign: "is_digit b c \<Longrightarrow> c \<noteq> CHR ''-'' \<and> c \<noteq> CHR ''+''"
  by (auto simp: is_digit_def digit_val_def)

text \<open>The numeral of \<open>n\<close> in the base is read back, up to the saturation of \<open>strtoul\<close>.\<close>

lemma c_strtoul_num_digits:
  assumes "2 \<le> b" and "b \<le> 36"
  shows "c_strtoul (num_digits b n) b =
    (if n < 2 ^ 64 then n else 2 ^ 64 - 1, length (num_digits b n))"
proof -
  obtain c cs where s: "num_digits b n = c # cs" by (cases "num_digits b n") auto
  have all: "\<forall>c \<in> set (num_digits b n). is_digit b c"
    using num_digits_are_digits [OF assms] by blast
  then have c: "is_digit b c" by (simp add: s)
  have space: "dropWhile c_isspace (num_digits b n) = num_digits b n"
    using digit_not_space [OF c] by (simp add: s)
  have sign: "strtoul_sign (num_digits b n) = (False, num_digits b n)"
    using digit_not_sign [OF c] by (simp add: s strtoul_sign_def)
  have prefix: "strtoul_prefix b (num_digits b n) = (b, num_digits b n)"
    using assms all
    by (auto simp: strtoul_prefix_def Let_def is_digit_def digit_val_def split: list.splits)
  have taken: "takeWhile (is_digit b) (num_digits b n) = num_digits b n"
    and dropped: "dropWhile (is_digit b) (num_digits b n) = []" using all by simp_all
  show ?thesis
    using assms
    by (simp add: c_strtoul_def taken dropped space sign prefix digits_value_num_digits Let_def)
qed

end
