(* ===== verification/Registry.thy ===== *)
theory Registry
  imports CString
begin

text \<open>
  The registries of \<open>libc.cpp\<close> and of the two \<open>memory_*.cpp\<close> files: an \<open>OSDictionary\<close>
  whose keys are pointers printed with \<open>snprintf(keyName, 18, "%p", \<dots>)\<close>.  The dictionary and
  the \<open>OSNumber\<close> and \<open>OSString\<close> classes are Apple's: they are the fields of the parameter
  \<open>libkern\<close>, and the locale \<open>libkern_objects\<close> states what their documentation promises.
  The lemmas say exactly when two pointers share a key; the locale \<open>pointer_registry\<close> is
  the contract both registries offer to the code that uses them.
\<close>

section \<open>Keys\<close>

text \<open>\<open>constexpr auto keyNameLength = (sizeof(void*) * 2) + 2\<close>, with 8-byte pointers.\<close>

definition keyNameLength :: nat where
  "keyNameLength = 8 * 2 + 2"

definition keyName :: "ptr \<Rightarrow> string" where
  "keyName p = c_snprintf keyNameLength (fmt_p p)"

text \<open>What is left of a pointer in its key: 15 digits fit beside \<open>0x\<close> and the NUL.\<close>

definition key_part :: "ptr \<Rightarrow> nat" where
  "key_part p = (if unat p < 2 ^ 60 then unat p else unat p div 16)"

lemma take_15_digits:
  assumes "n < 2 ^ 64"
  shows "take 15 (num_digits 16 n) = num_digits 16 (if n < 2 ^ 60 then n else n div 16)"
proof (cases "n < 2 ^ 60")
  case True
  then have "length (num_digits 16 n) \<le> 15" using num_digits_length_le [of 16 n 15] by simp
  with True show ?thesis by simp
next
  case False
  with assms have "n div 16 < 16 ^ 15" "16 ^ 14 \<le> n div 16" by simp_all
  then have "length (num_digits 16 (n div 16)) = 15"
    using num_digits_length_le [of 16 "n div 16" 15] num_digits_length_gt [of 16 14 "n div 16"]
    by linarith
  with False show ?thesis by (simp add: num_digits_step [of 16 n])
qed

lemma keyName_digits: "keyName p = ''0x'' @ num_digits 16 (key_part p)"
  using take_15_digits [OF unat_less_two_power_64 [of p]]
  by (simp add: keyName_def keyNameLength_def c_snprintf_def fmt_p_def key_part_def)

lemma keyName_eq_iff: "keyName p = keyName q \<longleftrightarrow> key_part p = key_part q"
  by (simp add: keyName_digits)

text \<open>
  The addresses x86-64 and arm64 give out are canonical: the low or the high 128 TiB.  Blocks
  aligned to 16 bytes differ in more than the last digit.
\<close>

definition canonical :: "ptr \<Rightarrow> bool" where
  "canonical p \<longleftrightarrow> unat p < 2 ^ 47 \<or> 2 ^ 64 - 2 ^ 47 \<le> unat p"

definition block_pointer :: "ptr \<Rightarrow> bool" where
  "block_pointer p \<longleftrightarrow> canonical p \<and> unat p mod 16 = 0"

lemma block_pointer_keyName_inj:
  assumes "block_pointer p" and "block_pointer q"
  shows "keyName p = keyName q \<longleftrightarrow> p = q"
proof -
  have "unat p = unat q" if "key_part p = key_part q"
  proof -
    have "unat p < 2 ^ 64" "unat q < 2 ^ 64" by (rule unat_less_two_power_64)+
    with that assms show ?thesis
      by (auto simp: key_part_def block_pointer_def canonical_def split: if_splits)
  qed
  then have "p = q" if "key_part p = key_part q"
    using that by (simp add: word_unat_eq_iff)
  then show ?thesis by (auto simp: keyName_eq_iff)
qed

section \<open>The libkern objects\<close>

datatype os_object =
    OSNumber u64            \<comment> \<open>the value \<open>unsigned64BitValue\<close> reads\<close>
  | IOMemoryMapObject ptr   \<comment> \<open>a mapping object\<close>

record 'd libkern =
  set_object :: "'d \<Rightarrow> string option \<Rightarrow> os_object option \<Rightarrow> 'd"
  get_object :: "'d \<Rightarrow> string option \<Rightarrow> os_object option"
  remove_object :: "'d \<Rightarrow> string option \<Rightarrow> 'd"
  os_number :: "u64 \<Rightarrow> nat \<Rightarrow> os_object option"
  os_string :: "string \<Rightarrow> string option"

text \<open>
  The documented behaviour: a dictionary returns the last object set under a key, ignores a
  NULL key or object, and forgets a removed key; \<open>OSNumber::withNumber(v, n)\<close> masks \<open>v\<close> to
  \<open>n\<close> bits (or fails); \<open>OSString::withCString\<close> copies its argument (or fails).
\<close>

locale libkern_objects =
  fixes K :: "'d libkern"
  assumes get_set: "get_object K (set_object K d (Some k) (Some v)) (Some k') =
      (if k' = k then Some v else get_object K d (Some k'))"
    and get_set_null: "ko = None \<or> vo = None \<Longrightarrow>
      get_object K (set_object K d ko vo) jo = get_object K d jo"
    and get_null: "get_object K d None = None"
    and get_remove: "get_object K (remove_object K d (Some k)) (Some k') =
      (if k' = k then None else get_object K d (Some k'))"
    and number_masked: "os_number K w n = Some x \<Longrightarrow> x = OSNumber (take_bit n w)"
    and string_copied: "os_string K s = Some s' \<Longrightarrow> s' = s"

text \<open>A dictionary all of whose objects satisfy \<open>P\<close>: the typing of a registry.\<close>

definition holds_only :: "'d libkern \<Rightarrow> (os_object \<Rightarrow> bool) \<Rightarrow> 'd \<Rightarrow> bool" where
  "holds_only K P d \<longleftrightarrow> (\<forall>k v. get_object K d (Some k) = Some v \<longrightarrow> P v)"

lemma holds_onlyD: "holds_only K P d \<Longrightarrow> get_object K d (Some k) = Some v \<Longrightarrow> P v"
  by (auto simp: holds_only_def)

context libkern_objects
begin

lemma holds_only_set:
  assumes "holds_only K P d" and "\<And>v. vo = Some v \<Longrightarrow> P v"
  shows "holds_only K P (set_object K d ko vo)"
proof (cases "ko = None \<or> vo = None")
  case True
  with assms(1) show ?thesis by (simp add: holds_only_def get_set_null)
next
  case False
  with assms show ?thesis by (auto simp: holds_only_def get_set split: if_splits)
qed

lemma holds_only_remove:
  "holds_only K P d \<Longrightarrow> holds_only K P (remove_object K d (Some k))"
  by (auto simp: holds_only_def get_remove split: if_splits)

end

text \<open>An implementation with finite maps, which the witnesses use.\<close>

type_synonym map_dict = "string \<Rightarrow> os_object option"

definition map_libkern :: "map_dict libkern" where
  "map_libkern =
     \<lparr>set_object = (\<lambda>d k v. case (k, v) of (Some k, Some v) \<Rightarrow> d(k \<mapsto> v) | _ \<Rightarrow> d),
      get_object = (\<lambda>d k. case k of None \<Rightarrow> None | Some k \<Rightarrow> d k),
      remove_object = (\<lambda>d k. case k of None \<Rightarrow> d | Some k \<Rightarrow> d(k := None)),
      os_number = (\<lambda>v n. Some (OSNumber (take_bit n v))),
      os_string = Some\<rparr>"

interpretation map_libkern: libkern_objects map_libkern
  by unfold_locales (auto simp: map_libkern_def split: option.splits)

lemma map_libkern_empty: "get_object map_libkern Map.empty k = None"
  by (simp add: map_libkern_def split: option.split)

section \<open>Registries of pointers\<close>

text \<open>
  What a client of a registry relies on: among the pointers that \<open>good\<close> admits, an entry
  stays under its own pointer until it is deleted.
\<close>

locale pointer_registry =
  fixes put :: "'r \<Rightarrow> ptr \<Rightarrow> os_object \<Rightarrow> 'r"
    and find_entry :: "'r \<Rightarrow> ptr \<Rightarrow> os_object option"
    and del :: "'r \<Rightarrow> ptr \<Rightarrow> 'r"
    and good :: "ptr \<Rightarrow> bool"
  assumes find_put: "good p \<Longrightarrow> good q \<Longrightarrow>
      find_entry (put r p v) q = (if q = p then Some v else find_entry r q)"
    and find_del: "good p \<Longrightarrow> good q \<Longrightarrow>
      find_entry (del r p) q = (if q = p then None else find_entry r q)"
begin

lemma find_put_same: "good p \<Longrightarrow> find_entry (put r p v) p = Some v"
  by (simp add: find_put)

lemma find_del_put: "good p \<Longrightarrow> good q \<Longrightarrow>
    find_entry (del (put r p v) p) q = (if q = p then None else find_entry r q)"
  by (simp add: find_put find_del)

text \<open>The registry as a map on the admitted pointers, and its operations on that map.\<close>

definition view :: "'r \<Rightarrow> ptr \<Rightarrow> os_object option" where
  "view r p = (if good p then find_entry r p else None)"

lemma view_put: "good p \<Longrightarrow> view (put r p v) = (view r)(p \<mapsto> v)"
  by (auto simp: view_def find_put fun_eq_iff)

lemma view_del: "good p \<Longrightarrow> view (del r p) = (view r)(p := None)"
  by (auto simp: view_def find_del fun_eq_iff)

end

text \<open>The three dictionary accesses of the sources, through the printed key.\<close>

definition reg_put :: "'d libkern \<Rightarrow> 'd \<Rightarrow> ptr \<Rightarrow> os_object \<Rightarrow> 'd" where
  "reg_put K d p v = set_object K d (Some (keyName p)) (Some v)"

definition reg_find :: "'d libkern \<Rightarrow> 'd \<Rightarrow> ptr \<Rightarrow> os_object option" where
  "reg_find K d p = get_object K d (Some (keyName p))"

definition reg_del :: "'d libkern \<Rightarrow> 'd \<Rightarrow> ptr \<Rightarrow> 'd" where
  "reg_del K d p = remove_object K d (Some (keyName p))"

sublocale libkern_objects \<subseteq> blocks: pointer_registry
  "reg_put K" "reg_find K" "reg_del K" block_pointer
  by unfold_locales
    (simp_all add: reg_put_def reg_find_def reg_del_def get_set get_remove
      block_pointer_keyName_inj)

text \<open>A dictionary as a map on block addresses, and the two kinds of object it may hold.\<close>

definition block_view :: "'d libkern \<Rightarrow> 'd \<Rightarrow> ptr \<Rightarrow> os_object option" where
  "block_view K d p = (if block_pointer p then reg_find K d p else None)"

fun number_of :: "os_object \<Rightarrow> u64 option" where
  "number_of (OSNumber n) = Some n"
| "number_of (IOMemoryMapObject _) = None"

fun mapping_of :: "os_object \<Rightarrow> ptr option" where
  "mapping_of (IOMemoryMapObject m) = Some m"
| "mapping_of (OSNumber _) = None"

context libkern_objects
begin

lemma block_view_is_view: "block_view K = blocks.view"
  by (simp add: block_view_def blocks.view_def fun_eq_iff)

lemmas block_view_put = blocks.view_put [folded block_view_is_view]
lemmas block_view_del = blocks.view_del [folded block_view_is_view]

end

end
