(* ===== verification/Libc.thy ===== *)
theory Libc
  imports Registry
begin

text \<open>
  \<open>libc.cpp\<close> but for its semaphores: the allocation tracker \<open>os_alloc_mem\<close> /
  \<open>os_free_mem\<close> over the global dictionary \<open>global_allocations\<close>, and the wrappers of the
  memory and string functions.  \<open>IOMallocZero\<close> and \<open>IOFree\<close> are the kernel's: an operation
  is given what \<open>IOMallocZero\<close> returned and reports its calls as a list.  The abstract
  specification \<open>heap_spec\<close> keeps the live blocks as a map; the simulation \<open>libc_run_spec\<close>
  relates the two.
\<close>

section \<open>Memory management\<close>

datatype heap_call =
    IOMallocZero u64 ptr   \<comment> \<open>size asked for, block returned\<close>
  | IOFree ptr u64

text \<open>\<open>OSNumber::withNumber(size, sizeof(NvU64))\<close>: the second argument is a number of bits.\<close>

definition sizeof_NvU64 :: nat where
  "sizeof_NvU64 = 8"

text \<open>
  The state is the dictionary.  \<open>mall\<close> is the result of \<open>IOMallocZero(size)\<close>.  The result
  holds what the call stored through \<open>address\<close>, \<open>None\<close> when it stored nothing.
\<close>

definition os_alloc_mem ::
  "'d libkern \<Rightarrow> 'd \<Rightarrow> ptr \<Rightarrow> u64 \<Rightarrow> 'd \<times> heap_call list \<times> nv_status \<times> ptr option" where
  "os_alloc_mem K d mall sz =
     (if mall = NULL then (d, [IOMallocZero sz NULL], NV_ERR_NO_MEMORY, None)
      else
        (let key = os_string K (keyName mall);
             val = os_number K sz sizeof_NvU64
         in (set_object K d key val, [IOMallocZero sz mall], NV_OK, Some mall)))"

text \<open>\<open>OSRequiredCast\<close> to \<open>OSNumber\<close> stops the system on an object of another class.\<close>

definition os_free_mem ::
  "'d libkern \<Rightarrow> 'd \<Rightarrow> ptr \<Rightarrow> ('d \<times> heap_call list) outcome" where
  "os_free_mem K d p =
     (let key = os_string K (keyName p) in
      case get_object K d key of
        None \<Rightarrow> Done (d, [])
      | Some (OSNumber allocationSize) \<Rightarrow>
          Done (remove_object K d key, [IOFree p allocationSize])
      | Some (IOMemoryMapObject _) \<Rightarrow> Fault Panic)"

text \<open>A client's sequence of calls, each allocation with the block the kernel hands out.\<close>

datatype mem_op = AllocMem u64 ptr | FreeMem ptr

fun mem_op_ptr :: "mem_op \<Rightarrow> ptr" where
  "mem_op_ptr (AllocMem _ p) = p"
| "mem_op_ptr (FreeMem p) = p"

fun libc_run :: "'d libkern \<Rightarrow> 'd \<Rightarrow> mem_op list \<Rightarrow> ('d \<times> heap_call list) outcome" where
  "libc_run K d [] = Done (d, [])"
| "libc_run K d (AllocMem n p # ops) =
     (case os_alloc_mem K d p n of (d', cs, _, _) \<Rightarrow>
        (case libc_run K d' ops of
           Done (d'', cs') \<Rightarrow> Done (d'', cs @ cs')
         | Fault f \<Rightarrow> Fault f))"
| "libc_run K d (FreeMem p # ops) =
     (case os_free_mem K d p of
        Done (d', cs) \<Rightarrow>
          (case libc_run K d' ops of
             Done (d'', cs') \<Rightarrow> Done (d'', cs @ cs')
           | Fault f \<Rightarrow> Fault f)
      | Fault f \<Rightarrow> Fault f)"

lemma libc_run_append:
  "libc_run K d (xs @ ys) =
    (case libc_run K d xs of Fault f \<Rightarrow> Fault f
     | Done (d', cs) \<Rightarrow>
         (case libc_run K d' ys of Fault f \<Rightarrow> Fault f
          | Done (d'', cs') \<Rightarrow> Done (d'', cs @ cs')))"
proof (induction xs arbitrary: d)
  case (Cons op xs)
  show ?case
  proof (cases op)
    case (AllocMem n p)
    obtain d1 c1 st a where "os_alloc_mem K d p n = (d1, c1, st, a)" by (metis surj_pair)
    with AllocMem Cons [of d1] show ?thesis by (auto split: outcome.splits)
  next
    case (FreeMem p)
    with Cons show ?thesis by (auto split: outcome.splits)
  qed
qed (auto split: outcome.splits)

text \<open>
  The specification: a map from live blocks to their sizes.  \<open>f\<close> is what becomes of a size
  between its allocation and its \<open>IOFree\<close>; a correct tracker has \<open>f = id\<close>.
\<close>

fun heap_spec :: "(u64 \<Rightarrow> u64) \<Rightarrow> (ptr \<Rightarrow> u64 option) \<Rightarrow> mem_op list \<Rightarrow> heap_call list" where
  "heap_spec f live [] = []"
| "heap_spec f live (AllocMem n p # ops) =
     IOMallocZero n p # heap_spec f (if p = NULL then live else live(p \<mapsto> n)) ops"
| "heap_spec f live (FreeMem p # ops) =
     (case live p of
        None \<Rightarrow> heap_spec f live ops
      | Some n \<Rightarrow> IOFree p (f n) # heap_spec f (live(p := None)) ops)"

definition tracked_size :: "u64 \<Rightarrow> u64" where
  "tracked_size n = take_bit sizeof_NvU64 n"

text \<open>
  The calls to the allocator replayed on the kernel's view: a block is handed out when it is
  free, and given back once, with the size the tracker keeps of it.
\<close>

fun replay :: "(ptr \<Rightarrow> u64 option) \<Rightarrow> heap_call list \<Rightarrow> (ptr \<Rightarrow> u64 option) option" where
  "replay h [] = Some h"
| "replay h (IOMallocZero n p # cs) =
     (if p = NULL then replay h cs
      else if h p = None then replay (h(p \<mapsto> n)) cs else None)"
| "replay h (IOFree p sz # cs) =
     (if map_option tracked_size (h p) = Some sz then replay (h(p := None)) cs else None)"

lemma replay_append: "replay h (xs @ ys) = Option.bind (replay h xs) (\<lambda>h'. replay h' ys)"
  by (induction h xs rule: replay.induct) (auto simp: fun_upd_def)

lemma tracked_size_id_iff: "tracked_size n = n \<longleftrightarrow> unat n < 256"
proof -
  have "tracked_size n = n \<longleftrightarrow> unat (take_bit 8 n) = unat n"
    by (simp add: tracked_size_def sizeof_NvU64_def word_unat_eq_iff)
  also have "\<dots> \<longleftrightarrow> take_bit 8 (unat n) = unat n" by (simp add: unsigned_take_bit_eq)
  finally show ?thesis by (simp add: take_bit_nat_eq_self_iff)
qed

text \<open>The two object factories never return NULL: the memory they need is tiny.\<close>

definition factories_succeed :: "'d libkern \<Rightarrow> bool" where
  "factories_succeed K \<longleftrightarrow>
     (\<forall>s. os_string K s \<noteq> None) \<and> (\<forall>v n. os_number K v n \<noteq> None)"

context libkern_objects
begin

lemma factories_values:
  assumes "factories_succeed K"
  shows "os_string K s = Some s" and "os_number K v n = Some (OSNumber (take_bit n v))"
  using assms string_copied number_masked by (fastforce simp: factories_succeed_def)+

lemma os_alloc_mem_registry:
  assumes "factories_succeed K" and "p \<noteq> NULL"
  shows "os_alloc_mem K d p n =
    (reg_put K d p (OSNumber (tracked_size n)), [IOMallocZero n p], NV_OK, Some p)"
  using assms
  by (simp add: os_alloc_mem_def factories_values reg_put_def tracked_size_def)

lemma os_free_mem_registry:
  assumes "factories_succeed K"
  shows "os_free_mem K d p =
    (case reg_find K d p of
       None \<Rightarrow> Done (d, [])
     | Some (OSNumber n) \<Rightarrow> Done (reg_del K d p, [IOFree p n])
     | Some (IOMemoryMapObject _) \<Rightarrow> Fault Panic)"
  using assms by (simp add: os_free_mem_def factories_values reg_find_def reg_del_def Let_def
      split: option.split os_object.split)

text \<open>The simulation relation: the dictionary holds the masked size of every live block.\<close>

definition tracks :: "'d \<Rightarrow> (ptr \<Rightarrow> u64 option) \<Rightarrow> bool" where
  "tracks d live \<longleftrightarrow> live NULL = None \<and>
     (\<forall>p. block_pointer p \<longrightarrow> reg_find K d p = map_option (OSNumber \<circ> tracked_size) (live p))"

lemma tracks_put:
  "tracks d live \<Longrightarrow> block_pointer p \<Longrightarrow> p \<noteq> NULL \<Longrightarrow>
   tracks (reg_put K d p (OSNumber (tracked_size n))) (live(p \<mapsto> n))"
  by (auto simp: tracks_def blocks.find_put)

lemma tracks_del:
  "tracks d live \<Longrightarrow> block_pointer p \<Longrightarrow> tracks (reg_del K d p) (live(p := None))"
  by (auto simp: tracks_def blocks.find_del)

lemma libc_run_spec:
  assumes "factories_succeed K" and "tracks d live"
    and "\<forall>op \<in> set ops. block_pointer (mem_op_ptr op)"
  shows "\<exists>d'. libc_run K d ops = Done (d', heap_spec tracked_size live ops)"
  using assms(2,3)
proof (induction ops arbitrary: d live)
  case Nil
  then show ?case by simp
next
  case (Cons op ops)
  from Cons.prems(2) have good: "block_pointer (mem_op_ptr op)"
    and rest: "\<forall>op \<in> set ops. block_pointer (mem_op_ptr op)" by simp_all
  note IH = Cons.IH [OF _ rest]
  show ?case
  proof (cases op)
    case (AllocMem n p)
    show ?thesis
    proof (cases "p = NULL")
      case True
      with AllocMem IH [OF Cons.prems(1)] show ?thesis
        by (auto simp: os_alloc_mem_def)
    next
      case False
      with AllocMem good Cons.prems(1)
      have "tracks (reg_put K d p (OSNumber (tracked_size n))) (live(p \<mapsto> n))"
        by (intro tracks_put) simp_all
      from IH [OF this] False AllocMem assms(1) show ?thesis
        by (auto simp: os_alloc_mem_registry fun_upd_def)
    qed
  next
    case (FreeMem p)
    with good Cons.prems(1)
    have found: "reg_find K d p = map_option (OSNumber \<circ> tracked_size) (live p)"
      by (simp add: tracks_def)
    show ?thesis
    proof (cases "live p")
      case None
      with FreeMem found assms(1) IH [OF Cons.prems(1)] show ?thesis
        by (auto simp: os_free_mem_registry)
    next
      case (Some n)
      with FreeMem good Cons.prems(1) have "tracks (reg_del K d p) (live(p := None))"
        by (intro tracks_del) simp_all
      from IH [OF this] Some FreeMem found assms(1) show ?thesis
        by (auto simp: os_free_mem_registry fun_upd_def)
    qed
  qed
qed

lemma libc_run_from_empty:
  assumes "factories_succeed K" and "\<forall>k. get_object K d k = None"
    and "\<forall>op \<in> set ops. block_pointer (mem_op_ptr op)"
  shows "\<exists>d'. libc_run K d ops = Done (d', heap_spec tracked_size Map.empty ops)"
  using assms by (intro libc_run_spec) (simp_all add: tracks_def reg_find_def)

lemma reg_find_put_key:
  "reg_find K (reg_put K d p v) q = (if keyName q = keyName p then Some v else reg_find K d q)"
  by (simp add: reg_find_def reg_put_def get_set)

lemma reg_find_del_key:
  "reg_find K (reg_del K d p) q = (if keyName q = keyName p then None else reg_find K d q)"
  by (simp add: reg_find_def reg_del_def get_remove)

lemmas tracker_simps = os_alloc_mem_registry os_free_mem_registry
  reg_find_put_key reg_find_del_key

end

text \<open>The calls a specification run makes do not depend on \<open>f\<close> when it keeps every size.\<close>

lemma heap_spec_cong:
  assumes "\<forall>n \<in> ran live. f n = g n"
    and "\<forall>n p. AllocMem n p \<in> set ops \<longrightarrow> f n = g n"
  shows "heap_spec f live ops = heap_spec g live ops"
  using assms
proof (induction f live ops rule: heap_spec.induct)
  case (2 f live n p ops)
  have "ran (live(p \<mapsto> n)) \<subseteq> insert n (ran live)" by (auto simp: ran_def)
  with 2 show ?case by (cases "p = NULL") (auto simp: fun_upd_def)
next
  case (3 f live p ops)
  show ?case
  proof (cases "live p")
    case None
    with 3 show ?thesis by simp
  next
    case (Some n)
    have "ran (live(p := None)) \<subseteq> ran live" by (auto simp: ran_def)
    with "3.prems" have "\<forall>n \<in> ran (live(p := None)). f n = g n" by blast
    from "3.IH"(2) [OF Some this] "3.prems" Some show ?thesis by (simp add: ranI fun_upd_def)
  qed
qed simp

section \<open>The type of the tracker's dictionary\<close>

text \<open>
  What the tracker stores: a size masked to 8 bits.  Its operations keep the dictionary of
  that type, also when an object could not be made, and so never reach the cast that stops
  the system.
\<close>

definition masked_number :: "os_object \<Rightarrow> bool" where
  "masked_number v \<longleftrightarrow> (\<exists>n. v = OSNumber n \<and> unat n < 256)"

context libkern_objects
begin

lemma masked_number_made: "os_number K n sizeof_NvU64 = Some v \<Longrightarrow> masked_number v"
  using number_masked [of n sizeof_NvU64 v] tracked_size_id_iff [of "tracked_size n"]
  by (simp add: masked_number_def tracked_size_def)

lemma alloc_typed:
  "holds_only K masked_number d \<Longrightarrow> holds_only K masked_number (fst (os_alloc_mem K d p n))"
  by (auto simp: os_alloc_mem_def Let_def intro!: holds_only_set dest: masked_number_made)

lemma free_typed:
  assumes "holds_only K masked_number d"
  shows "\<exists>d' cs. os_free_mem K d p = Done (d', cs) \<and> holds_only K masked_number d' \<and>
    (\<forall>q n. IOFree q n \<in> set cs \<longrightarrow> q = p \<and> unat n < 256)"
proof (cases "get_object K d (os_string K (keyName p))")
  case None
  with assms show ?thesis by (simp add: os_free_mem_def Let_def)
next
  case (Some v)
  then obtain k where k: "os_string K (keyName p) = Some k"
    using get_null [of d] by (cases "os_string K (keyName p)") auto
  with Some assms have "masked_number v" by (auto dest: holds_onlyD)
  with Some k holds_only_remove [OF assms, of k] show ?thesis
    by (auto simp: os_free_mem_def Let_def masked_number_def)
qed

lemma libc_run_typed:
  "holds_only K masked_number d \<Longrightarrow>
   \<exists>d' cs. libc_run K d ops = Done (d', cs) \<and> holds_only K masked_number d' \<and>
     (\<forall>q n. IOFree q n \<in> set cs \<longrightarrow> FreeMem q \<in> set ops \<and> unat n < 256)"
proof (induction ops arbitrary: d)
  case Nil
  then show ?case by simp
next
  case (Cons op ops)
  show ?case
  proof (cases op)
    case (AllocMem n p)
    obtain d1 cs st a where run: "os_alloc_mem K d p n = (d1, cs, st, a)" by (metis surj_pair)
    with alloc_typed [OF Cons.prems, of p n] have "holds_only K masked_number d1" by simp
    from Cons.IH [OF this] obtain d2 cs2 where d2: "libc_run K d1 ops = Done (d2, cs2)"
      "holds_only K masked_number d2"
      "\<forall>q n. IOFree q n \<in> set cs2 \<longrightarrow> FreeMem q \<in> set ops \<and> unat n < 256" by blast
    have "\<forall>q n. IOFree q n \<notin> set cs"
      using run by (auto simp: os_alloc_mem_def Let_def split: if_splits)
    with d2 run AllocMem show ?thesis by auto
  next
    case (FreeMem p)
    from free_typed [OF Cons.prems, of p] obtain d1 cs where d1: "os_free_mem K d p = Done (d1, cs)"
      "holds_only K masked_number d1" "\<forall>q n. IOFree q n \<in> set cs \<longrightarrow> q = p \<and> unat n < 256" by blast
    from Cons.IH [OF d1(2)] obtain d2 cs2 where "libc_run K d1 ops = Done (d2, cs2)"
      "holds_only K masked_number d2"
      "\<forall>q n. IOFree q n \<in> set cs2 \<longrightarrow> FreeMem q \<in> set ops \<and> unat n < 256" by blast
    with d1 FreeMem show ?thesis by fastforce
  qed
qed

end

section \<open>The wrappers of the C library\<close>

text \<open>\<open>NvS32\<close> results are integers, \<open>NvU32\<close> lengths are words.\<close>

definition os_mem_cmp :: "u8 list \<Rightarrow> u8 list \<Rightarrow> u32 \<Rightarrow> int outcome" where
  "os_mem_cmp s1 s2 n = c_memcmp s1 s2 (unat n)"

definition os_mem_copy :: "u8 list \<Rightarrow> u8 list \<Rightarrow> u32 \<Rightarrow> u8 list outcome" where
  "os_mem_copy dst src len = c_memcpy dst src (unat len)"

definition os_mem_set :: "u8 list \<Rightarrow> u8 \<Rightarrow> u32 \<Rightarrow> u8 list outcome" where
  "os_mem_set dst c len = c_memset dst c (unat len)"

text \<open>The length handed to \<open>strlcpy\<close> is that of the text already in \<open>dst\<close>.\<close>

definition os_string_copy :: "char list \<Rightarrow> char list \<Rightarrow> char list outcome" where
  "os_string_copy dst src =
     (case c_strlen dst of
        Fault f \<Rightarrow> Fault f
      | Done hack \<Rightarrow> c_strlcpy dst src hack)"

definition os_string_length :: "char list \<Rightarrow> u32 outcome" where
  "os_string_length str =
     (case c_strlen str of Fault f \<Rightarrow> Fault f | Done n \<Rightarrow> Done (of_nat n))"

definition os_string_compare :: "char list \<Rightarrow> char list \<Rightarrow> int outcome" where
  "os_string_compare s1 s2 = c_strcmp s1 s2"

text \<open>
  \<open>os_snprintf\<close> calls \<open>snprintf\<close>, not \<open>vsnprintf\<close>: its own \<open>va_list\<close> is the single
  argument the format sees.  \<open>render\<close> is the formatting of the C library; the result is the
  length of the rendered text and the text left in the buffer.
\<close>

datatype fmt_arg = IntArg int | StrArg string | VaListArg "fmt_arg list"

definition os_snprintf ::
  "(string \<Rightarrow> fmt_arg list \<Rightarrow> string) \<Rightarrow> u32 \<Rightarrow> string \<Rightarrow> fmt_arg list \<Rightarrow> int \<times> string" where
  "os_snprintf render sz fmt args =
     (let rendered = render fmt [VaListArg args]
      in (int (length rendered), c_snprintf (unat sz) rendered))"

text \<open>The value is cut to 32 bits; the second component is the offset \<open>*endptr\<close> is set to.\<close>

definition os_strtoul :: "string \<Rightarrow> u32 \<Rightarrow> u32 \<times> nat" where
  "os_strtoul str base =
     (case c_strtoul str (unat base) of (v, consumed) \<Rightarrow> (of_nat v, consumed))"

section \<open>Properties of the allocation tracker\<close>

text \<open>
  C6. Refinement: started on a dictionary without entries and used with 16-byte aligned
  canonical blocks, any sequence of \<open>os_alloc_mem\<close> and \<open>os_free_mem\<close> calls runs without a
  fault and makes exactly the calls of the specification that keeps a map of live blocks:
  every block is freed at most once, only when it is live, with the size it was allocated
  with as far as the tracker keeps it (the low 8 bits).
\<close>

theorem tracker_refines_spec:
  assumes "libkern_objects K" and "factories_succeed K"
    and "\<forall>k. get_object K d k = None"
    and "\<forall>op \<in> set ops. block_pointer (mem_op_ptr op)"
  shows "\<exists>d'. libc_run K d ops = Done (d', heap_spec tracked_size Map.empty ops)"
  using libkern_objects.libc_run_from_empty [OF assms] .

lemma map_libkern_factories: "factories_succeed map_libkern"
  by (simp add: factories_succeed_def map_libkern_def)

theorem tracker_refines_spec_witness:
  "\<exists>d'. libc_run map_libkern Map.empty
      [AllocMem 24 0xffffff8012345670, AllocMem 600 0x1000, FreeMem 0xffffff8012345670,
       FreeMem 0x2000, FreeMem 0x1000, FreeMem 0x1000] =
    Done (d', [IOMallocZero 24 0xffffff8012345670, IOMallocZero 600 0x1000,
               IOFree 0xffffff8012345670 24, IOFree 0x1000 88])"
proof -
  let ?ops = "[AllocMem 24 0xffffff8012345670, AllocMem 600 0x1000, FreeMem 0xffffff8012345670,
       FreeMem 0x2000, FreeMem 0x1000, FreeMem 0x1000]"
  have spec: "heap_spec tracked_size Map.empty ?ops =
      [IOMallocZero 24 0xffffff8012345670, IOMallocZero 600 0x1000,
       IOFree 0xffffff8012345670 24, IOFree 0x1000 88]"
    by (simp add: tracked_size_def sizeof_NvU64_def take_bit_eq_mask mask_eq_exp_minus_1)
  have "\<forall>op \<in> set ?ops. block_pointer (mem_op_ptr op)"
    by (simp add: block_pointer_def canonical_def)
  then show ?thesis
    using tracker_refines_spec [OF map_libkern.libkern_objects_axioms map_libkern_factories, of Map.empty ?ops]
    by (simp only: spec map_libkern_empty simp_thms)
qed

text \<open>
  Blocks of fewer than 256 bytes are tracked exactly: under the same conditions, if every
  size asked for is below 256, every \<open>IOFree\<close> is given the size its block was allocated with.
\<close>

lemma tracker_exact_below_256:
  assumes "libkern_objects K" and "factories_succeed K"
    and "\<forall>k. get_object K d k = None"
    and "\<forall>op \<in> set ops. block_pointer (mem_op_ptr op)"
    and "\<forall>n p. AllocMem n p \<in> set ops \<longrightarrow> unat n < 256"
  shows "\<exists>d'. libc_run K d ops = Done (d', heap_spec (\<lambda>n. n) Map.empty ops)"
proof -
  have "heap_spec tracked_size Map.empty ops = heap_spec (\<lambda>n. n) Map.empty ops"
    using assms(5) by (intro heap_spec_cong) (auto simp: tracked_size_id_iff)
  with libkern_objects.libc_run_from_empty [OF assms(1-4)] show ?thesis by simp
qed

lemma tracker_exact_below_256_witness:
  "\<exists>d'. libc_run map_libkern Map.empty [AllocMem 255 0x1000, FreeMem 0x1000] =
    Done (d', [IOMallocZero 255 0x1000, IOFree 0x1000 255])"
proof -
  let ?ops = "[AllocMem 255 0x1000, FreeMem 0x1000]"
  have "\<forall>op \<in> set ?ops. block_pointer (mem_op_ptr op)"
    and "\<forall>n p. AllocMem n p \<in> set ?ops \<longrightarrow> unat n < 256"
    by (simp_all add: block_pointer_def canonical_def)
  then have "\<exists>d'. libc_run map_libkern Map.empty ?ops =
      Done (d', heap_spec (\<lambda>n. n) Map.empty ?ops)"
    by (intro tracker_exact_below_256 map_libkern.libkern_objects_axioms map_libkern_factories)
      (simp_all add: map_libkern_empty)
  then show ?thesis by simp
qed

text \<open>
  The size handed to \<open>IOFree\<close> is the allocated one exactly when it is below 256:
  \<open>OSNumber::withNumber(size, sizeof(NvU64))\<close> keeps 8 bits where 64 were meant.
\<close>

lemma free_size_correct_iff:
  assumes "libkern_objects K" and "factories_succeed K" and "p \<noteq> NULL"
  shows "(\<exists>d'. libc_run K d [AllocMem n p, FreeMem p] =
            Done (d', [IOMallocZero n p, IOFree p n])) \<longleftrightarrow> unat n < 256"
  using assms
  by (simp add: libkern_objects.tracker_simps [OF assms(1)] tracked_size_id_iff)

lemma free_size_correct_iff_witness:
  "\<not> (\<exists>d'. libc_run map_libkern Map.empty [AllocMem 4096 0x1000, FreeMem 0x1000] =
        Done (d', [IOMallocZero 4096 0x1000, IOFree 0x1000 4096]))"
  using free_size_correct_iff [OF map_libkern.libkern_objects_axioms map_libkern_factories,
      where p = "0x1000" and d = Map.empty and n = 4096]
  by simp

text \<open>
  What a key keeps of a pointer: two pointers print to the same key exactly when they are
  equal after the last hexadecimal digit of a 16-digit address has been cut off.
\<close>

lemma key_collision_iff:
  "keyName p = keyName q \<longleftrightarrow>
     (if unat p < 2 ^ 60 then unat p else unat p div 16) =
     (if unat q < 2 ^ 60 then unat q else unat q div 16)"
  by (simp add: keyName_eq_iff key_part_def)

text \<open>
  Two live blocks in the same 16 bytes of the high address range share one entry:
  freeing the first one uses the size of the second, and the second is never freed.
\<close>

lemma colliding_blocks_leak:
  assumes "libkern_objects K" and "factories_succeed K"
    and "2 ^ 60 \<le> unat p" and "2 ^ 60 \<le> unat q" and "unat p div 16 = unat q div 16"
  shows "\<exists>d'. libc_run K d [AllocMem n p, AllocMem m q, FreeMem p, FreeMem q] =
    Done (d', [IOMallocZero n p, IOMallocZero m q, IOFree p (tracked_size m)])"
proof -
  have key: "keyName q = keyName p" using assms(3-5) by (simp add: keyName_eq_iff key_part_def)
  from assms(3,4) have "p \<noteq> NULL" "q \<noteq> NULL" by auto
  with key show ?thesis by (simp add: libkern_objects.tracker_simps [OF assms(1)] assms(2))
qed

lemma colliding_blocks_leak_witness:
  "\<exists>d'. libc_run map_libkern Map.empty
      [AllocMem 8 0xffffff8012345670, AllocMem 4 0xffffff8012345678,
       FreeMem 0xffffff8012345670, FreeMem 0xffffff8012345678] =
    Done (d', [IOMallocZero 8 0xffffff8012345670, IOMallocZero 4 0xffffff8012345678,
               IOFree 0xffffff8012345670 (tracked_size 4)])"
  by (rule colliding_blocks_leak [OF map_libkern.libkern_objects_axioms map_libkern_factories])
    simp_all

text \<open>
  C26. Typing of the tracker: on a dictionary that holds only masked sizes, any sequence of
  allocations and frees, of any pointers and also when the object factories fail, never
  reaches the cast that stops the system, leaves such a dictionary, and frees only pointers
  it was asked to free, with sizes below 256.
\<close>

theorem tracker_type_safe:
  assumes "libkern_objects K" and "holds_only K masked_number d"
  shows "\<exists>d' cs. libc_run K d ops = Done (d', cs) \<and> holds_only K masked_number d' \<and>
    (\<forall>p n. IOFree p n \<in> set cs \<longrightarrow> FreeMem p \<in> set ops \<and> unat n < 256)"
  by (rule libkern_objects.libc_run_typed [OF assms])

theorem tracker_type_safe_witness:
  "\<exists>d' cs. libc_run map_libkern (\<lambda>k. if k = keyName 0x1000 then Some (OSNumber 7) else None)
     [FreeMem 0x1001, FreeMem 0x1000, AllocMem 300 0x1008] = Done (d', cs) \<and>
     holds_only map_libkern masked_number d'"
proof -
  have "holds_only map_libkern masked_number
      (\<lambda>k. if k = keyName 0x1000 then Some (OSNumber 7) else None)"
    by (auto simp: holds_only_def masked_number_def map_libkern_def split: if_splits)
  from tracker_type_safe [OF map_libkern.libkern_objects_axioms this] show ?thesis by blast
qed

section \<open>Properties of the wrappers\<close>

text \<open>
  C38. \<open>os_string_copy\<close> never leaves the buffer (nothing from the old terminator on
  changes), but it copies the source only when the text already in the buffer is longer: the
  result is cut to one character less than the old text, and an empty buffer stays empty.
\<close>

theorem os_string_copy_effect:
  assumes "NUL \<in> set dst" and "NUL \<in> set src"
  shows "\<exists>dst'. os_string_copy dst src = Done dst' \<and>
    length dst' = length dst \<and>
    drop (length (c_text dst)) dst' = drop (length (c_text dst)) dst \<and>
    c_text dst' = take (length (c_text dst) - 1) (c_text src) \<and>
    (c_text dst' = c_text src \<longleftrightarrow>
       c_text src = [] \<or> length (c_text src) < length (c_text dst))"
proof (cases "c_text dst = []")
  case True
  with assms show ?thesis
    by (auto simp: os_string_copy_def c_strlen_def c_strlcpy_def)
next
  case False
  let ?k = "length (c_text dst)" and ?t = "take (length (c_text dst) - 1) (c_text src)"
  let ?dst' = "?t @ NUL # drop (length ?t + 1) dst"
  from False have k: "0 < ?k" by simp
  have "length ?t \<le> ?k - 1" by simp
  with k have fits: "length ?t + 1 \<le> ?k" by linarith
  note room = c_text_length_lt [OF assms(1)]
  have run: "os_string_copy dst src = Done ?dst'"
    using assms k fits room
    by (simp add: os_string_copy_def c_strlen_def c_strlcpy_def overwrite_def)
  have len: "length ?dst' = length dst" using fits room by simp
  have frame: "drop ?k ?dst' = drop ?k dst"
    using fits drop_past_overwrite [of "?t @ [NUL]" ?k dst] by simp
  have texts: "c_text ?dst' = ?t"
    using c_text_no_NUL [of src] by (intro c_text_append_NUL) (auto dest: in_set_takeD)
  have "?t = c_text src \<longleftrightarrow> length (c_text src) \<le> ?k - 1" by (rule take_eq_iff_short)
  also have "\<dots> \<longleftrightarrow> length (c_text src) < ?k" using k by linarith
  finally have "?t = c_text src \<longleftrightarrow> length (c_text src) < ?k" .
  with k have "?t = c_text src \<longleftrightarrow> c_text src = [] \<or> length (c_text src) < ?k" by auto
  with run len frame texts show ?thesis by (intro exI [of _ ?dst']) simp
qed

theorem os_string_copy_effect_witness:
  "NUL \<in> set (''abcd'' @ [NUL]) \<and> NUL \<in> set (''xyzw'' @ [NUL]) \<and>
   (\<exists>dst'. os_string_copy (''abcd'' @ [NUL]) (''xyzw'' @ [NUL]) = Done dst' \<and>
      c_text dst' = ''xyz'')"
proof -
  have texts: "c_text (''abcd'' @ [NUL]) = ''abcd''" "c_text (''xyzw'' @ [NUL]) = ''xyzw''"
    by (simp_all add: c_text_def NUL_def)
  have in_set: "NUL \<in> set (''abcd'' @ [NUL])" "NUL \<in> set (''xyzw'' @ [NUL])" by simp_all
  have "\<exists>dst'. os_string_copy (''abcd'' @ [NUL]) (''xyzw'' @ [NUL]) = Done dst' \<and>
      c_text dst' = take (length ''abcd'' - 1) ''xyzw''"
    using os_string_copy_effect [OF in_set] unfolding texts by blast
  with in_set show ?thesis by simp
qed

text \<open>
  C36. Round trip of \<open>os_strtoul\<close>: the numeral of \<open>n\<close> in any base from 2 to 36 is consumed
  whole, and the value is \<open>n\<close> modulo \<open>2 ^ 32\<close> (all ones from \<open>2 ^ 64\<close> on).
\<close>

theorem os_strtoul_roundtrip:
  assumes "2 \<le> b" and "b \<le> 36"
  shows "os_strtoul (num_digits b n) (of_nat b) =
    (if n < 2 ^ 64 then of_nat n else 0xFFFFFFFF, length (num_digits b n))"
proof -
  have "unat (of_nat b :: u32) = b" using assms by (simp add: unat_of_nat)
  moreover have "(of_nat (2 ^ 64 - 1) :: u32) = 0xFFFFFFFF" by simp
  ultimately show ?thesis
    using assms by (simp add: os_strtoul_def c_strtoul_num_digits)
qed

theorem os_strtoul_roundtrip_witness:
  "os_strtoul (num_digits 10 4294967301) 10 = (5, 10)"
proof -
  have "length (num_digits 10 4294967301) = 10"
    using num_digits_length_le [of 10 4294967301 10] num_digits_length_gt [of 10 9 4294967301]
    by simp
  with os_strtoul_roundtrip [of 10 4294967301] show ?thesis by simp
qed

text \<open>
  \<open>os_mem_copy\<close> within both objects succeeds, changes exactly the first bytes of the
  destination and makes \<open>os_mem_cmp\<close> answer 0; \<open>os_mem_cmp\<close> answers 0 only on equal
  prefixes; reading or writing past an object is a fault.
\<close>

lemma os_mem_copy_cmp:
  "if unat n \<le> length src \<and> unat n \<le> length dst
   then (\<exists>dst'. os_mem_copy dst src n = Done dst' \<and> length dst' = length dst \<and>
          drop (unat n) dst' = drop (unat n) dst \<and>
          (\<forall>s. unat n \<le> length s \<longrightarrow>
            (os_mem_cmp dst' s n = Done 0 \<longleftrightarrow> take (unat n) s = take (unat n) src)))
   else os_mem_copy dst src n = Fault ArrayOutOfBounds"
proof (cases "unat n \<le> length src \<and> unat n \<le> length dst")
  case True
  let ?dst' = "take (unat n) src @ drop (unat n) dst"
  have "os_mem_cmp ?dst' s n = Done 0 \<longleftrightarrow> take (unat n) s = take (unat n) src"
    if "unat n \<le> length s" for s
  proof -
    from True that have "os_mem_cmp ?dst' s n = Done 0 \<longleftrightarrow>
        map unat (take (unat n) src) = map unat (take (unat n) s)"
      by (simp add: os_mem_cmp_def c_memcmp_def first_diff_zero_iff)
    also have "\<dots> \<longleftrightarrow> take (unat n) s = take (unat n) src"
      by (subst inj_map_eq_map) (auto intro: injI simp: word_unat_eq_iff)
    finally show ?thesis .
  qed
  with True show ?thesis
    by (intro iffD2 [OF if_P] exI [of _ ?dst'])
      (auto simp: os_mem_copy_def c_memcpy_def overwrite_def)
next
  case False
  then show ?thesis by (auto simp: os_mem_copy_def c_memcpy_def overwrite_def)
qed

lemma os_mem_copy_cmp_witness:
  "\<exists>dst'. os_mem_copy [1, 2, 3] [7, 8] 2 = Done dst' \<and> os_mem_cmp dst' [7, 8] 2 = Done 0"
  using os_mem_copy_cmp [of 2 "[7, 8]" "[1, 2, 3]"] by auto

end
