(* ===== verification/LowMemory.thy ===== *)
theory LowMemory
  imports Libc
begin

text \<open>
  The tracker of \<open>libc.cpp\<close> when memory is short: \<open>OSString::withCString\<close> and
  \<open>OSNumber::withNumber\<close> answer NULL in some calls and not in others.  \<open>os_alloc_mem\<close> looks at
  neither, so it hands out a block it has not recorded and reports \<open>NV_OK\<close>; \<open>os_free_mem\<close>
  without a key finds nothing and gives nothing back.  \<open>low_spec\<close> says which blocks stay live
  in the kernel and which of them are recorded, and \<open>low_run_spec\<close> is the simulation.
\<close>

lemma map_leD: "f \<subseteq>\<^sub>m g \<Longrightarrow> f p = Some n \<Longrightarrow> g p = Some n"
  by (metis domI map_le_def)

section \<open>The factories fail\<close>

text \<open>One call of the code: whether the key and the number can be made in it.\<close>

record made =
  key_made :: bool
  size_made :: bool

definition flaky :: "'d libkern \<Rightarrow> made \<Rightarrow> 'd libkern" where
  "flaky K m = K\<lparr>os_string := (\<lambda>s. if key_made m then os_string K s else None),
                 os_number := (\<lambda>v n. if size_made m then os_number K v n else None)\<rparr>"

fun low_run :: "'d libkern \<Rightarrow> 'd \<Rightarrow> (made \<times> mem_op) list \<Rightarrow> ('d \<times> heap_call list) outcome" where
  "low_run K d [] = Done (d, [])"
| "low_run K d ((m, op) # ops) =
     (case libc_run (flaky K m) d [op] of
        Fault f \<Rightarrow> Fault f
      | Done (d', cs) \<Rightarrow>
          (case low_run K d' ops of
             Fault f \<Rightarrow> Fault f
           | Done (d'', cs') \<Rightarrow> Done (d'', cs @ cs')))"

text \<open>
  The specification keeps the kernel's view of the blocks, \<open>heap\<close>, and the recorded ones,
  \<open>live\<close>.  It is undefined when the allocator hands out a block that is in use.
\<close>

type_synonym blocks = "ptr \<Rightarrow> u64 option"

fun low_spec :: "blocks \<Rightarrow> blocks \<Rightarrow> (made \<times> mem_op) list \<Rightarrow>
    (heap_call list \<times> blocks \<times> blocks) option" where
  "low_spec heap live [] = Some ([], heap, live)"
| "low_spec heap live ((m, AllocMem n p) # ops) =
     (if p = NULL
      then map_option (apfst ((#) (IOMallocZero n p))) (low_spec heap live ops)
      else if heap p \<noteq> None then None
      else map_option (apfst ((#) (IOMallocZero n p)))
        (low_spec (heap(p \<mapsto> n)) (if key_made m \<and> size_made m then live(p \<mapsto> n) else live) ops))"
| "low_spec heap live ((m, FreeMem p) # ops) =
     (case (if key_made m then live p else None) of
        None \<Rightarrow> low_spec heap live ops
      | Some n \<Rightarrow> map_option (apfst ((#) (IOFree p (tracked_size n))))
          (low_spec (heap(p := None)) (live(p := None)) ops))"

lemma flaky_simps [simp]:
  "set_object (flaky K m) = set_object K"
  "get_object (flaky K m) = get_object K"
  "remove_object (flaky K m) = remove_object K"
  "os_string (flaky K m) s = (if key_made m then os_string K s else None)"
  "os_number (flaky K m) v k = (if size_made m then os_number K v k else None)"
  by (simp_all add: flaky_def)

text \<open>What the two operations do: as before when their objects are made, nothing otherwise.\<close>

lemma alloc_all_made:
  "key_made m \<and> size_made m \<Longrightarrow> os_alloc_mem (flaky K m) d p n = os_alloc_mem K d p n"
  by (simp add: os_alloc_mem_def)

lemma free_with_key: "key_made m \<Longrightarrow> os_free_mem (flaky K m) d p = os_free_mem K d p"
  by (simp add: os_free_mem_def cong: option.case_cong os_object.case_cong)

context libkern_objects
begin

lemma free_without_key: "\<not> key_made m \<Longrightarrow> os_free_mem (flaky K m) d p = Done (d, [])"
  by (simp add: os_free_mem_def get_null)

lemma alloc_not_made:
  assumes "p \<noteq> NULL" and "\<not> (key_made m \<and> size_made m)"
  shows "\<exists>d'. os_alloc_mem (flaky K m) d p n = (d', [IOMallocZero n p], NV_OK, Some p) \<and>
    (\<forall>k. get_object K d' k = get_object K d k)"
  using assms by (auto simp: os_alloc_mem_def get_set_null)

lemma tracks_same_answers:
  "tracks d live \<Longrightarrow> \<forall>k. get_object K d' k = get_object K d k \<Longrightarrow> tracks d' live"
  by (simp add: tracks_def reg_find_def)

text \<open>The simulation relation, and its preservation by one call.\<close>

definition low_rel :: "'d \<Rightarrow> blocks \<Rightarrow> blocks \<Rightarrow> bool" where
  "low_rel d heap live \<longleftrightarrow> tracks d live \<and> live \<subseteq>\<^sub>m heap"

lemma low_rel_alloc:
  assumes "factories_succeed K" and "low_rel d heap live"
    and "block_pointer p" and "p \<noteq> NULL" and "heap p = None"
  shows "\<exists>d'. os_alloc_mem (flaky K m) d p n = (d', [IOMallocZero n p], NV_OK, Some p) \<and>
    low_rel d' (heap(p \<mapsto> n)) (if key_made m \<and> size_made m then live(p \<mapsto> n) else live)"
proof (cases "key_made m \<and> size_made m")
  case True
  with assms have "low_rel (reg_put K d p (OSNumber (tracked_size n))) (heap(p \<mapsto> n)) (live(p \<mapsto> n))"
    by (auto simp: low_rel_def map_le_def intro: tracks_put)
  with True assms show ?thesis by (simp add: alloc_all_made os_alloc_mem_registry)
next
  case False
  from assms(2,5) have "live p = None"
    by (cases "live p") (auto simp: low_rel_def dest: map_leD)
  with assms(2) have le: "live \<subseteq>\<^sub>m heap(p \<mapsto> n)"
    by (auto simp: low_rel_def map_le_def dom_def)
  from alloc_not_made [OF assms(4) False, of d n] assms(2) le False show ?thesis
    by (auto simp: low_rel_def dest: tracks_same_answers)
qed

lemma low_rel_free:
  assumes "factories_succeed K" and "low_rel d heap live" and "block_pointer p"
  shows "\<exists>d'. os_free_mem (flaky K m) d p =
      Done (d', case (if key_made m then live p else None) of
                  None \<Rightarrow> [] | Some n \<Rightarrow> [IOFree p (tracked_size n)]) \<and>
    (if key_made m \<and> live p \<noteq> None then low_rel d' (heap(p := None)) (live(p := None))
     else low_rel d' heap live)"
proof (cases "key_made m")
  case True
  from assms(2,3) have "reg_find K d p = map_option (OSNumber \<circ> tracked_size) (live p)"
    by (simp add: low_rel_def tracks_def)
  moreover have "low_rel (reg_del K d p) (heap(p := None)) (live(p := None))"
    using assms(2,3) by (auto simp: low_rel_def map_le_def intro: tracks_del)
  ultimately show ?thesis
    using True assms(1,2) by (cases "live p") (auto simp: free_with_key os_free_mem_registry)
next
  case False
  with assms(2) show ?thesis by (simp add: free_without_key)
qed

lemma low_run_spec:
  assumes "factories_succeed K" and "low_rel d heap live"
    and "\<forall>op \<in> set ops. block_pointer (mem_op_ptr (snd op))"
    and "low_spec heap live ops = Some (cs, heap', live')"
  shows "\<exists>d'. low_run K d ops = Done (d', cs) \<and> low_rel d' heap' live' \<and>
    replay heap cs = Some heap'"
  using assms(2-4)
proof (induction heap live ops arbitrary: d cs rule: low_spec.induct)
  case (1 heap live)
  then show ?case by simp
next
  case (2 heap live m n p ops)
  show ?case
  proof (cases "p = NULL")
    case True
    with "2.prems"(3) obtain cs1 where cs: "cs = IOMallocZero n p # cs1"
      and spec: "low_spec heap live ops = Some (cs1, heap', live')" by auto
    from "2.IH"(1) [OF True "2.prems"(1) _ spec] "2.prems"(2) cs True show ?thesis
      by (auto simp: os_alloc_mem_def)
  next
    case False
    with "2.prems"(3) obtain cs1 where fresh: "heap p = None" and cs: "cs = IOMallocZero n p # cs1"
      and spec: "low_spec (heap(p \<mapsto> n))
        (if key_made m \<and> size_made m then live(p \<mapsto> n) else live) ops = Some (cs1, heap', live')"
      by (auto split: if_split_asm)
    from "2.prems"(2) have "block_pointer p" by simp
    from low_rel_alloc [OF assms(1) "2.prems"(1) this False fresh, of m n]
    obtain d1 where d1: "os_alloc_mem (flaky K m) d p n = (d1, [IOMallocZero n p], NV_OK, Some p)"
      "low_rel d1 (heap(p \<mapsto> n)) (if key_made m \<and> size_made m then live(p \<mapsto> n) else live)"
      by blast
    from fresh have "\<not> heap p \<noteq> None" by simp
    from "2.IH"(2) [OF False this d1(2) _ spec] "2.prems"(2) d1(1) cs False fresh
    show ?thesis by (auto simp: fun_upd_def)
  qed
next
  case (3 heap live m p ops)
  from "3.prems"(2) have "block_pointer p" by simp
  from low_rel_free [OF assms(1) "3.prems"(1) this, of m]
  obtain d1 where d1: "os_free_mem (flaky K m) d p =
      Done (d1, case (if key_made m then live p else None) of
                  None \<Rightarrow> [] | Some n \<Rightarrow> [IOFree p (tracked_size n)])"
    "if key_made m \<and> live p \<noteq> None then low_rel d1 (heap(p := None)) (live(p := None))
     else low_rel d1 heap live" by blast
  show ?case
  proof (cases "if key_made m then live p else None")
    case None
    with "3.prems"(3) have spec: "low_spec heap live ops = Some (cs, heap', live')" by simp
    from None d1(2) have rel: "low_rel d1 heap live" by (simp split: if_split_asm)
    from "3.IH"(1) [OF None rel _ spec] "3.prems"(2) d1(1) None show ?thesis by auto
  next
    case (Some k)
    with "3.prems"(3) obtain cs1 where cs: "cs = IOFree p (tracked_size k) # cs1"
      and spec: "low_spec (heap(p := None)) (live(p := None)) ops = Some (cs1, heap', live')"
      by auto
    from Some d1(2) have rel: "low_rel d1 (heap(p := None)) (live(p := None))"
      by (simp split: if_split_asm)
    from Some "3.prems"(1) have "heap p = Some k"
      by (auto simp: low_rel_def split: if_split_asm dest: map_leD)
    with "3.IH"(2) [OF Some rel _ spec] "3.prems"(2) d1(1) Some cs show ?thesis
      by (auto simp: fun_upd_def)
  qed
qed

end

section \<open>Properties\<close>

text \<open>
  C27. Error behaviour of the tracker when memory is short: whichever keys and sizes cannot be
  made, a run on an empty dictionary, with an allocator that hands out free canonical blocks
  aligned to 16 bytes, ends without a fault and makes the calls of the specification; every
  \<open>IOFree\<close> among them gives back a block in use, with the size the tracker keeps of it; the
  blocks recorded at the end are in use; and a later \<open>os_free_mem\<close>, all memory back, gives
  back a recorded block and no other: a block handed out while its objects could not be made
  is lost, although every allocation that gets a block answers \<open>NV_OK\<close>; one whose release
  failed is not.
\<close>

theorem tracker_low_memory:
  assumes "libkern_objects K" and "factories_succeed K"
    and "\<forall>k. get_object K d k = None"
    and "\<forall>op \<in> set ops. block_pointer (mem_op_ptr (snd op))"
    and "low_spec Map.empty Map.empty ops = Some (cs, heap, live)"
  shows "\<exists>d'. low_run K d ops = Done (d', cs) \<and> replay Map.empty cs = Some heap \<and>
    live \<subseteq>\<^sub>m heap \<and>
    (\<forall>p. block_pointer p \<longrightarrow> os_free_mem K d' p =
       (case live p of
          None \<Rightarrow> Done (d', [])
        | Some n \<Rightarrow> Done (reg_del K d' p, [IOFree p (tracked_size n)]))) \<and>
    (\<forall>m p n. p \<noteq> NULL \<longrightarrow> (\<exists>d''.
       os_alloc_mem (flaky K m) d' p n = (d'', [IOMallocZero n p], NV_OK, Some p)))"
proof -
  from assms(3) have "libkern_objects.low_rel K d Map.empty Map.empty"
    by (simp add: libkern_objects.low_rel_def [OF assms(1)]
        libkern_objects.tracks_def [OF assms(1)] reg_find_def)
  from libkern_objects.low_run_spec [OF assms(1,2) this assms(4,5)]
  obtain d' where run: "low_run K d ops = Done (d', cs)" "replay Map.empty cs = Some heap"
    and rel: "libkern_objects.low_rel K d' heap live" by blast
  from rel have found: "reg_find K d' p = map_option (OSNumber \<circ> tracked_size) (live p)"
    if "block_pointer p" for p
    using that by (simp add: libkern_objects.low_rel_def [OF assms(1)]
        libkern_objects.tracks_def [OF assms(1)])
  from rel have "live \<subseteq>\<^sub>m heap" by (simp add: libkern_objects.low_rel_def [OF assms(1)])
  with run found show ?thesis
    by (auto simp: os_alloc_mem_def libkern_objects.os_free_mem_registry [OF assms(1,2)] split: option.split)
qed

text \<open>A block recorded, one handed out without its key, one whose first release failed.\<close>

theorem tracker_low_memory_witness:
  "\<exists>d'. low_run map_libkern Map.empty
      [(\<lparr>key_made = False, size_made = True\<rparr>, AllocMem 24 0x1000),
       (\<lparr>key_made = True, size_made = True\<rparr>, AllocMem 48 0x2000),
       (\<lparr>key_made = False, size_made = False\<rparr>, FreeMem 0x2000)] =
      Done (d', [IOMallocZero 24 0x1000, IOMallocZero 48 0x2000]) \<and>
    os_free_mem map_libkern d' 0x1000 = Done (d', []) \<and>
    (\<exists>d''. os_free_mem map_libkern d' 0x2000 = Done (d'', [IOFree 0x2000 (tracked_size 48)]))"
proof -
  let ?ops = "[(\<lparr>key_made = False, size_made = True\<rparr>, AllocMem 24 0x1000),
       (\<lparr>key_made = True, size_made = True\<rparr>, AllocMem 48 0x2000),
       (\<lparr>key_made = False, size_made = False\<rparr>, FreeMem 0x2000)]"
  have good: "block_pointer 0x1000" "block_pointer 0x2000"
    by (simp_all add: block_pointer_def canonical_def)
  then have ops: "\<forall>op \<in> set ?ops. block_pointer (mem_op_ptr (snd op))" by simp
  have spec: "low_spec Map.empty Map.empty ?ops =
      Some ([IOMallocZero 24 0x1000, IOMallocZero 48 0x2000],
        [0x1000 \<mapsto> 24, 0x2000 \<mapsto> 48], [0x2000 \<mapsto> 48])" by simp
  have "\<forall>k. get_object map_libkern Map.empty k = None" by (simp add: map_libkern_empty)
  from tracker_low_memory [OF map_libkern.libkern_objects_axioms map_libkern_factories this ops spec]
  obtain d' where run: "low_run map_libkern Map.empty ?ops =
      Done (d', [IOMallocZero 24 0x1000, IOMallocZero 48 0x2000])"
    and later: "\<forall>p. block_pointer p \<longrightarrow> os_free_mem map_libkern d' p =
       (case [0x2000 \<mapsto> 48] p of
          None \<Rightarrow> Done (d', [])
        | Some n \<Rightarrow> Done (reg_del map_libkern d' p, [IOFree p (tracked_size n)]))" by blast
  from later good have "os_free_mem map_libkern d' 0x1000 = Done (d', [])"
    and "\<exists>d''. os_free_mem map_libkern d' 0x2000 = Done (d'', [IOFree 0x2000 (tracked_size 48)])"
    by simp_all
  with run show ?thesis by blast
qed

end
