(* ===== verification/CLayout.thy ===== *)
theory CLayout
  imports NvPrelude
begin

text \<open>
  The sizes and field offsets of C types on the 64-bit targets, and those structures of the sources
  whose size an allocation depends on or that have to match a system header: those of \<open>shim_driverkit.h\<close>, which have to match Apple's because the
  code allocates them and Apple's functions fill them, and those of \<open>firmware_kernel.cpp\<close>,
  \<open>memory_kernel.cpp\<close> and \<open>iokit.cpp\<close>.
\<close>

section \<open>C types\<close>

text \<open>
  A scalar by its size, which is its alignment; a unit of bit-fields of one \<open>uint32_t\<close> by the
  widths of its fields; arrays and structures.
\<close>

datatype ctype =
    Scalar nat
  | BitUnit "(string \<times> nat) list"
  | Arr nat ctype
  | Struct "(string \<times> ctype) list"

abbreviation "c_char \<equiv> Scalar 1"
abbreviation "c_int16 \<equiv> Scalar 2"
abbreviation "c_int \<equiv> Scalar 4"
abbreviation "c_uint32 \<equiv> Scalar 4"
abbreviation "c_long \<equiv> Scalar 8"
abbreviation "c_pointer \<equiv> Scalar 8"

fun align_of :: "ctype \<Rightarrow> nat" and fields_align :: "(string \<times> ctype) list \<Rightarrow> nat" where
  "align_of (Scalar n) = n"
| "align_of (BitUnit _) = 4"
| "align_of (Arr n t) = align_of t"
| "align_of (Struct fs) = fields_align fs"
| "fields_align [] = 1"
| "fields_align ((_, t) # fs) = lcm (align_of t) (fields_align fs)"

definition round_up :: "nat \<Rightarrow> nat \<Rightarrow> nat" where
  "round_up off a = (off + a - 1) div a * a"

text \<open>Each field stands at the next offset with its alignment; the structure is filled up to its own.\<close>

fun size_of :: "ctype \<Rightarrow> nat" and fields_end :: "nat \<Rightarrow> (string \<times> ctype) list \<Rightarrow> nat" where
  "size_of (Scalar n) = n"
| "size_of (BitUnit _) = 4"
| "size_of (Arr n t) = n * size_of t"
| "size_of (Struct fs) = round_up (fields_end 0 fs) (fields_align fs)"
| "fields_end off [] = off"
| "fields_end off ((_, t) # fs) = fields_end (round_up off (align_of t) + size_of t) fs"

fun layout :: "nat \<Rightarrow> (string \<times> ctype) list \<Rightarrow> (string \<times> nat \<times> ctype) list" where
  "layout off [] = []"
| "layout off ((f, t) # fs) =
     (let at_off = round_up off (align_of t) in (f, at_off, t) # layout (at_off + size_of t) fs)"

text \<open>Sizes are positive, bit-fields fit their unit.\<close>

fun good_type :: "ctype \<Rightarrow> bool" and good_fields :: "(string \<times> ctype) list \<Rightarrow> bool" where
  "good_type (Scalar n) \<longleftrightarrow> 0 < n"
| "good_type (BitUnit ws) \<longleftrightarrow> (\<Sum>(_, w) \<leftarrow> ws. w) \<le> 32"
| "good_type (Arr n t) \<longleftrightarrow> good_type t"
| "good_type (Struct fs) \<longleftrightarrow> good_fields fs"
| "good_fields [] \<longleftrightarrow> True"
| "good_fields ((_, t) # fs) \<longleftrightarrow> good_type t \<and> good_fields fs"

section \<open>What a layout guarantees\<close>

lemma round_up_dvd: "a dvd round_up off a"
  by (simp add: round_up_def)

lemma round_up_ge: "0 < a \<Longrightarrow> off \<le> round_up off a"
  using dividend_less_div_times [of a "off + a - 1"] by (simp add: round_up_def)

lemma align_pos:
  "good_type t \<Longrightarrow> 0 < align_of t"
  "good_fields fs \<Longrightarrow> 0 < fields_align fs"
  by (induction t and fs rule: align_of_fields_align.induct) (auto simp: lcm_pos_nat)

text \<open>The size is a multiple of the alignment, so the elements of an array are aligned too.\<close>

lemma align_dvd_size: "align_of t dvd size_of t"
  by (induction t) (auto simp: round_up_dvd)

lemma field_align_dvd: "(f, off, t) \<in> set (layout o' fs) \<Longrightarrow> align_of t dvd fields_align fs"
  by (induction o' fs rule: layout.induct) (auto simp: Let_def)

lemma layout_within:
  assumes "good_fields fs"
  shows "start \<le> fields_end start fs \<and>
    (\<forall>(f, off, t) \<in> set (layout start fs).
       start \<le> off \<and> align_of t dvd off \<and> off + size_of t \<le> fields_end start fs)"
  using assms
proof (induction start fs rule: layout.induct)
  case (1 off)
  then show ?case by simp
next
  case (2 start f t fs)
  let ?at = "round_up start (align_of t)"
  from 2(2) have "start \<le> ?at" by (simp add: align_pos round_up_ge)
  with 2 show ?case by (fastforce simp: Let_def round_up_dvd)
qed

lemma layout_disjoint:
  assumes "good_fields fs"
  shows "sorted_wrt (\<lambda>(_, o1, t1) (_, o2, _). o1 + size_of t1 \<le> o2) (layout start fs)"
  using assms
proof (induction start fs rule: layout.induct)
  case (2 start f t fs)
  with layout_within [of fs "round_up start (align_of t) + size_of t"] show ?case
    by (auto simp: Let_def)
qed simp

section \<open>The structures of \<open>shim_driverkit.h\<close>\<close>

definition mach_timespec_s :: ctype where
  "mach_timespec_s = Struct [(''tv_sec'', c_uint32), (''tv_nsec'', c_int)]"

definition MAXCOMLEN :: nat where
  "MAXCOMLEN = 16"

definition proc_name_t :: ctype where
  "proc_name_t = Arr (2 * MAXCOMLEN + 1) c_char"

definition os_unfair_lock_s :: ctype where
  "os_unfair_lock_s = Struct [(''_os_unfair_lock_opaque'', c_uint32)]"

definition pthread_lock :: ctype where
  "pthread_lock = os_unfair_lock_s"

definition pthread_mutex_ulock_s :: ctype where
  "pthread_mutex_ulock_s = Struct [(''uval'', c_uint32)]"

definition pthread_mutex_s :: ctype where
  "pthread_mutex_s = Struct
     [(''sig'', c_long),
      (''lock'', pthread_lock),
      (''value'', c_uint32),
      (''prioceiling'', c_int16),
      (''priority'', c_int16),
      (''_pad'', c_uint32),
      (''m_tid'', Arr 2 c_uint32),
      (''m_seq'', Arr 2 c_uint32),
      (''m_mis'', Arr 2 c_uint32),
      (''_reserved'', Arr 4 c_uint32)]"

definition pthread_rwlock_s :: ctype where
  "pthread_rwlock_s = Struct
     [(''sig'', c_long),
      (''lock'', pthread_lock),
      (''unused, misalign, pshared'', BitUnit [(''unused'', 29), (''misalign'', 1), (''pshared'', 2)]),
      (''rw_flags'', c_uint32),
      (''_pad'', c_uint32),
      (''rw_tid'', Arr 2 c_uint32),
      (''rw_seq'', Arr 4 c_uint32),
      (''rw_mis'', Arr 4 c_uint32),
      (''_reserved'', Arr 34 c_uint32)]"

definition semaphore_t :: ctype where
  "semaphore_t = Scalar 8"

section \<open>Structures of the other files\<close>

definition nv_darwin_fw_context :: ctype where
  "nv_darwin_fw_context = Struct [(''buffer'', c_pointer), (''buffer_size'', c_long)]"

definition DMACommandDescriptorPairing :: ctype where
  "DMACommandDescriptorPairing = Struct [(''command'', c_pointer), (''descriptor'', c_pointer)]"

definition nv_cap :: ctype where
  "nv_cap = Struct [(''dummy'', c_pointer)]"

lemmas struct_defs = mach_timespec_s_def proc_name_t_def MAXCOMLEN_def os_unfair_lock_s_def
  pthread_lock_def pthread_mutex_ulock_s_def pthread_mutex_s_def pthread_rwlock_s_def
  semaphore_t_def nv_darwin_fw_context_def DMACommandDescriptorPairing_def nv_cap_def

lemma struct_sizes:
  "size_of mach_timespec_s = 8" "size_of proc_name_t = 33" "size_of os_unfair_lock_s = 4"
  "size_of pthread_mutex_s = 64" "size_of pthread_rwlock_s = 200" "size_of semaphore_t = 8"
  "size_of nv_darwin_fw_context = 16" "size_of DMACommandDescriptorPairing = 16" "size_of nv_cap = 8"
  by (simp_all add: struct_defs round_up_def lcm_nat_def)

section \<open>Properties\<close>

text \<open>
  Not among them: \<open>nv_darwin_state_s\<close>, which holds a structure of NVIDIA's, and the empty
  \<open>nv_dma_device\<close>, which nothing uses.
\<close>

definition declared_structs :: "ctype list" where
  "declared_structs = [mach_timespec_s, os_unfair_lock_s, pthread_mutex_ulock_s, pthread_mutex_s,
     pthread_rwlock_s, nv_darwin_fw_context, DMACommandDescriptorPairing, nv_cap]"

text \<open>A structure whose fields fill it: none of its bytes is padding.\<close>

fun packed :: "ctype \<Rightarrow> bool" where
  "packed (Struct fs) \<longleftrightarrow> size_of (Struct fs) = (\<Sum>(_, t) \<leftarrow> fs. size_of t)"
| "packed _ \<longleftrightarrow> True"

lemma declared_structs_good: "t \<in> set declared_structs \<Longrightarrow> good_type t \<and> packed t"
  by (auto simp: declared_structs_def struct_defs round_up_def lcm_nat_def)

lemma layout_sound:
  assumes "good_fields fs"
  shows "\<forall>(f, off, t) \<in> set (layout 0 fs). align_of t dvd off \<and> off + size_of t \<le> size_of (Struct fs)"
proof -
  have "fields_end 0 fs \<le> size_of (Struct fs)" using align_pos(2) [OF assms] by (simp add: round_up_ge)
  with layout_within [OF assms, of 0] show ?thesis by fastforce
qed

text \<open>
  In each of these structures every field is aligned and inside
  the size, no two fields overlap and no byte is padding, so the size the code allocates is that
  of its fields.  The locks of \<open>shim_driverkit.h\<close> have the layout of Darwin's opaque types: a
  \<open>long\<close> and, from offset 8, 56 bytes for a mutex and 192 for a read/write lock.
\<close>

lemma declared_structs_layout:
  assumes "Struct fs \<in> set declared_structs"
  shows "(\<forall>(f, off, t) \<in> set (layout 0 fs). align_of t dvd off \<and> off + size_of t \<le> size_of (Struct fs)) \<and>
    sorted_wrt (\<lambda>(_, o1, t1) (_, o2, _). o1 + size_of t1 \<le> o2) (layout 0 fs) \<and>
    size_of (Struct fs) = (\<Sum>(_, t) \<leftarrow> fs. size_of t) \<and>
    (Struct fs = pthread_mutex_s \<longrightarrow>
      fst (snd (layout 0 fs ! 1)) = 8 \<and> size_of (Struct fs) = 8 + 56) \<and>
    (Struct fs = pthread_rwlock_s \<longrightarrow>
      fst (snd (layout 0 fs ! 1)) = 8 \<and> size_of (Struct fs) = 8 + 192)"
proof -
  from declared_structs_good [OF assms] have good: "good_fields fs"
    and pack: "size_of (Struct fs) = (\<Sum>(_, t) \<leftarrow> fs. size_of t)" by simp_all
  have "fst (snd (layout 0 fs ! 1)) = 8" if "Struct fs \<in> {pthread_mutex_s, pthread_rwlock_s}"
    using that by (auto simp: struct_defs round_up_def Let_def)
  with layout_sound [OF good] layout_disjoint [OF good, of 0] pack show ?thesis
    using struct_sizes(4,5) by simp
qed

lemma declared_structs_layout_witness:
  "\<exists>fs. pthread_rwlock_s = Struct fs \<and> Struct fs \<in> set declared_structs \<and>
     (''_reserved'', 64, Arr 34 c_uint32) \<in> set (layout 0 fs) \<and> size_of (Struct fs) = 200 \<and>
     (\<Sum>(_, t) \<leftarrow> fs. size_of t) = 200"
proof -
  obtain fs where fs: "pthread_rwlock_s = Struct fs" by (simp add: pthread_rwlock_s_def)
  have known: "Struct fs \<in> set declared_structs" by (simp add: declared_structs_def fs [symmetric])
  have "(''_reserved'', 64, Arr 34 c_uint32) \<in> set (layout 0 fs)"
    using fs by (auto simp: struct_defs round_up_def Let_def)
  moreover note claim = declared_structs_layout [OF known]
  have "size_of (Struct fs) = 200" by (simp only: fs [symmetric] struct_sizes)
  moreover from this have "(\<Sum>(_, t) \<leftarrow> fs. size_of t) = 200" using claim by simp
  ultimately show ?thesis using fs known by (intro exI [of _ fs]) simp
qed

end
