(* ===== verification/Sync.thy ===== *)
theory Sync
  imports CLayout
begin

text \<open>
  The spinlocks, mutexes and read/write locks of \<open>libc_driverkit.cpp\<close> (suffix \<open>_dk\<close>) and
  \<open>libc_kernel.cpp\<close> (suffix \<open>_k\<close>).  The primitives underneath are Apple's: the fields of the
  parameter \<open>lock_api\<close> act on an abstract state of the locks, \<open>None\<close> standing for a call that
  does not return.  The locale \<open>lock_semantics\<close> states their documented behaviour; it is
  interpreted on a concrete lock state.
\<close>

section \<open>Allocators\<close>

text \<open>
  The calls to the allocators of the two targets: those that allocate with the block returned,
  and the size asked for or given back where the function takes one.
\<close>

datatype lock_call =
    AllocBytes nat ptr     \<comment> \<open>\<open>IOMalloc\<close>, \<open>IOMallocZero\<close>\<close>
  | AllocSimpleLock ptr
  | AllocLock ptr
  | AllocRWLock ptr
  | FreeBytes ptr nat      \<comment> \<open>\<open>IOFree\<close>\<close>
  | FreeSimpleLock ptr
  | FreeLock ptr
  | FreeRWLock ptr

section \<open>Spinlocks, mutexes, read/write locks\<close>

record 's lock_api =
  spin_lock :: "'s \<Rightarrow> ptr \<Rightarrow> 's option"    \<comment> \<open>\<open>os_unfair_lock_lock\<close>, \<open>IOSimpleLockLock\<close>\<close>
  spin_unlock :: "'s \<Rightarrow> ptr \<Rightarrow> 's"
  mutex_lock :: "'s \<Rightarrow> ptr \<Rightarrow> 's option"   \<comment> \<open>\<open>IOLockLock\<close>\<close>
  mutex_try :: "'s \<Rightarrow> ptr \<Rightarrow> bool \<times> 's"    \<comment> \<open>\<open>IOLockTryLock\<close>: true when acquired\<close>
  mutex_unlock :: "'s \<Rightarrow> ptr \<Rightarrow> 's"
  rw_rdlock :: "'s \<Rightarrow> ptr \<Rightarrow> 's option"    \<comment> \<open>\<open>pthread_rwlock_rdlock\<close>, \<open>IORWLockRead\<close>\<close>
  rw_wrlock :: "'s \<Rightarrow> ptr \<Rightarrow> 's option"
  rw_tryrdlock :: "'s \<Rightarrow> ptr \<Rightarrow> int \<times> 's"  \<comment> \<open>0 when acquired\<close>
  rw_trywrlock :: "'s \<Rightarrow> ptr \<Rightarrow> int \<times> 's"
  rw_unlock :: "'s \<Rightarrow> ptr \<Rightarrow> 's"

subsection \<open>Allocation\<close>

text \<open>
  The block the allocator returns is an argument.  The result is the call to the allocator, the
  status and what was stored through the \<open>void**\<close> argument; \<open>os_alloc_rwlock\<close> returns the block.
\<close>

definition sizeof_os_unfair_lock :: nat where
  "sizeof_os_unfair_lock = size_of os_unfair_lock_s"

definition sizeof_pthread_rwlock_t :: nat where
  "sizeof_pthread_rwlock_t = size_of pthread_rwlock_s"

definition os_alloc_spinlock_dk :: "ptr \<Rightarrow> lock_call \<times> nv_status \<times> ptr option" where
  "os_alloc_spinlock_dk mall = (AllocBytes sizeof_os_unfair_lock mall, NV_OK, Some mall)"

definition os_alloc_spinlock_k :: "ptr \<Rightarrow> lock_call \<times> nv_status \<times> ptr option" where
  "os_alloc_spinlock_k spinlock =
     (AllocSimpleLock spinlock, if spinlock = NULL then NV_ERR_NO_MEMORY else NV_OK, Some spinlock)"

definition os_alloc_mutex_dk :: "ptr \<Rightarrow> lock_call \<times> nv_status \<times> ptr option" where
  "os_alloc_mutex_dk lock =
     (AllocLock lock, if lock = NULL then NV_ERR_NO_MEMORY else NV_OK, None)"

definition os_alloc_mutex_k :: "ptr \<Rightarrow> lock_call \<times> nv_status \<times> ptr option" where
  "os_alloc_mutex_k lock =
     (AllocLock lock, if lock = NULL then NV_ERR_NO_MEMORY else NV_OK, None)"

text \<open>\<open>pthread_rwlock_init\<close> writes to the block.\<close>

definition os_alloc_rwlock_dk :: "ptr \<Rightarrow> (lock_call \<times> ptr) outcome" where
  "os_alloc_rwlock_dk rwlock =
     (if rwlock = NULL then Fault NullDereference
      else Done (AllocBytes sizeof_pthread_rwlock_t rwlock, rwlock))"

definition os_alloc_rwlock_k :: "ptr \<Rightarrow> lock_call \<times> ptr" where
  "os_alloc_rwlock_k lock = (AllocRWLock lock, lock)"

definition os_free_spinlock_dk :: "ptr \<Rightarrow> lock_call" where
  "os_free_spinlock_dk p = FreeBytes p sizeof_os_unfair_lock"

definition os_free_spinlock_k :: "ptr \<Rightarrow> lock_call" where
  "os_free_spinlock_k p = FreeSimpleLock p"

definition os_free_mutex_dk :: "ptr \<Rightarrow> lock_call" where
  "os_free_mutex_dk p = FreeLock p"

definition os_free_mutex_k :: "ptr \<Rightarrow> lock_call" where
  "os_free_mutex_k p = FreeLock p"

definition os_free_rwlock_dk :: "ptr \<Rightarrow> lock_call" where
  "os_free_rwlock_dk p = FreeBytes p sizeof_pthread_rwlock_t"

definition os_free_rwlock_k :: "ptr \<Rightarrow> lock_call" where
  "os_free_rwlock_k p = FreeRWLock p"

subsection \<open>Spinlocks and mutexes\<close>

definition os_acquire_spinlock_dk :: "'s lock_api \<Rightarrow> 's \<Rightarrow> ptr \<Rightarrow> ('s \<times> u64) option" where
  "os_acquire_spinlock_dk A s p = map_option (\<lambda>s'. (s', 0)) (spin_lock A s p)"

definition os_release_spinlock_dk :: "'s lock_api \<Rightarrow> 's \<Rightarrow> ptr \<Rightarrow> u64 \<Rightarrow> 's" where
  "os_release_spinlock_dk A s p oldIrql = spin_unlock A s p"

definition os_acquire_spinlock_k :: "'s lock_api \<Rightarrow> 's \<Rightarrow> ptr \<Rightarrow> ('s \<times> u64) option" where
  "os_acquire_spinlock_k A s p = map_option (\<lambda>s'. (s', 0)) (spin_lock A s p)"

definition os_release_spinlock_k :: "'s lock_api \<Rightarrow> 's \<Rightarrow> ptr \<Rightarrow> u64 \<Rightarrow> 's" where
  "os_release_spinlock_k A s p oldIrql = spin_unlock A s p"

definition os_acquire_mutex_dk :: "'s lock_api \<Rightarrow> 's \<Rightarrow> ptr \<Rightarrow> ('s \<times> nv_status) option" where
  "os_acquire_mutex_dk A s p = map_option (\<lambda>s'. (s', NV_OK)) (mutex_lock A s p)"

definition os_cond_acquire_mutex_dk :: "'s lock_api \<Rightarrow> 's \<Rightarrow> ptr \<Rightarrow> 's \<times> nv_status" where
  "os_cond_acquire_mutex_dk A s p =
     (case mutex_try A s p of
        (result, s') \<Rightarrow> (s', if result = False then NV_OK else NV_ERR_TIMEOUT_RETRY))"

definition os_release_mutex_dk :: "'s lock_api \<Rightarrow> 's \<Rightarrow> ptr \<Rightarrow> 's" where
  "os_release_mutex_dk A s p = mutex_unlock A s p"

definition os_acquire_mutex_k :: "'s lock_api \<Rightarrow> 's \<Rightarrow> ptr \<Rightarrow> ('s \<times> nv_status) option" where
  "os_acquire_mutex_k A s p = map_option (\<lambda>s'. (s', NV_OK)) (mutex_lock A s p)"

definition os_cond_acquire_mutex_k :: "'s lock_api \<Rightarrow> 's \<Rightarrow> ptr \<Rightarrow> 's \<times> nv_status" where
  "os_cond_acquire_mutex_k A s p =
     (case mutex_try A s p of
        (result, s') \<Rightarrow> (s', if result = False then NV_OK else NV_ERR_TIMEOUT_RETRY))"

definition os_release_mutex_k :: "'s lock_api \<Rightarrow> 's \<Rightarrow> ptr \<Rightarrow> 's" where
  "os_release_mutex_k A s p = mutex_unlock A s p"

subsection \<open>Read/write locks\<close>

definition os_acquire_rwlock_read_dk ::
  "'s lock_api \<Rightarrow> 's \<Rightarrow> ptr \<Rightarrow> ('s \<times> nv_status) option" where
  "os_acquire_rwlock_read_dk A s p = map_option (\<lambda>s'. (s', NV_OK)) (rw_rdlock A s p)"

definition os_acquire_rwlock_write_dk ::
  "'s lock_api \<Rightarrow> 's \<Rightarrow> ptr \<Rightarrow> ('s \<times> nv_status) option" where
  "os_acquire_rwlock_write_dk A s p = map_option (\<lambda>s'. (s', NV_OK)) (rw_wrlock A s p)"

definition os_cond_acquire_rwlock_read_dk ::
  "'s lock_api \<Rightarrow> 's \<Rightarrow> ptr \<Rightarrow> 's \<times> nv_status" where
  "os_cond_acquire_rwlock_read_dk A s p =
     (case rw_tryrdlock A s p of
        (result, s') \<Rightarrow> (s', if result = 0 then NV_OK else NV_ERR_TIMEOUT_RETRY))"

definition os_cond_acquire_rwlock_write_dk ::
  "'s lock_api \<Rightarrow> 's \<Rightarrow> ptr \<Rightarrow> 's \<times> nv_status" where
  "os_cond_acquire_rwlock_write_dk A s p =
     (case rw_tryrdlock A s p of
        (result, s') \<Rightarrow> (s', if result = 0 then NV_OK else NV_ERR_TIMEOUT_RETRY))"

definition os_release_rwlock_read_dk :: "'s lock_api \<Rightarrow> 's \<Rightarrow> ptr \<Rightarrow> 's" where
  "os_release_rwlock_read_dk A s p = rw_unlock A s p"

definition os_release_rwlock_write_dk :: "'s lock_api \<Rightarrow> 's \<Rightarrow> ptr \<Rightarrow> 's" where
  "os_release_rwlock_write_dk A s p = rw_unlock A s p"

definition os_acquire_rwlock_read_k ::
  "'s lock_api \<Rightarrow> 's \<Rightarrow> ptr \<Rightarrow> ('s \<times> nv_status) option" where
  "os_acquire_rwlock_read_k A s p = map_option (\<lambda>s'. (s', NV_OK)) (rw_rdlock A s p)"

definition os_acquire_rwlock_write_k ::
  "'s lock_api \<Rightarrow> 's \<Rightarrow> ptr \<Rightarrow> ('s \<times> nv_status) option" where
  "os_acquire_rwlock_write_k A s p = map_option (\<lambda>s'. (s', NV_OK)) (rw_wrlock A s p)"

definition os_cond_acquire_rwlock_read_k ::
  "'s lock_api \<Rightarrow> 's \<Rightarrow> ptr \<Rightarrow> 's \<times> nv_status" where
  "os_cond_acquire_rwlock_read_k A s p = (case rw_tryrdlock A s p of (_, s') \<Rightarrow> (s', NV_OK))"

definition os_cond_acquire_rwlock_write_k ::
  "'s lock_api \<Rightarrow> 's \<Rightarrow> ptr \<Rightarrow> 's \<times> nv_status" where
  "os_cond_acquire_rwlock_write_k A s p = (case rw_trywrlock A s p of (_, s') \<Rightarrow> (s', NV_OK))"

definition os_release_rwlock_read_k :: "'s lock_api \<Rightarrow> 's \<Rightarrow> ptr \<Rightarrow> 's" where
  "os_release_rwlock_read_k A s p = rw_unlock A s p"

definition os_release_rwlock_write_k :: "'s lock_api \<Rightarrow> 's \<Rightarrow> ptr \<Rightarrow> 's" where
  "os_release_rwlock_write_k A s p = rw_unlock A s p"

lemmas rw_defs = os_acquire_rwlock_read_dk_def os_acquire_rwlock_write_dk_def
  os_cond_acquire_rwlock_read_dk_def os_cond_acquire_rwlock_write_dk_def
  os_release_rwlock_read_dk_def os_release_rwlock_write_dk_def
  os_acquire_rwlock_read_k_def os_acquire_rwlock_write_k_def
  os_cond_acquire_rwlock_read_k_def os_cond_acquire_rwlock_write_k_def
  os_release_rwlock_read_k_def os_release_rwlock_write_k_def

subsection \<open>The documented behaviour of the locks\<close>

text \<open>
  What a lock state records: which mutexes are held, how many readers and whether a writer
  holds a read/write lock.
\<close>

locale lock_semantics =
  fixes A :: "'s lock_api"
    and mutex_held :: "'s \<Rightarrow> ptr \<Rightarrow> bool"
    and readers :: "'s \<Rightarrow> ptr \<Rightarrow> nat"
    and writer :: "'s \<Rightarrow> ptr \<Rightarrow> bool"
  assumes mutex_try_free: "\<not> mutex_held s p \<Longrightarrow>
      \<exists>s'. mutex_try A s p = (True, s') \<and> mutex_held s' = (mutex_held s)(p := True)"
    and mutex_try_held: "mutex_held s p \<Longrightarrow> mutex_try A s p = (False, s)"
    and tryrd_free: "\<not> writer s p \<Longrightarrow>
      \<exists>s'. rw_tryrdlock A s p = (0, s') \<and> readers s' = (readers s)(p := readers s p + 1) \<and>
        writer s' = writer s"
    and tryrd_busy: "writer s p \<Longrightarrow> \<exists>e. e \<noteq> 0 \<and> rw_tryrdlock A s p = (e, s)"
    and trywr_busy: "writer s p \<or> 0 < readers s p \<Longrightarrow>
      \<exists>e. e \<noteq> 0 \<and> rw_trywrlock A s p = (e, s)"
    and trywr_free: "\<not> writer s p \<Longrightarrow> readers s p = 0 \<Longrightarrow>
      \<exists>s'. rw_trywrlock A s p = (0, s') \<and> readers s' = readers s \<and>
        writer s' = (writer s)(p := True)"
begin

lemma cond_mutex_held: "mutex_held s p \<Longrightarrow>
    os_cond_acquire_mutex_dk A s p = (s, NV_OK) \<and> os_cond_acquire_mutex_k A s p = (s, NV_OK)"
  by (simp add: os_cond_acquire_mutex_dk_def os_cond_acquire_mutex_k_def mutex_try_held)

lemma cond_mutex_free: "\<not> mutex_held s p \<Longrightarrow>
    \<exists>s'. os_cond_acquire_mutex_dk A s p = (s', NV_ERR_TIMEOUT_RETRY) \<and>
      os_cond_acquire_mutex_k A s p = (s', NV_ERR_TIMEOUT_RETRY) \<and>
      mutex_held s' = (mutex_held s)(p := True)"
  using mutex_try_free [of s p]
  by (auto simp: os_cond_acquire_mutex_dk_def os_cond_acquire_mutex_k_def)

lemma cond_read_free: "\<not> writer s p \<Longrightarrow>
    \<exists>s'. os_cond_acquire_rwlock_read_dk A s p = (s', NV_OK) \<and>
      readers s' = (readers s)(p := readers s p + 1) \<and> writer s' = writer s"
  using tryrd_free [of s p] by (auto simp: rw_defs)

lemma cond_read_busy: "writer s p \<Longrightarrow>
    os_cond_acquire_rwlock_read_dk A s p = (s, NV_ERR_TIMEOUT_RETRY)"
  using tryrd_busy [of s p] by (auto simp: rw_defs)

lemma cond_write_is_read:
  "os_cond_acquire_rwlock_write_dk A s p = os_cond_acquire_rwlock_read_dk A s p"
  by (simp add: rw_defs)

lemma cond_write_kernel_busy: "writer s p \<or> 0 < readers s p \<Longrightarrow>
    os_cond_acquire_rwlock_write_k A s p = (s, NV_OK)"
  using trywr_busy [of s p] by (auto simp: rw_defs)

lemma cond_read_kernel_busy: "writer s p \<Longrightarrow> os_cond_acquire_rwlock_read_k A s p = (s, NV_OK)"
  using tryrd_busy [of s p] by (auto simp: rw_defs)

end

text \<open>A concrete lock state: held mutexes, readers, writers.\<close>

record lock_state =
  ls_held :: "ptr \<Rightarrow> bool"
  ls_readers :: "ptr \<Rightarrow> nat"
  ls_writer :: "ptr \<Rightarrow> bool"

definition simple_locks :: "lock_state lock_api" where
  "simple_locks =
     \<lparr>spin_lock = (\<lambda>s p. if ls_held s p then None else Some (s\<lparr>ls_held := (ls_held s)(p := True)\<rparr>)),
      spin_unlock = (\<lambda>s p. s\<lparr>ls_held := (ls_held s)(p := False)\<rparr>),
      mutex_lock = (\<lambda>s p. if ls_held s p then None
                          else Some (s\<lparr>ls_held := (ls_held s)(p := True)\<rparr>)),
      mutex_try = (\<lambda>s p. if ls_held s p then (False, s)
                         else (True, s\<lparr>ls_held := (ls_held s)(p := True)\<rparr>)),
      mutex_unlock = (\<lambda>s p. s\<lparr>ls_held := (ls_held s)(p := False)\<rparr>),
      rw_rdlock = (\<lambda>s p. if ls_writer s p then None
                         else Some (s\<lparr>ls_readers := (ls_readers s)(p := ls_readers s p + 1)\<rparr>)),
      rw_wrlock = (\<lambda>s p. if ls_writer s p \<or> 0 < ls_readers s p then None
                         else Some (s\<lparr>ls_writer := (ls_writer s)(p := True)\<rparr>)),
      rw_tryrdlock = (\<lambda>s p. if ls_writer s p then (16, s)
                         else (0, s\<lparr>ls_readers := (ls_readers s)(p := ls_readers s p + 1)\<rparr>)),
      rw_trywrlock = (\<lambda>s p. if ls_writer s p \<or> 0 < ls_readers s p then (16, s)
                         else (0, s\<lparr>ls_writer := (ls_writer s)(p := True)\<rparr>)),
      rw_unlock = (\<lambda>s p. if ls_writer s p then s\<lparr>ls_writer := (ls_writer s)(p := False)\<rparr>
                         else s\<lparr>ls_readers := (ls_readers s)(p := ls_readers s p - 1)\<rparr>)\<rparr>"

interpretation simple_locks: lock_semantics simple_locks ls_held ls_readers ls_writer
  by unfold_locales (auto simp: simple_locks_def)

definition all_free :: lock_state where
  "all_free = \<lparr>ls_held = (\<lambda>_. False), ls_readers = (\<lambda>_. 0), ls_writer = (\<lambda>_. False)\<rparr>"

section \<open>Properties\<close>

text \<open>
  On both targets \<open>os_cond_acquire_mutex\<close> reports the opposite of what happened: it
  returns \<open>NV_OK\<close> exactly when the mutex was already held and so not acquired, and
  \<open>NV_ERR_TIMEOUT_RETRY\<close> exactly when the call has just acquired it.
\<close>

lemma cond_acquire_mutex_inverted:
  assumes "lock_semantics A mutex_held readers writer"
  shows "(snd (os_cond_acquire_mutex_dk A s p) = NV_OK \<longleftrightarrow> mutex_held s p) \<and>
    (snd (os_cond_acquire_mutex_dk A s p) = NV_ERR_TIMEOUT_RETRY \<longleftrightarrow>
       \<not> mutex_held s p \<and> mutex_held (fst (os_cond_acquire_mutex_dk A s p)) p) \<and>
    os_cond_acquire_mutex_k A s p = os_cond_acquire_mutex_dk A s p"
proof (cases "mutex_held s p")
  case True
  with lock_semantics.cond_mutex_held [OF assms] show ?thesis by simp
next
  case False
  from lock_semantics.cond_mutex_free [OF assms this] show ?thesis using False by auto
qed

lemma cond_acquire_mutex_inverted_witness:
  "snd (os_cond_acquire_mutex_dk simple_locks all_free 0x1000) \<noteq> NV_OK"
  using cond_acquire_mutex_inverted [OF simple_locks.lock_semantics_axioms,
      where s = all_free and p = "0x1000"]
  by (simp add: all_free_def)

text \<open>
  \<open>os_cond_acquire_rwlock_read\<close> of the DriverKit target is right: \<open>NV_OK\<close> and one more
  reader when no writer holds the lock, \<open>NV_ERR_TIMEOUT_RETRY\<close> and no change otherwise.
\<close>

lemma cond_acquire_read_correct:
  assumes "lock_semantics A mutex_held readers writer"
  shows "if writer s p then os_cond_acquire_rwlock_read_dk A s p = (s, NV_ERR_TIMEOUT_RETRY)
    else (\<exists>s'. os_cond_acquire_rwlock_read_dk A s p = (s', NV_OK) \<and>
           readers s' = (readers s)(p := readers s p + 1) \<and> writer s' = writer s)"
  using lock_semantics.cond_read_free [OF assms] lock_semantics.cond_read_busy [OF assms]
  by simp

lemma cond_acquire_read_correct_witness:
  "\<exists>s'. os_cond_acquire_rwlock_read_dk simple_locks all_free 0x1000 = (s', NV_OK) \<and>
     ls_readers s' 0x1000 = 1"
  using cond_acquire_read_correct [OF simple_locks.lock_semantics_axioms,
      where s = all_free and p = "0x1000"]
  by (auto simp: all_free_def)

text \<open>
  Neither target's \<open>os_cond_acquire_rwlock_write\<close> gives exclusive access.  On DriverKit
  two callers in a row both get \<open>NV_OK\<close> on a free lock and no writer is recorded; in the
  kernel the call returns \<open>NV_OK\<close> although readers or a writer kept it from the lock.
\<close>

lemma cond_acquire_write_not_exclusive:
  assumes "lock_semantics A mutex_held readers writer"
  shows "(\<not> writer s p \<longrightarrow>
      (\<exists>s' s''. os_cond_acquire_rwlock_write_dk A s p = (s', NV_OK) \<and>
        os_cond_acquire_rwlock_write_dk A s' p = (s'', NV_OK) \<and> \<not> writer s'' p)) \<and>
    (writer s p \<or> 0 < readers s p \<longrightarrow> os_cond_acquire_rwlock_write_k A s p = (s, NV_OK))"
proof (intro conjI impI)
  assume "writer s p \<or> 0 < readers s p"
  then show "os_cond_acquire_rwlock_write_k A s p = (s, NV_OK)"
    by (rule lock_semantics.cond_write_kernel_busy [OF assms])
next
  assume free: "\<not> writer s p"
  obtain s' where s': "os_cond_acquire_rwlock_read_dk A s p = (s', NV_OK)" "writer s' = writer s"
    using lock_semantics.cond_read_free [OF assms free] by blast
  with free obtain s'' where "os_cond_acquire_rwlock_read_dk A s' p = (s'', NV_OK)"
      "writer s'' = writer s'"
    using lock_semantics.cond_read_free [OF assms, of s' p] by auto
  with s' free show "\<exists>s' s''. os_cond_acquire_rwlock_write_dk A s p = (s', NV_OK) \<and>
      os_cond_acquire_rwlock_write_dk A s' p = (s'', NV_OK) \<and> \<not> writer s'' p"
    by (simp add: lock_semantics.cond_write_is_read [OF assms])
qed

lemma cond_acquire_write_not_exclusive_witness:
  "(\<exists>s' s''. os_cond_acquire_rwlock_write_dk simple_locks all_free 0x1000 = (s', NV_OK) \<and>
     os_cond_acquire_rwlock_write_dk simple_locks s' 0x1000 = (s'', NV_OK)) \<and>
   os_cond_acquire_rwlock_write_k simple_locks (all_free\<lparr>ls_writer := (\<lambda>_. True)\<rparr>) 0x1000 =
     (all_free\<lparr>ls_writer := (\<lambda>_. True)\<rparr>, NV_OK)"
  using cond_acquire_write_not_exclusive [OF simple_locks.lock_semantics_axioms,
      where s = all_free and p = "0x1000"]
    cond_acquire_write_not_exclusive [OF simple_locks.lock_semantics_axioms,
      where s = "all_free\<lparr>ls_writer := (\<lambda>_. True)\<rparr>" and p = "0x1000"]
  by (fastforce simp: all_free_def)

end
