(* ===== verification/NvState.thy ===== *)
theory NvState
  imports NvPrelude
begin

text \<open>
  The global state \<open>nv_darwin_state_s\<close> of \<open>nv_darwin.h\<close>, with the fields of NVIDIA's
  \<open>nv_state_t\<close> and \<open>nv_aperture_t\<close> that the sources read or write, and \<open>memory.cpp\<close>:
  the DMA mask and the entry points for page references and DMA mappings that refuse.
\<close>

section \<open>The device state\<close>

record nv_aperture =
  cpu_address :: u64
  aperture_size :: u64
  cfg_offset :: u32

record pci_info =
  vendor_id :: u16
  device_id :: u16
  domain_nr :: u32
  bus_nr :: u8
  slot_nr :: u8
  function_nr :: u8

text \<open>\<open>regs\<close> and \<open>fb\<close> are pointers to elements of \<open>bars\<close>: their indices.\<close>

record nv_state =
  pci_info_of :: pci_info
  subsystem_id :: u16
  subsystem_vendor :: u16
  os_state :: ptr
  nv_flags :: u32
  dma_dev :: ptr
  handle_of :: ptr
  bars :: "nv_aperture list"
  regs :: nat
  fb :: nat

record nv_darwin_state =
  nv_state_of :: nv_state
  service :: ptr
  device :: ptr
  dma_mask :: u64

section \<open>The global pointer\<close>

text \<open>
  \<open>nvd_state\<close>: \<open>None\<close> while it is \<open>NULL\<close>, otherwise the address of the state's block and
  what it holds.
\<close>

type_synonym nvd_pointer = "(ptr \<times> nv_darwin_state) option"

text \<open>The macro \<open>NV_STATE_PTR\<close> is the address of the first field: it reads nothing.\<close>

definition NV_STATE_PTR :: "nvd_pointer \<Rightarrow> ptr" where
  "NV_STATE_PTR nvd = (case nvd of None \<Rightarrow> NULL | Some (a, _) \<Rightarrow> a)"

definition NV_GLOBAL_DEVICE :: "nvd_pointer \<Rightarrow> ptr outcome" where
  "NV_GLOBAL_DEVICE nvd =
     (case nvd of None \<Rightarrow> Fault NullDereference | Some (_, st) \<Rightarrow> Done (device st))"

text \<open>\<open>NV_GLOBAL_DEVICE->method(...)\<close>: a method of the device, which must be there.\<close>

definition on_device :: "nvd_pointer \<Rightarrow> (ptr \<Rightarrow> 'a outcome) \<Rightarrow> 'a outcome" where
  "on_device nvd method =
     (case NV_GLOBAL_DEVICE nvd of Fault f \<Rightarrow> Fault f
      | Done dev \<Rightarrow> if dev = NULL then Fault NullDereference else method dev)"

definition device_present :: "nvd_pointer \<Rightarrow> bool" where
  "device_present nvd \<longleftrightarrow> (case nvd of None \<Rightarrow> False | Some (_, st) \<Rightarrow> device st \<noteq> NULL)"

lemma device_present_simps [simp]:
  "\<not> device_present None" "device_present (Some (a, st)) \<longleftrightarrow> device st \<noteq> NULL"
  by (simp_all add: device_present_def)

lemma on_device_present:
  "device st \<noteq> NULL \<Longrightarrow> on_device (Some (a, st)) method = method (device st)"
  by (simp add: on_device_def NV_GLOBAL_DEVICE_def)

lemma on_device_const:
  "on_device nvd (\<lambda>_. r) = (if device_present nvd then r else Fault NullDereference)"
  by (auto simp: on_device_def NV_GLOBAL_DEVICE_def split: option.splits)

lemma on_device_absent: "\<not> device_present nvd \<Longrightarrow> on_device nvd method = Fault NullDereference"
  by (auto simp: on_device_def NV_GLOBAL_DEVICE_def split: option.splits)

section \<open>The task\<close>

text \<open>
  The macro \<open>nvd_task\<close> of the two shims: a task by the call that names it.  In DriverKit it
  is the driver's own process, in the kernel whatever task is running.
\<close>

type_synonym task = u64

record task_calls =
  mach_task_self :: task
  current_task :: task

definition nvd_task_dk :: "task_calls \<Rightarrow> task" where
  "nvd_task_dk T = mach_task_self T"

definition nvd_task_k :: "task_calls \<Rightarrow> task" where
  "nvd_task_k T = current_task T"

section \<open>The DMA mask\<close>

text \<open>\<open>(uint64_t)1 << phys_addr_bits\<close>: a shift by 64 or more has no meaning in C++.\<close>

definition nv_set_dma_address_size :: "nvd_pointer \<Rightarrow> u32 \<Rightarrow> nvd_pointer outcome" where
  "nv_set_dma_address_size nvd phys_addr_bits =
     (if 64 \<le> unat phys_addr_bits then Fault ShiftOutOfRange
      else
        (case nvd of None \<Rightarrow> Fault NullDereference
         | Some (a, st) \<Rightarrow> Done (Some (a, st\<lparr>dma_mask := push_bit (unat phys_addr_bits) 1 - 1\<rparr>))))"

lemma dma_mask_bits:
  "nv_set_dma_address_size nvd b = Done nvd' \<Longrightarrow>
   \<exists>a st. nvd' = Some (a, st) \<and> dma_mask st = mask (unat b)"
  by (auto simp: nv_set_dma_address_size_def mask_eq_exp_minus_1 push_bit_eq_mult
      split: if_splits option.splits)

section \<open>Entry points without an implementation\<close>

text \<open>
  The functions of \<open>memory.cpp\<close> and \<open>nv_alias_pages\<close> that only refuse or do nothing: what
  they return (\<open>None\<close> for \<open>void\<close>).  They touch none of their pointer arguments.
\<close>

datatype dma_call =
    Os_get_page | Os_put_page
  | Nv_dma_map_alloc | Nv_dma_unmap_alloc
  | Nv_dma_map_peer | Nv_dma_unmap_peer
  | Nv_dma_map_mmio | Nv_dma_unmap_mmio
  | Nv_dma_cache_invalidate
  | Nv_dma_import_sgt | Nv_dma_import_dma_buf | Nv_dma_import_from_fd
  | Nv_dma_release_sgt | Nv_dma_release_dma_buf

fun dma_entry :: "dma_call \<Rightarrow> nv_status option" where
  "dma_entry Os_get_page = Some NV_ERR_NOT_SUPPORTED"
| "dma_entry Os_put_page = Some NV_ERR_NOT_SUPPORTED"
| "dma_entry Nv_dma_map_alloc = Some NV_ERR_NOT_SUPPORTED"
| "dma_entry Nv_dma_unmap_alloc = Some NV_ERR_NOT_SUPPORTED"
| "dma_entry Nv_dma_map_peer = Some NV_ERR_NOT_SUPPORTED"
| "dma_entry Nv_dma_unmap_peer = None"
| "dma_entry Nv_dma_map_mmio = Some NV_ERR_NOT_SUPPORTED"
| "dma_entry Nv_dma_unmap_mmio = None"
| "dma_entry Nv_dma_cache_invalidate = None"
| "dma_entry Nv_dma_import_sgt = Some NV_ERR_NOT_SUPPORTED"
| "dma_entry Nv_dma_import_dma_buf = Some NV_ERR_NOT_SUPPORTED"
| "dma_entry Nv_dma_import_from_fd = Some NV_ERR_NOT_SUPPORTED"
| "dma_entry Nv_dma_release_sgt = None"
| "dma_entry Nv_dma_release_dma_buf = None"

definition os_get_page_refcount :: "u64 \<Rightarrow> u32" where
  "os_get_page_refcount address = 0"

definition nv_requires_dma_remap :: bool where
  "nv_requires_dma_remap = False"

definition os_dma_buf_enabled :: bool where
  "os_dma_buf_enabled = False"

end
