(* ===== verification/Semaphores.thy ===== *)
theory Semaphores
  imports Sync NvState
begin

text \<open>
  The semaphores of \<open>libc.cpp\<close> over Mach's: the fields of the parameter \<open>mach_semaphores\<close> act
  on an abstract state of the semaphores, \<open>None\<close> standing for a wait that does not return.
  The locale \<open>counting_semaphores\<close> is what Mach documents of them, handles that name no
  semaphore included; it is interpreted on a table of counts.
\<close>

section \<open>The calls\<close>

record mach_timespec =
  tv_sec :: u32
  tv_nsec :: int

record 's mach_semaphores =
  semaphore_create :: "'s \<Rightarrow> task \<Rightarrow> int \<Rightarrow> int \<Rightarrow> u64 option \<times> 's"
    \<comment> \<open>task, policy, initial value; the handle, if a semaphore was made\<close>
  semaphore_wait :: "'s \<Rightarrow> u64 \<Rightarrow> 's option"
  semaphore_timedwait :: "'s \<Rightarrow> u64 \<Rightarrow> mach_timespec \<Rightarrow> int \<times> 's"  \<comment> \<open>DriverKit\<close>
  semaphore_wait_noblock :: "'s \<Rightarrow> u64 \<Rightarrow> int \<times> 's"               \<comment> \<open>kernel\<close>
  semaphore_signal :: "'s \<Rightarrow> u64 \<Rightarrow> 's"                           \<comment> \<open>never called\<close>
  semaphore_destroy :: "'s \<Rightarrow> task \<Rightarrow> u64 \<Rightarrow> 's"

definition KERN_OPERATION_TIMED_OUT :: int where
  "KERN_OPERATION_TIMED_OUT = 49"

text \<open>The cells \<open>os_alloc_semaphore\<close> allocates, each with the handle stored in it.\<close>

type_synonym cells = "ptr \<Rightarrow> u64 option"

definition sizeof_semaphore_t :: nat where
  "sizeof_semaphore_t = size_of semaphore_t"

text \<open>\<open>task\<close> is the value of \<open>nvd_task()\<close>; the policy 0 is \<open>SYNC_POLICY_FIFO\<close>.\<close>

definition os_alloc_semaphore ::
  "'s mach_semaphores \<Rightarrow> task \<Rightarrow> 's \<Rightarrow> cells \<Rightarrow> ptr \<Rightarrow> u32 \<Rightarrow>
    ('s \<times> cells \<times> lock_call \<times> ptr) outcome" where
  "os_alloc_semaphore M task s cells mall initialValue =
     (if mall = NULL then Fault NullDereference
      else (case semaphore_create M s task 0 (sint initialValue) of
              (h, s') \<Rightarrow>
                Done (s', cells(mall := h), AllocBytes sizeof_semaphore_t mall, mall)))"

text \<open>\<open>(semaphore_t)pSema\<close>: the address of the cell is used as the handle.\<close>

definition os_free_semaphore ::
  "'s mach_semaphores \<Rightarrow> task \<Rightarrow> 's \<Rightarrow> cells \<Rightarrow> ptr \<Rightarrow> 's \<times> cells \<times> lock_call" where
  "os_free_semaphore M task s cells pSema =
     (semaphore_destroy M s task pSema, cells(pSema := None), FreeBytes pSema sizeof_semaphore_t)"

definition os_semaphore_may_sleep :: bool where
  "os_semaphore_may_sleep = True"

definition os_acquire_semaphore ::
  "'s mach_semaphores \<Rightarrow> 's \<Rightarrow> ptr \<Rightarrow> ('s \<times> nv_status) option" where
  "os_acquire_semaphore M s pSema = map_option (\<lambda>s'. (s', NV_OK)) (semaphore_wait M s pSema)"

text \<open>The switch on the result, and the call each target makes.\<close>

definition semaphore_status :: "int \<Rightarrow> nv_status" where
  "semaphore_status result =
     (if result = KERN_OPERATION_TIMED_OUT then NV_ERR_TIMEOUT_RETRY
      else if result = KERN_SUCCESS then NV_OK
      else NV_ERR_GENERIC)"

definition instant_timeout :: mach_timespec where
  "instant_timeout = \<lparr>tv_sec = 0, tv_nsec = 0\<rparr>"

definition os_cond_acquire_semaphore_dk ::
  "'s mach_semaphores \<Rightarrow> 's \<Rightarrow> ptr \<Rightarrow> 's \<times> nv_status" where
  "os_cond_acquire_semaphore_dk M s pSema =
     (case semaphore_timedwait M s pSema instant_timeout of
        (result, s') \<Rightarrow> (s', semaphore_status result))"

definition os_cond_acquire_semaphore_k ::
  "'s mach_semaphores \<Rightarrow> 's \<Rightarrow> ptr \<Rightarrow> 's \<times> nv_status" where
  "os_cond_acquire_semaphore_k M s pSema =
     (case semaphore_wait_noblock M s pSema of
        (result, s') \<Rightarrow> (s', semaphore_status result))"

definition os_release_semaphore ::
  "'s mach_semaphores \<Rightarrow> 's \<Rightarrow> ptr \<Rightarrow> ('s \<times> nv_status) option" where
  "os_release_semaphore M s pSema = map_option (\<lambda>s'. (s', NV_OK)) (semaphore_wait M s pSema)"

section \<open>Mach's semaphores\<close>

lemma sint_nonneg: "0 \<le> sint w \<Longrightarrow> sint w = uint w" for w :: u32
  using sint_lt [of w] by (simp add: uint_sint take_bit_int_eq_self)

text \<open>
  Counting semaphores, while no other thread signals.  \<open>count s h\<close> is \<open>None\<close> when \<open>h\<close> names
  no semaphore: a wait on it returns an error at once.
\<close>

locale counting_semaphores =
  fixes M :: "'s mach_semaphores"
    and count :: "'s \<Rightarrow> u64 \<Rightarrow> nat option"
  assumes wait_zero: "count s h = Some 0 \<Longrightarrow> semaphore_wait M s h = None"
    and wait_takes: "count s h = Some (Suc n) \<Longrightarrow>
      \<exists>s'. semaphore_wait M s h = Some s' \<and> count s' = (count s)(h \<mapsto> n)"
    and wait_invalid: "count s h = None \<Longrightarrow>
      \<exists>s'. semaphore_wait M s h = Some s' \<and> count s' = count s"
    and try_zero: "count s h = Some 0 \<Longrightarrow>
      semaphore_timedwait M s h instant_timeout = (KERN_OPERATION_TIMED_OUT, s) \<and>
      semaphore_wait_noblock M s h = (KERN_OPERATION_TIMED_OUT, s)"
    and try_takes: "count s h = Some (Suc n) \<Longrightarrow>
      \<exists>s'. semaphore_timedwait M s h instant_timeout = (KERN_SUCCESS, s') \<and>
        semaphore_wait_noblock M s h = (KERN_SUCCESS, s') \<and> count s' = (count s)(h \<mapsto> n)"
    and try_invalid: "count s h = None \<Longrightarrow>
      \<exists>r. r \<notin> {KERN_SUCCESS, KERN_OPERATION_TIMED_OUT} \<and>
        semaphore_timedwait M s h instant_timeout = (r, s)"
    and create: "semaphore_create M s task policy v = (Some h, s') \<Longrightarrow>
      0 \<le> v \<and> count s h = None \<and> count s' = (count s)(h \<mapsto> nat v)"
    and destroy: "h' \<noteq> h \<or> count s h = None \<Longrightarrow>
      count (semaphore_destroy M s task h) h' = count s h'"
begin

text \<open>Acquiring and releasing are both a wait on the handle they are given.\<close>

lemma both_wait:
  "os_acquire_semaphore M s p = map_option (\<lambda>s'. (s', NV_OK)) (semaphore_wait M s p)"
  "os_release_semaphore M s p = map_option (\<lambda>s'. (s', NV_OK)) (semaphore_wait M s p)"
  by (simp_all add: os_acquire_semaphore_def os_release_semaphore_def)

lemma wait_cases:
  obtains (zero) "count s h = Some 0" "semaphore_wait M s h = None"
  | (takes) n s' where "count s h = Some (Suc n)" "semaphore_wait M s h = Some s'"
      "count s' = (count s)(h \<mapsto> n)"
  | (invalid) s' where "count s h = None" "semaphore_wait M s h = Some s'" "count s' = count s"
proof (cases "count s h")
  case None
  with wait_invalid invalid show ?thesis by blast
next
  case (Some n)
  show ?thesis
  proof (cases n)
    case 0
    with Some wait_zero zero show ?thesis by simp
  next
    case (Suc k)
    with Some wait_takes takes show ?thesis by blast
  qed
qed

text \<open>The conditional acquisition of either target, on every branch of its switch.\<close>

lemma cond_acquire_status:
  "\<exists>s' status. os_cond_acquire_semaphore_dk M s p = (s', status) \<and>
     (count s p \<noteq> None \<longrightarrow> os_cond_acquire_semaphore_k M s p = (s', status)) \<and>
     (case count s p of
        None \<Rightarrow> status = NV_ERR_GENERIC \<and> s' = s
      | Some 0 \<Rightarrow> status = NV_ERR_TIMEOUT_RETRY \<and> s' = s
      | Some (Suc n) \<Rightarrow> status = NV_OK \<and> count s' = (count s)(p \<mapsto> n))"
  using try_zero [of s p] try_takes [of s p] try_invalid [of s p]
  by (cases "count s p"; (cases "the (count s p)")?)
    (auto simp: os_cond_acquire_semaphore_dk_def os_cond_acquire_semaphore_k_def
      semaphore_status_def KERN_OPERATION_TIMED_OUT_def KERN_SUCCESS_def)

text \<open>
  Allocation makes a semaphore under a handle of Mach's, and returns the address of the cell
  that holds it.
\<close>

lemma alloc_semaphore_handle:
  assumes "os_alloc_semaphore M task s cells mall v = Done (s', cells', call, p)"
    and "cells' p = Some h"
  shows "p = mall" and "count s h = None" and "count s' = (count s)(h \<mapsto> unat v)"
proof -
  from assms obtain made: "semaphore_create M s task 0 (sint v) = (Some h, s')" and p: "p = mall"
    by (auto simp: os_alloc_semaphore_def split: if_splits prod.splits)
  show "p = mall" by (rule p)
  from create [OF made] have "0 \<le> sint v" and c: "count s h = None"
    "count s' = (count s)(h \<mapsto> nat (sint v))" by simp_all
  then have "nat (sint v) = unat v" by (simp add: sint_nonneg)
  with c show "count s h = None" and "count s' = (count s)(h \<mapsto> unat v)" by simp_all
qed

text \<open>So the free through that address leaves the semaphore.\<close>

lemma free_semaphore_leaves:
  assumes "count s p = None"
  shows "count (fst (os_free_semaphore M task s cells p)) = count s"
  using destroy [of _ p s task] assms by (auto simp: os_free_semaphore_def)

end

section \<open>A table of counts\<close>

text \<open>Handles are given out upwards from \<open>1\<close>, the first that names no semaphore.\<close>

definition fresh_handle :: "(u64 \<Rightarrow> nat option) \<Rightarrow> u64 option" where
  "fresh_handle s = find (\<lambda>h. s h = None) [1, 2, 3, 4]"

definition count_semaphores :: "(u64 \<Rightarrow> nat option) mach_semaphores" where
  "count_semaphores =
     \<lparr>semaphore_create = (\<lambda>s task policy v.
        (case fresh_handle s of
           None \<Rightarrow> (None, s)
         | Some h \<Rightarrow> if v < 0 then (None, s) else (Some h, s(h \<mapsto> nat v)))),
      semaphore_wait = (\<lambda>s h. case s h of None \<Rightarrow> Some s
        | Some 0 \<Rightarrow> None | Some (Suc n) \<Rightarrow> Some (s(h \<mapsto> n))),
      semaphore_timedwait = (\<lambda>s h t. case s h of None \<Rightarrow> (4, s)
        | Some 0 \<Rightarrow> (KERN_OPERATION_TIMED_OUT, s) | Some (Suc n) \<Rightarrow> (KERN_SUCCESS, s(h \<mapsto> n))),
      semaphore_wait_noblock = (\<lambda>s h. case s h of None \<Rightarrow> (4, s)
        | Some 0 \<Rightarrow> (KERN_OPERATION_TIMED_OUT, s) | Some (Suc n) \<Rightarrow> (KERN_SUCCESS, s(h \<mapsto> n))),
      semaphore_signal = (\<lambda>s h. s(h := map_option Suc (s h))),
      semaphore_destroy = (\<lambda>s task h. s(h := None))\<rparr>"

lemma fresh_handle_free: "fresh_handle s = Some h \<Longrightarrow> s h = None"
  by (simp add: fresh_handle_def split: if_splits)

interpretation count_semaphores: counting_semaphores count_semaphores "\<lambda>s. s"
  by unfold_locales (auto simp: count_semaphores_def KERN_SUCCESS_def KERN_OPERATION_TIMED_OUT_def
      fresh_handle_free split: option.splits if_splits)

end
