(* ===== verification/LockClients.thy ===== *)
theory LockClients
  imports Sync "HOL-Library.Multiset"
begin

text \<open>
  Threads that use one lock: the composition of the acquire and release functions of
  \<open>libc_driverkit.cpp\<close> and \<open>libc_kernel.cpp\<close> with the code that calls them.
  A thread runs a list of critical sections, each shared or exclusive; the threads interleave
  at the calls, and a call that blocks is a step that is not enabled.  The locale
  \<open>section_lock\<close> is the contract of such a lock; it is proved of every mutex, spinlock and
  read/write lock of both targets.
\<close>

section \<open>Threads and their steps\<close>

datatype section_mode = Shared | Exclusive

text \<open>The sections a thread still has to enter, and the one it is in.\<close>

datatype thread = Idle "section_mode list" | Within section_mode "section_mode list"

fun sections_left :: "thread \<Rightarrow> section_mode list" where
  "sections_left (Idle ms) = ms"
| "sections_left (Within m ms) = m # ms"

fun held_mode :: "thread \<Rightarrow> section_mode multiset" where
  "held_mode (Idle _) = {#}"
| "held_mode (Within m _) = {#m#}"

fun thread_work :: "thread \<Rightarrow> nat" where
  "thread_work (Idle ms) = 2 * length ms"
| "thread_work (Within _ ms) = Suc (2 * length ms)"

definition held_modes :: "thread list \<Rightarrow> section_mode multiset" where
  "held_modes ts = (\<Sum>t \<leftarrow> ts. held_mode t)"

definition work :: "thread list \<Rightarrow> nat" where
  "work ts = (\<Sum>t \<leftarrow> ts. thread_work t)"

inductive client_step ::
  "(section_mode \<Rightarrow> 's \<Rightarrow> 's option) \<Rightarrow> (section_mode \<Rightarrow> 's \<Rightarrow> 's option)
   \<Rightarrow> 's \<times> thread list \<Rightarrow> 's \<times> thread list \<Rightarrow> bool"
  for acq rel where
  enter: "i < length ts \<Longrightarrow> ts ! i = Idle (m # ms) \<Longrightarrow> acq m s = Some s' \<Longrightarrow>
    client_step acq rel (s, ts) (s', ts[i := Within m ms])"
| leave: "i < length ts \<Longrightarrow> ts ! i = Within m ms \<Longrightarrow> rel m s = Some s' \<Longrightarrow>
    client_step acq rel (s, ts) (s', ts[i := Idle ms])"

inductive_cases client_stepE: "client_step acq rel (s, ts) (s', ts')"

lemma sum_list_update_split:
  fixes f :: "'a \<Rightarrow> 'b :: comm_monoid_add"
  assumes "i < length ts"
  shows "(\<Sum>t \<leftarrow> ts[i := x]. f t) = f x + ((\<Sum>t \<leftarrow> take i ts. f t) + (\<Sum>t \<leftarrow> drop (Suc i) ts. f t))"
    and "(\<Sum>t \<leftarrow> ts. f t) = f (ts ! i) + ((\<Sum>t \<leftarrow> take i ts. f t) + (\<Sum>t \<leftarrow> drop (Suc i) ts. f t))"
proof -
  show "(\<Sum>t \<leftarrow> ts[i := x]. f t) = f x + ((\<Sum>t \<leftarrow> take i ts. f t) + (\<Sum>t \<leftarrow> drop (Suc i) ts. f t))"
    using assms by (simp add: upd_conv_take_nth_drop algebra_simps)
  have "(\<Sum>t \<leftarrow> ts. f t) = (\<Sum>t \<leftarrow> take i ts @ ts ! i # drop (Suc i) ts. f t)"
    using assms by (simp add: id_take_nth_drop [symmetric])
  then show "(\<Sum>t \<leftarrow> ts. f t) = f (ts ! i) + ((\<Sum>t \<leftarrow> take i ts. f t) + (\<Sum>t \<leftarrow> drop (Suc i) ts. f t))"
    by (simp add: algebra_simps)
qed

text \<open>Every step takes one unit of work, whatever the lock does.\<close>

lemma client_step_work:
  "client_step acq rel (s, ts) (s', ts') \<Longrightarrow> work ts = Suc (work ts')"
  by (erule client_stepE) (simp_all add: work_def sum_list_update_split(1)
      sum_list_update_split(2) [of _ ts thread_work])

lemma client_steps_work:
  "(client_step acq rel ^^ k) (s, ts) (s', ts') \<Longrightarrow> work ts = k + work ts'"
proof (induction k arbitrary: s' ts')
  case (Suc k)
  then obtain c where "(client_step acq rel ^^ k) (s, ts) c" "client_step acq rel c (s', ts')"
    by auto
  with Suc.IH [of "fst c" "snd c"] client_step_work [of acq rel "fst c" "snd c"] show ?case by simp
qed simp

lemma client_step_threads:
  "client_step acq rel (s, ts) (s', ts') \<Longrightarrow> length ts' = length ts"
  by (erule client_stepE) simp_all

text \<open>A thread only ever enters sections of its list.\<close>

definition only_modes :: "section_mode set \<Rightarrow> thread list \<Rightarrow> bool" where
  "only_modes M ts \<longleftrightarrow> (\<forall>t \<in> set ts. set (sections_left t) \<subseteq> M)"

lemma only_modes_nth: "only_modes M ts \<Longrightarrow> i < length ts \<Longrightarrow> set (sections_left (ts ! i)) \<subseteq> M"
  by (simp add: only_modes_def)

lemma only_modes_update:
  "only_modes M ts \<Longrightarrow> set (sections_left t) \<subseteq> M \<Longrightarrow> only_modes M (ts[i := t])"
  unfolding only_modes_def by (auto dest!: subsetD [OF set_update_subset_insert])

lemma client_step_modes:
  "client_step acq rel (s, ts) (s', ts') \<Longrightarrow> only_modes M ts \<Longrightarrow> only_modes M ts'"
  by (erule client_stepE) (force intro!: only_modes_update dest: only_modes_nth)+

text \<open>Where there is work left, some thread has a step to make.\<close>

lemma work_zero_iff: "work ts = 0 \<longleftrightarrow> (\<forall>t \<in> set ts. t = Idle [])"
proof -
  have "thread_work t = 0 \<longleftrightarrow> t = Idle []" for t by (cases t) auto
  then show ?thesis by (simp add: work_def)
qed

section \<open>The contract of a lock\<close>

text \<open>
  \<open>holds s\<close> are the modes in which the lock is held.  A call in a mode that is admissible
  beside these returns holding the lock, any other call blocks; releasing gives back one
  holder's mode.
\<close>

locale section_lock =
  fixes acq rel :: "section_mode \<Rightarrow> 's \<Rightarrow> 's option"
    and holds :: "'s \<Rightarrow> section_mode multiset"
    and modes :: "section_mode set"
  assumes acq_free: "m \<in> modes \<Longrightarrow>
      (if m = Exclusive then holds s = {#} else Exclusive \<notin># holds s) \<Longrightarrow>
      \<exists>s'. acq m s = Some s' \<and> holds s' = add_mset m (holds s)"
    and acq_busy: "m \<in> modes \<Longrightarrow>
      \<not> (if m = Exclusive then holds s = {#} else Exclusive \<notin># holds s) \<Longrightarrow> acq m s = None"
    and rel_held: "m \<in> modes \<Longrightarrow> m \<in># holds s \<Longrightarrow> (Exclusive \<in># holds s \<longrightarrow> size (holds s) = 1) \<Longrightarrow>
      \<exists>s'. rel m s = Some s' \<and> holds s' = holds s - {#m#}"
begin

abbreviation step where "step \<equiv> client_step acq rel"

text \<open>The lock is held exactly by the threads inside, an exclusive one alone.\<close>

definition sections_inv :: "'s \<times> thread list \<Rightarrow> bool" where
  "sections_inv c \<longleftrightarrow> (case c of (s, ts) \<Rightarrow>
     holds s = held_modes ts \<and> only_modes modes ts \<and>
     (Exclusive \<in># holds s \<longrightarrow> size (holds s) = 1))"

lemma sections_invD:
  assumes "sections_inv (s, ts)"
  shows "holds s = held_modes ts" and "only_modes modes ts"
    and "Exclusive \<in># holds s \<longrightarrow> size (holds s) = 1"
  using assms unfolding sections_inv_def prod.case by blast+

lemma held_in: "i < length ts \<Longrightarrow> ts ! i = Within m ms \<Longrightarrow> m \<in># held_modes ts"
  by (simp add: held_modes_def sum_list_update_split(2) [of i ts held_mode])

lemma held_modes_update:
  assumes "i < length ts"
  shows "ts ! i = Idle ns \<Longrightarrow> held_modes (ts[i := Within m ms]) = add_mset m (held_modes ts)"
    and "ts ! i = Within m ns \<Longrightarrow> held_modes (ts[i := Idle ms]) = held_modes ts - {#m#}"
  using assms by (simp_all add: held_modes_def sum_list_update_split(1)
      sum_list_update_split(2) [of i ts held_mode])

lemma step_inv:
  assumes "sections_inv c" and "step c c'"
  shows "sections_inv c'"
proof -
  obtain s ts s' ts' where c: "c = (s, ts)" "c' = (s', ts')" by (metis surj_pair)
  note inv = sections_invD [OF assms(1) [unfolded c]]
  from assms(2) c have st: "step (s, ts) (s', ts')" by simp
  note modes' = client_step_modes [OF st inv(2)]
  from st show ?thesis
  proof (rule client_stepE)
    fix i m ms
    assume i: "i < length ts" "ts ! i = Idle (m # ms)" "acq m s = Some s'"
      and ts': "ts' = ts[i := Within m ms]"
    from only_modes_nth [OF inv(2) i(1)] i(2) have m: "m \<in> modes" by simp
    with acq_busy [OF m, of s] i(3)
    have free: "if m = Exclusive then holds s = {#} else Exclusive \<notin># holds s" by fastforce
    from acq_free [OF m free] i(3) have h: "holds s' = add_mset m (holds s)" by simp
    with free have "Exclusive \<in># holds s' \<longrightarrow> size (holds s') = 1"
      by (cases "m = Exclusive") auto
    with h inv(1) modes' held_modes_update(1) [OF i(1,2)] ts' show ?thesis
      by (simp add: sections_inv_def c)
  next
    fix i m ms
    assume i: "i < length ts" "ts ! i = Within m ms" "rel m s = Some s'"
      and ts': "ts' = ts[i := Idle ms]"
    from only_modes_nth [OF inv(2) i(1)] i(2) have m: "m \<in> modes" by simp
    from held_in [OF i(1,2)] inv(1) have "m \<in># holds s" by simp
    from rel_held [OF m this inv(3)] i(3) have h: "holds s' = holds s - {#m#}" by simp
    have "Exclusive \<in># holds s' \<longrightarrow> size (holds s') = 1"
    proof
      assume "Exclusive \<in># holds s'"
      then have "Exclusive \<in># holds s" using h by (metis in_diffD)
      with inv(3) have "size (holds s) = 1" by simp
      with \<open>m \<in># holds s\<close> h have "size (holds s') = 0" by (simp add: size_Diff_singleton)
      then have "holds s' = {#}" by simp
      with \<open>Exclusive \<in># holds s'\<close> show "size (holds s') = 1" by simp
    qed
    with h inv(1) modes' held_modes_update(2) [OF i(1,2)] ts' show ?thesis
      by (simp add: sections_inv_def c)
  qed
qed

lemma steps_inv:
  "sections_inv c \<Longrightarrow> (step ^^ k) c c' \<Longrightarrow> sections_inv c'"
proof (induction k arbitrary: c')
  case (Suc k)
  then show ?case by (auto intro: step_inv)
qed simp

text \<open>Deadlock freedom: with the invariant, work left means a step to make.\<close>

lemma step_exists:
  assumes "sections_inv (s, ts)" and "work ts \<noteq> 0"
  shows "\<exists>c. step (s, ts) c"
proof -
  note inv = sections_invD [OF assms(1)]
  show ?thesis
  proof (cases "\<exists>i m ms. i < length ts \<and> ts ! i = Within m ms")
    case True
    then obtain i m ms where i: "i < length ts" "ts ! i = Within m ms" by blast
    from only_modes_nth [OF inv(2) i(1)] i(2) have m: "m \<in> modes" by simp
    from held_in [OF i] inv(1) have "m \<in># holds s" by simp
    from rel_held [OF m this inv(3)] obtain s' where "rel m s = Some s'" by blast
    from client_step.leave [OF i, of rel s s' acq] this show ?thesis by blast
  next
    case False
    then have idle: "\<forall>t \<in> set ts. \<exists>ms. t = Idle ms" by (metis in_set_conv_nth thread.exhaust)
    then have "\<forall>t \<in> set ts. held_mode t = {#}" by auto
    then have "held_modes ts = {#}" unfolding held_modes_def by (induction ts) auto
    with inv(1) have none: "holds s = {#}" by simp
    from assms(2) obtain t where "t \<in> set ts" "t \<noteq> Idle []" by (auto simp: work_zero_iff)
    with idle obtain i m ms where i: "i < length ts" "ts ! i = Idle (m # ms)"
      by (metis in_set_conv_nth neq_Nil_conv)
    from only_modes_nth [OF inv(2) i(1)] i(2) have m: "m \<in> modes" by simp
    from none have "if m = Exclusive then holds s = {#} else Exclusive \<notin># holds s" by simp
    from acq_free [OF m this] obtain s' where "acq m s = Some s'" by blast
    from client_step.enter [OF i, of acq s s' rel] this show ?thesis by blast
  qed
qed

lemma runs_finish:
  "sections_inv (s, ts) \<Longrightarrow> \<exists>s' ts'. (step ^^ work ts) (s, ts) (s', ts') \<and> work ts' = 0"
proof (induction "work ts" arbitrary: s ts)
  case 0
  then show ?case by (intro exI [of _ s] exI [of _ ts]) simp
next
  case (Suc n)
  then obtain s1 ts1 where st: "step (s, ts) (s1, ts1)"
    using step_exists [OF Suc.prems] by (metis nat.discI surj_pair)
  with Suc.hyps(2) have n: "work ts1 = n" using client_step_work [OF st] by simp
  from Suc.hyps(1) [OF n [symmetric] step_inv [OF Suc.prems st]] st n Suc.hyps(2)
  show ?case by (metis relpowp_Suc_I2)
qed

lemma initial_inv:
  assumes "holds s = {#}" and "\<forall>t \<in> set ts. \<exists>ms. t = Idle ms" and "only_modes modes ts"
  shows "sections_inv (s, ts)"
proof -
  from assms(2) have "\<forall>t \<in> set ts. held_mode t = {#}" by auto
  then have "held_modes ts = {#}" unfolding held_modes_def by (induction ts) auto
  with assms show ?thesis by (simp add: sections_inv_def)
qed

text \<open>Two threads inside at once are both there to share.\<close>

lemma inside_together:
  assumes "sections_inv (s, ts)" and "i < length ts" and "j < length ts" and "i \<noteq> j"
    and "ts ! i = Within m ms" and "ts ! j = Within n ns"
  shows "m = Shared \<and> n = Shared \<and> Shared \<in> modes"
proof -
  have "held_modes ts = add_mset m (held_modes (ts[i := Idle []]))"
    using assms by (simp add: held_modes_def sum_list_update_split(1)
        sum_list_update_split(2) [of i ts held_mode])
  moreover have "n \<in># held_modes (ts[i := Idle []])"
    using assms by (intro held_in [of j _ _ ns]) simp_all
  ultimately obtain h where h: "held_modes ts = add_mset m (add_mset n h)"
    by (metis insert_DiffM)
  note inv = sections_invD [OF assms(1)]
  from inv(1,3) h have "m \<noteq> Exclusive \<and> n \<noteq> Exclusive" by auto
  then have "m = Shared \<and> n = Shared" by (metis section_mode.exhaust)
  moreover from only_modes_nth [OF inv(2) assms(2)] assms(5) have "m \<in> modes" by simp
  ultimately show ?thesis by simp
qed

end

text \<open>Two ways to have the contract: one holder at a time, or readers beside each other.\<close>

lemma exclusive_section_lock:
  assumes free: "\<And>s. \<not> held s \<Longrightarrow> \<exists>s'. acq Exclusive s = Some s' \<and> held s'"
    and busy: "\<And>s. held s \<Longrightarrow> acq Exclusive s = None"
    and rel: "\<And>s. held s \<Longrightarrow> \<exists>s'. rel Exclusive s = Some s' \<and> \<not> held s'"
  shows "section_lock acq rel (\<lambda>s. if held s then {#Exclusive#} else {#}) {Exclusive}"
proof
  fix m s
  assume m: "m \<in> {Exclusive}"
  let ?free = "if m = Exclusive then (if held s then {#Exclusive#} else {#}) = {#}
      else Exclusive \<notin># (if held s then {#Exclusive#} else {#})"
  show "\<exists>s'. acq m s = Some s' \<and> (if held s' then {#Exclusive#} else {#}) =
      add_mset m (if held s then {#Exclusive#} else {#})" if ?free
    using m that free [of s] by (auto split: if_splits)
  show "acq m s = None" if "\<not> ?free"
    using m that busy [of s] by (auto split: if_splits)
  show "\<exists>s'. rel m s = Some s' \<and> (if held s' then {#Exclusive#} else {#}) =
      (if held s then {#Exclusive#} else {#}) - {#m#}"
    if "m \<in># (if held s then {#Exclusive#} else {#})"
    using m that rel [of s] by (auto split: if_splits)
qed

lemma rw_section_lock:
  assumes shared: "\<And>s. \<not> wr s \<Longrightarrow>
      \<exists>s'. acq Shared s = Some s' \<and> rd s' = Suc (rd s) \<and> \<not> wr s'"
    and shared_busy: "\<And>s. wr s \<Longrightarrow> acq Shared s = None"
    and excl: "\<And>s. \<not> wr s \<Longrightarrow> rd s = 0 \<Longrightarrow> \<exists>s'. acq Exclusive s = Some s' \<and> rd s' = 0 \<and> wr s'"
    and excl_busy: "\<And>s. wr s \<or> 0 < rd s \<Longrightarrow> acq Exclusive s = None"
    and rel_excl: "\<And>s. wr s \<Longrightarrow> rd s = 0 \<Longrightarrow>
      \<exists>s'. rel Exclusive s = Some s' \<and> rd s' = 0 \<and> \<not> wr s'"
    and rel_shared: "\<And>s. \<not> wr s \<Longrightarrow> 0 < rd s \<Longrightarrow>
      \<exists>s'. rel Shared s = Some s' \<and> rd s' = rd s - 1 \<and> \<not> wr s'"
  shows "section_lock acq rel
    (\<lambda>s. replicate_mset (rd s) Shared + (if wr s then {#Exclusive#} else {#})) UNIV"
proof
  fix m s
  let ?h = "\<lambda>s. replicate_mset (rd s) Shared + (if wr s then {#Exclusive#} else {#})"
  let ?free = "if m = Exclusive then ?h s = {#} else Exclusive \<notin># ?h s"
  have excl_in: "Exclusive \<in># ?h s \<longleftrightarrow> wr s" and shared_in: "Shared \<in># ?h s \<longleftrightarrow> 0 < rd s"
    and none: "?h s = {#} \<longleftrightarrow> \<not> wr s \<and> rd s = 0" by (cases "rd s"; simp)+
  show "\<exists>s'. acq m s = Some s' \<and> ?h s' = add_mset m (?h s)" if ?free
  proof (cases m)
    case Shared
    with that have "Exclusive \<notin># ?h s" by (simp only: section_mode.distinct if_False simp_thms)
    then have "\<not> wr s" by (simp only: excl_in simp_thms)
    with shared [OF this] obtain s' where "acq Shared s = Some s'" "rd s' = Suc (rd s)" "\<not> wr s'"
      by blast
    with Shared \<open>\<not> wr s\<close> show ?thesis by (intro exI [of _ s']) simp
  next
    case Exclusive
    with that have "?h s = {#}" by (simp only: if_True simp_thms)
    then have "\<not> wr s" "rd s = 0" by (simp_all only: none simp_thms)
    with excl [OF this] obtain s' where "acq Exclusive s = Some s'" "rd s' = 0" "wr s'" by blast
    with Exclusive \<open>\<not> wr s\<close> \<open>rd s = 0\<close> show ?thesis by (intro exI [of _ s']) simp
  qed
  show "acq m s = None" if "\<not> ?free"
    using that shared_busy [of s] excl_busy [of s]
    by (cases m) (simp_all only: none excl_in section_mode.distinct if_False if_True simp_thms
        neq0_conv de_Morgan_conj)
  show "\<exists>s'. rel m s = Some s' \<and> ?h s' = ?h s - {#m#}"
    if "m \<in># ?h s" and "Exclusive \<in># ?h s \<longrightarrow> size (?h s) = 1"
  proof (cases m)
    case Shared
    have "\<not> wr s"
    proof
      assume "wr s"
      with that(2) have "rd s = 0" by simp
      moreover from that(1) Shared have "0 < rd s" by (simp only: shared_in)
      ultimately show False by simp
    qed
    moreover from that(1) Shared have "0 < rd s" by (simp only: shared_in)
    ultimately obtain s' where s': "rel Shared s = Some s'" "rd s' = rd s - 1" "\<not> wr s'"
      using rel_shared by blast
    from \<open>0 < rd s\<close> obtain n where "rd s = Suc n" by (cases "rd s") auto
    with Shared \<open>\<not> wr s\<close> s' show ?thesis by (intro exI [of _ s']) simp
  next
    case Exclusive
    with that(1) have "wr s" by (simp only: excl_in)
    moreover have "rd s = 0" using that(2) \<open>wr s\<close> by simp
    ultimately have "wr s" "rd s = 0" .
    with rel_excl [OF this] obtain s' where "rel Exclusive s = Some s'" "rd s' = 0" "\<not> wr s'"
      by blast
    with Exclusive \<open>wr s\<close> \<open>rd s = 0\<close> show ?thesis by (intro exI [of _ s']) simp
  qed
qed

section \<open>The locks of the two targets\<close>

text \<open>
  The calls a client makes, by the kind of lock and target; the status is dropped (it is
  \<open>NV_OK\<close> whenever the call returns).  A spinlock or mutex has only one way to be held.
\<close>

datatype lock_kind = SpinlockDk | SpinlockK | MutexDk | MutexK | RwlockDk | RwlockK

fun lock_modes :: "lock_kind \<Rightarrow> section_mode set" where
  "lock_modes RwlockDk = UNIV"
| "lock_modes RwlockK = UNIV"
| "lock_modes _ = {Exclusive}"

fun lock_acquire :: "'s lock_api \<Rightarrow> lock_kind \<Rightarrow> ptr \<Rightarrow> section_mode \<Rightarrow> 's \<Rightarrow> 's option" where
  "lock_acquire A SpinlockDk p m s = map_option fst (os_acquire_spinlock_dk A s p)"
| "lock_acquire A SpinlockK p m s = map_option fst (os_acquire_spinlock_k A s p)"
| "lock_acquire A MutexDk p m s = map_option fst (os_acquire_mutex_dk A s p)"
| "lock_acquire A MutexK p m s = map_option fst (os_acquire_mutex_k A s p)"
| "lock_acquire A RwlockDk p Shared s = map_option fst (os_acquire_rwlock_read_dk A s p)"
| "lock_acquire A RwlockDk p Exclusive s = map_option fst (os_acquire_rwlock_write_dk A s p)"
| "lock_acquire A RwlockK p Shared s = map_option fst (os_acquire_rwlock_read_k A s p)"
| "lock_acquire A RwlockK p Exclusive s = map_option fst (os_acquire_rwlock_write_k A s p)"

fun lock_release :: "'s lock_api \<Rightarrow> lock_kind \<Rightarrow> ptr \<Rightarrow> section_mode \<Rightarrow> 's \<Rightarrow> 's option" where
  "lock_release A SpinlockDk p m s = Some (os_release_spinlock_dk A s p 0)"
| "lock_release A SpinlockK p m s = Some (os_release_spinlock_k A s p 0)"
| "lock_release A MutexDk p m s = Some (os_release_mutex_dk A s p)"
| "lock_release A MutexK p m s = Some (os_release_mutex_k A s p)"
| "lock_release A RwlockDk p Shared s = Some (os_release_rwlock_read_dk A s p)"
| "lock_release A RwlockDk p Exclusive s = Some (os_release_rwlock_write_dk A s p)"
| "lock_release A RwlockK p Shared s = Some (os_release_rwlock_read_k A s p)"
| "lock_release A RwlockK p Exclusive s = Some (os_release_rwlock_write_k A s p)"

text \<open>
  The documented behaviour of the calls that block, beside that of the conditional ones: a
  lock that is free is taken, one that is held in the way blocks, and releasing a held lock
  frees it.
\<close>

locale blocking_locks = lock_semantics A mutex_held readers writer
  for A :: "'s lock_api" and mutex_held readers writer +
  fixes spin_held :: "'s \<Rightarrow> ptr \<Rightarrow> bool"
  assumes spin_lock_free: "\<not> spin_held s p \<Longrightarrow>
      \<exists>s'. spin_lock A s p = Some s' \<and> spin_held s' p"
    and spin_lock_held: "spin_held s p \<Longrightarrow> spin_lock A s p = None"
    and spin_unlock_held: "spin_held s p \<Longrightarrow> \<not> spin_held (spin_unlock A s p) p"
    and mutex_lock_free: "\<not> mutex_held s p \<Longrightarrow>
      \<exists>s'. mutex_lock A s p = Some s' \<and> mutex_held s' p"
    and mutex_lock_held: "mutex_held s p \<Longrightarrow> mutex_lock A s p = None"
    and mutex_unlock_held: "mutex_held s p \<Longrightarrow> \<not> mutex_held (mutex_unlock A s p) p"
    and rdlock_free: "\<not> writer s p \<Longrightarrow>
      \<exists>s'. rw_rdlock A s p = Some s' \<and> readers s' p = Suc (readers s p) \<and> \<not> writer s' p"
    and rdlock_busy: "writer s p \<Longrightarrow> rw_rdlock A s p = None"
    and wrlock_free: "\<not> writer s p \<Longrightarrow> readers s p = 0 \<Longrightarrow>
      \<exists>s'. rw_wrlock A s p = Some s' \<and> readers s' p = 0 \<and> writer s' p"
    and wrlock_busy: "writer s p \<or> 0 < readers s p \<Longrightarrow> rw_wrlock A s p = None"
    and unlock_writer: "writer s p \<Longrightarrow> readers s p = 0 \<Longrightarrow>
      readers (rw_unlock A s p) p = 0 \<and> \<not> writer (rw_unlock A s p) p"
    and unlock_reader: "\<not> writer s p \<Longrightarrow> 0 < readers s p \<Longrightarrow>
      readers (rw_unlock A s p) p = readers s p - 1 \<and> \<not> writer (rw_unlock A s p) p"
begin

text \<open>The modes in which the lock at \<open>p\<close> is held.\<close>

fun lock_holds :: "lock_kind \<Rightarrow> ptr \<Rightarrow> 's \<Rightarrow> section_mode multiset" where
  "lock_holds SpinlockDk p s = (if spin_held s p then {#Exclusive#} else {#})"
| "lock_holds SpinlockK p s = (if spin_held s p then {#Exclusive#} else {#})"
| "lock_holds MutexDk p s = (if mutex_held s p then {#Exclusive#} else {#})"
| "lock_holds MutexK p s = (if mutex_held s p then {#Exclusive#} else {#})"
| "lock_holds RwlockDk p s =
     replicate_mset (readers s p) Shared + (if writer s p then {#Exclusive#} else {#})"
| "lock_holds RwlockK p s =
     replicate_mset (readers s p) Shared + (if writer s p then {#Exclusive#} else {#})"

lemmas lock_call_defs = os_acquire_spinlock_dk_def os_acquire_spinlock_k_def
  os_release_spinlock_dk_def os_release_spinlock_k_def os_acquire_mutex_dk_def
  os_acquire_mutex_k_def os_release_mutex_dk_def os_release_mutex_k_def rw_defs

lemma lock_section:
  "section_lock (lock_acquire A kind p) (lock_release A kind p) (lock_holds kind p) (lock_modes kind)"
proof (cases kind)
  case SpinlockDk
  show ?thesis unfolding SpinlockDk lock_modes.simps lock_holds.simps
    using spin_lock_free [of _ p] spin_lock_held [of _ p] spin_unlock_held [of _ p]
    by (intro exclusive_section_lock) (auto simp: lock_call_defs)
next
  case SpinlockK
  show ?thesis unfolding SpinlockK lock_modes.simps lock_holds.simps
    using spin_lock_free [of _ p] spin_lock_held [of _ p] spin_unlock_held [of _ p]
    by (intro exclusive_section_lock) (auto simp: lock_call_defs)
next
  case MutexDk
  show ?thesis unfolding MutexDk lock_modes.simps lock_holds.simps
    using mutex_lock_free [of _ p] mutex_lock_held [of _ p] mutex_unlock_held [of _ p]
    by (intro exclusive_section_lock) (auto simp: lock_call_defs)
next
  case MutexK
  show ?thesis unfolding MutexK lock_modes.simps lock_holds.simps
    using mutex_lock_free [of _ p] mutex_lock_held [of _ p] mutex_unlock_held [of _ p]
    by (intro exclusive_section_lock) (auto simp: lock_call_defs)
next
  case RwlockDk
  show ?thesis unfolding RwlockDk lock_modes.simps lock_holds.simps
    using rdlock_free [of _ p] wrlock_free [of _ p]
    by (intro rw_section_lock)
      (auto simp: lock_call_defs rdlock_busy wrlock_busy unlock_writer unlock_reader)
next
  case RwlockK
  show ?thesis unfolding RwlockK lock_modes.simps lock_holds.simps
    using rdlock_free [of _ p] wrlock_free [of _ p]
    by (intro rw_section_lock)
      (auto simp: lock_call_defs rdlock_busy wrlock_busy unlock_writer unlock_reader)
qed

end

interpretation simple_blocking: blocking_locks simple_locks ls_held ls_readers ls_writer ls_held
  by unfold_locales (auto simp: simple_locks_def)

section \<open>Properties\<close>

text \<open>
  C19. Exclusion: however the threads that use a spinlock, mutex or read/write lock of either
  target interleave, two of them are never inside their sections together unless both are
  readers of a read/write lock.
\<close>

theorem lock_clients_exclude:
  assumes "blocking_locks A mutex_held readers writer spin_held"
    and "blocking_locks.lock_holds mutex_held readers writer spin_held kind p s = {#}"
    and "\<forall>t \<in> set ts. \<exists>ms. t = Idle ms" and "only_modes (lock_modes kind) ts"
    and "(client_step (lock_acquire A kind p) (lock_release A kind p) ^^ k) (s, ts) (s', ts')"
    and "i < length ts'" and "j < length ts'" and "i \<noteq> j"
    and "ts' ! i = Within m ms" and "ts' ! j = Within n ns"
  shows "kind \<in> {RwlockDk, RwlockK} \<and> m = Shared \<and> n = Shared"
proof -
  note lock = blocking_locks.lock_section [OF assms(1)]
  have "section_lock.sections_inv
      (blocking_locks.lock_holds mutex_held readers writer spin_held kind p)
      (lock_modes kind) (s', ts')"
    using section_lock.steps_inv [OF lock section_lock.initial_inv [OF lock assms(2-4)] assms(5)] .
  from section_lock.inside_together [OF lock this assms(6-10)]
  show ?thesis by (cases kind) auto
qed

theorem lock_clients_exclude_witness:
  "(\<exists>s'. (client_step (lock_acquire simple_locks RwlockDk 0x1000)
        (lock_release simple_locks RwlockDk 0x1000) ^^ 2)
      (all_free, [Idle [Shared], Idle [Shared]]) (s', [Within Shared [], Within Shared []])) \<and>
   (\<nexists>k s'. (client_step (lock_acquire simple_locks MutexDk 0x1000)
        (lock_release simple_locks MutexDk 0x1000) ^^ k)
      (all_free, [Idle [Exclusive], Idle [Exclusive]])
      (s', [Within Exclusive [], Within Exclusive []]))"
proof (intro conjI notI)
  let ?acq = "lock_acquire simple_locks RwlockDk 0x1000"
  let ?rel = "lock_release simple_locks RwlockDk 0x1000"
  let ?s1 = "all_free\<lparr>ls_readers := (\<lambda>_. 0)(0x1000 := 1)\<rparr>"
  let ?s2 = "all_free\<lparr>ls_readers := (\<lambda>_. 0)(0x1000 := Suc 1)\<rparr>"
  have "client_step ?acq ?rel (all_free, [Idle [Shared], Idle [Shared]])
      (?s1, [Idle [Shared], Idle [Shared]][0 := Within Shared []])"
    by (rule client_step.enter) (simp_all add: rw_defs simple_locks_def all_free_def)
  moreover have "client_step ?acq ?rel (?s1, [Within Shared [], Idle [Shared]])
      (?s2, [Within Shared [], Idle [Shared]][1 := Within Shared []])"
    by (rule client_step.enter) (simp_all add: rw_defs simple_locks_def all_free_def)
  ultimately have "(client_step ?acq ?rel ^^ 2) (all_free, [Idle [Shared], Idle [Shared]])
      (?s2, [Within Shared [], Within Shared []])"
    by (auto simp: numeral_2_eq_2)
  then show "\<exists>s'. (client_step ?acq ?rel ^^ 2) (all_free, [Idle [Shared], Idle [Shared]])
      (s', [Within Shared [], Within Shared []])" by blast
next
  assume "\<exists>k s'. (client_step (lock_acquire simple_locks MutexDk 0x1000)
        (lock_release simple_locks MutexDk 0x1000) ^^ k)
      (all_free, [Idle [Exclusive], Idle [Exclusive]])
      (s', [Within Exclusive [], Within Exclusive []])"
  then obtain k s' where run: "(client_step (lock_acquire simple_locks MutexDk 0x1000)
        (lock_release simple_locks MutexDk 0x1000) ^^ k)
      (all_free, [Idle [Exclusive], Idle [Exclusive]])
      (s', [Within Exclusive [], Within Exclusive []])" by blast
  have "MutexDk \<in> {RwlockDk, RwlockK} \<and> Exclusive = Shared \<and> Exclusive = Shared"
    by (rule lock_clients_exclude [OF simple_blocking.blocking_locks_axioms _ _ _ run,
          where i = 0 and j = 1])
      (simp_all add: all_free_def only_modes_def)
  then show False by simp
qed

text \<open>
  C20. Progress: in the same setting no interleaving can go wrong.  Every run can be extended
  until all sections are done, it stops nowhere else, and it then took two calls for each
  section, none of them blocked for ever.
\<close>

theorem lock_clients_finish:
  assumes "blocking_locks A mutex_held readers writer spin_held"
    and "blocking_locks.lock_holds mutex_held readers writer spin_held kind p s = {#}"
    and "\<forall>t \<in> set ts. \<exists>ms. t = Idle ms" and "only_modes (lock_modes kind) ts"
    and step: "step = client_step (lock_acquire A kind p) (lock_release A kind p)"
    and run: "(step ^^ k) (s, ts) (s', ts')"
  shows "k \<le> work ts \<and>
    ((\<nexists>c. step (s', ts') c) \<longleftrightarrow> k = work ts) \<and>
    (k = work ts \<longleftrightarrow> (\<forall>t \<in> set ts'. t = Idle [])) \<and>
    (\<exists>s'' ts''. (step ^^ (work ts - k)) (s', ts') (s'', ts'') \<and> (\<forall>t \<in> set ts''. t = Idle []))"
proof -
  note lock = blocking_locks.lock_section [OF assms(1)]
  have inv: "section_lock.sections_inv
      (blocking_locks.lock_holds mutex_held readers writer spin_held kind p)
      (lock_modes kind) (s', ts')"
    using section_lock.steps_inv [OF lock section_lock.initial_inv [OF lock assms(2-4)]
        run [unfolded step]] .
  have left: "work ts = k + work ts'" using client_steps_work [OF run [unfolded step]] .
  have stuck: "(\<nexists>c. step (s', ts') c) \<longleftrightarrow> work ts' = 0"
  proof
    assume "\<nexists>c. step (s', ts') c"
    then show "work ts' = 0" using section_lock.step_exists [OF lock inv] step by blast
  next
    assume "work ts' = 0"
    then show "\<nexists>c. step (s', ts') c" unfolding step by (auto dest: client_step_work)
  qed
  from section_lock.runs_finish [OF lock inv] obtain s'' ts''
    where "(step ^^ work ts') (s', ts') (s'', ts'')" "work ts'' = 0" unfolding step by blast
  with left stuck show ?thesis by (auto simp: work_zero_iff)
qed

theorem lock_clients_finish_witness:
  "\<exists>s' ts'. (client_step (lock_acquire simple_locks MutexK 0x1000)
        (lock_release simple_locks MutexK 0x1000) ^^ 6)
      (all_free, [Idle [Exclusive, Exclusive], Idle [Exclusive]]) (s', ts') \<and>
    (\<forall>t \<in> set ts'. t = Idle [])"
proof -
  let ?ts = "[Idle [Exclusive, Exclusive], Idle [Exclusive]]"
  have "work ?ts = 6" by (simp add: work_def)
  moreover have "\<forall>t \<in> set ?ts. \<exists>ms. t = Idle ms" and "only_modes (lock_modes MutexK) ?ts"
    by (simp_all add: only_modes_def)
  ultimately show ?thesis
    using lock_clients_finish [OF simple_blocking.blocking_locks_axioms, where kind = MutexK
        and p = "0x1000" and s = all_free and ts = ?ts and k = 0, OF _ _ _ refl]
    by (simp add: all_free_def)
qed

section \<open>Conditional acquisition\<close>

text \<open>
  Threads that try a lock and go in when they are told \<open>NV_OK\<close>: which of them are inside.
\<close>

inductive try_step ::
  "('s \<Rightarrow> 's \<times> nv_status) \<Rightarrow> ('s \<Rightarrow> 's) \<Rightarrow> 's \<times> bool list \<Rightarrow> 's \<times> bool list \<Rightarrow> bool"
  for try_acq rel where
  try_enter: "i < length fs \<Longrightarrow> \<not> fs ! i \<Longrightarrow> try_acq s = (s', NV_OK) \<Longrightarrow>
    try_step try_acq rel (s, fs) (s', fs[i := True])"
| try_fail: "i < length fs \<Longrightarrow> \<not> fs ! i \<Longrightarrow> try_acq s = (s', status) \<Longrightarrow> status \<noteq> NV_OK \<Longrightarrow>
    try_step try_acq rel (s, fs) (s', fs)"
| try_leave: "i < length fs \<Longrightarrow> fs ! i \<Longrightarrow>
    try_step try_acq rel (s, fs) (rel s, fs[i := False])"

lemma all_can_enter:
  assumes told_ok: "\<And>s. I s \<Longrightarrow> \<exists>s'. try_acq s = (s', NV_OK) \<and> I s'"
    and "I s" and "j \<le> n"
  shows "\<exists>s'. (try_step try_acq rel ^^ j) (s, replicate n False)
    (s', replicate j True @ replicate (n - j) False) \<and> I s'"
  using assms(3)
proof (induction j)
  case 0
  with assms(2) show ?case by (intro exI [of _ s]) simp
next
  case (Suc j)
  let ?fs = "replicate j True @ replicate (n - j) False"
  from Suc obtain s' where s': "(try_step try_acq rel ^^ j) (s, replicate n False) (s', ?fs)" "I s'"
    by auto
  from told_ok [OF this(2)] obtain s'' where s'': "try_acq s' = (s'', NV_OK)" "I s''" by blast
  have "try_step try_acq rel (s', ?fs) (s'', ?fs[j := True])"
    using Suc.prems s''(1) by (intro try_enter) (simp_all add: nth_append)
  moreover have "?fs[j := True] = replicate (Suc j) True @ replicate (n - Suc j) False"
    using Suc.prems
    by (simp add: list_update_append replicate_app_Cons_same Suc_diff_Suc [symmetric])
  ultimately show ?case using s'(1) s''(2) by auto
qed

lemma all_enter:
  assumes "\<And>s. I s \<Longrightarrow> \<exists>s'. try_acq s = (s', NV_OK) \<and> I s'" and "I s"
  obtains s' where "(try_step try_acq rel ^^ n) (s, replicate n False) (s', replicate n True)"
proof -
  have "\<exists>s'. (try_step try_acq rel ^^ n) (s, replicate n False)
      (s', replicate n True @ replicate (n - n) False) \<and> I s'"
    by (rule all_can_enter [where I = I]) (use assms in \<open>simp_all only: order_refl\<close>)
  then obtain s' where "(try_step try_acq rel ^^ n) (s, replicate n False)
      (s', replicate n True @ replicate (n - n) False)" by blast
  then show thesis by (intro that) simp
qed

text \<open>The conditional calls that ask for exclusive access, and the releases that go with them.\<close>

datatype try_kind = TryMutexDk | TryMutexK | TryWriteDk | TryWriteK

fun lock_try :: "'s lock_api \<Rightarrow> try_kind \<Rightarrow> ptr \<Rightarrow> 's \<Rightarrow> 's \<times> nv_status" where
  "lock_try A TryMutexDk p s = os_cond_acquire_mutex_dk A s p"
| "lock_try A TryMutexK p s = os_cond_acquire_mutex_k A s p"
| "lock_try A TryWriteDk p s = os_cond_acquire_rwlock_write_dk A s p"
| "lock_try A TryWriteK p s = os_cond_acquire_rwlock_write_k A s p"

fun lock_leave :: "'s lock_api \<Rightarrow> try_kind \<Rightarrow> ptr \<Rightarrow> 's \<Rightarrow> 's" where
  "lock_leave A TryMutexDk p s = os_release_mutex_dk A s p"
| "lock_leave A TryMutexK p s = os_release_mutex_k A s p"
| "lock_leave A TryWriteDk p s = os_release_rwlock_write_dk A s p"
| "lock_leave A TryWriteK p s = os_release_rwlock_write_k A s p"

context lock_semantics
begin

lemma held_mutex_lets_in:
  assumes "kind \<in> {TryMutexDk, TryMutexK}" and "mutex_held s p"
  shows "\<exists>s'. lock_try A kind p s = (s', NV_OK) \<and> mutex_held s' p"
  using assms cond_mutex_held [OF assms(2)] by auto

lemma write_lets_in:
  assumes "kind \<in> {TryWriteDk, TryWriteK}" and "kind = TryWriteDk \<longrightarrow> \<not> writer s p"
  shows "\<exists>s'. lock_try A kind p s = (s', NV_OK) \<and> (kind = TryWriteDk \<longrightarrow> \<not> writer s' p)"
proof (cases "kind = TryWriteDk")
  case True
  with assms cond_read_free [of s p] show ?thesis by (auto simp: cond_write_is_read)
next
  case False
  with assms(1) show ?thesis
    by (auto simp: os_cond_acquire_rwlock_write_k_def split: prod.split)
qed

end

text \<open>
  C39. Threads that trust the status of a conditional exclusive acquisition exclude nobody: of
  any number of threads that try a free mutex or ask to write under a free read/write lock,
  on either target, all can get inside at once, after at most one call more than there are
  threads.
\<close>

theorem cond_clients_all_inside:
  assumes "lock_semantics A mutex_held readers writer"
    and "\<not> mutex_held s p" and "\<not> writer s p"
  shows "\<exists>k s'. k \<le> Suc n \<and> (try_step (lock_try A kind p) (lock_leave A kind p) ^^ k)
    (s, replicate n False) (s', replicate n True)"
proof (cases "kind \<in> {TryMutexDk, TryMutexK} \<and> 0 < n")
  case True
  let ?step = "try_step (lock_try A kind p) (lock_leave A kind p)"
  from True lock_semantics.cond_mutex_free [OF assms(1,2)]
  obtain s1 where s1: "lock_try A kind p s = (s1, NV_ERR_TIMEOUT_RETRY)" "mutex_held s1 p" by auto
  from True have first: "?step (s, replicate n False) (s1, replicate n False)"
    using s1(1) by (intro try_step.try_fail [where i = 0 and status = NV_ERR_TIMEOUT_RETRY]) simp_all
  have lets_in: "\<And>s. mutex_held s p \<Longrightarrow> \<exists>s'. lock_try A kind p s = (s', NV_OK) \<and> mutex_held s' p"
    using lock_semantics.held_mutex_lets_in [OF assms(1)] True by blast
  from lets_in s1(2)
  obtain s' where "(?step ^^ n) (s1, replicate n False) (s', replicate n True)"
    by (rule all_enter [where I = "\<lambda>s. mutex_held s p"])
  with first have "(?step ^^ Suc n) (s, replicate n False) (s', replicate n True)"
    by (rule relpowp_Suc_I2)
  then show ?thesis by blast
next
  case False
  then consider "n = 0" | "kind \<in> {TryWriteDk, TryWriteK}" by (cases kind) auto
  then show ?thesis
  proof cases
    case 1
    then show ?thesis by (intro exI [of _ 0]) simp
  next
    case 2
    have "kind = TryWriteDk \<longrightarrow> \<not> writer s p" using assms(3) by simp
    from lock_semantics.write_lets_in [OF assms(1) 2] this
    obtain s' where "(try_step (lock_try A kind p) (lock_leave A kind p) ^^ n)
      (s, replicate n False) (s', replicate n True)"
      by (rule all_enter [where I = "\<lambda>s. kind = TryWriteDk \<longrightarrow> \<not> writer s p"])
    then show ?thesis by (intro exI [of _ n]) auto
  qed
qed

theorem cond_clients_all_inside_witness:
  "\<exists>k s'. (try_step (lock_try simple_locks TryMutexK 0x1000) (lock_leave simple_locks TryMutexK 0x1000)
      ^^ k) (all_free, [False, False]) (s', [True, True])"
  using cond_clients_all_inside [OF simple_locks.lock_semantics_axioms, where s = all_free
      and p = "0x1000" and n = 2 and kind = TryMutexK]
  by (auto simp: all_free_def numeral_2_eq_2)

end
