(* ===== verification/SemaClients.thy ===== *)
theory SemaClients
  imports Semaphores LockClients
begin

text \<open>
  Threads that guard their sections with a semaphore of \<open>libc.cpp\<close>: the composition of
  \<open>os_alloc_semaphore\<close>, \<open>os_acquire_semaphore\<close>, \<open>os_release_semaphore\<close> and
  \<open>os_free_semaphore\<close> in the step relation \<open>client_step\<close>.  A semaphore does not give the
  contract \<open>section_lock\<close>: its calls block for good when the pointer names a semaphore, and
  never when it does not, which is so of the pointer \<open>os_alloc_semaphore\<close> returns.
\<close>

section \<open>Steps\<close>

definition sema_acquire :: "'s mach_semaphores \<Rightarrow> ptr \<Rightarrow> section_mode \<Rightarrow> 's \<Rightarrow> 's option" where
  "sema_acquire M p m s = map_option fst (os_acquire_semaphore M s p)"

definition sema_release :: "'s mach_semaphores \<Rightarrow> ptr \<Rightarrow> section_mode \<Rightarrow> 's \<Rightarrow> 's option" where
  "sema_release M p m s = map_option fst (os_release_semaphore M s p)"

abbreviation sema_step ::
  "'s mach_semaphores \<Rightarrow> ptr \<Rightarrow> 's \<times> thread list \<Rightarrow> 's \<times> thread list \<Rightarrow> bool" where
  "sema_step M p \<equiv> client_step (sema_acquire M p) (sema_release M p)"

text \<open>The next state of a thread that is let go on.\<close>

fun next_state :: "thread \<Rightarrow> thread" where
  "next_state (Idle []) = Idle []"
| "next_state (Idle (m # ms)) = Within m ms"
| "next_state (Within m ms) = Idle ms"

context counting_semaphores
begin

lemma sema_calls_wait:
  "sema_acquire M p m s = semaphore_wait M s p" "sema_release M p m s = semaphore_wait M s p"
  by (simp_all add: sema_acquire_def sema_release_def both_wait option.map_comp comp_def
      option.map_ident)

lemma sema_step_wait: "sema_step M p (s, ts) (s', ts') \<Longrightarrow> semaphore_wait M s p = Some s'"
  by (erule client_stepE) (simp_all add: sema_calls_wait)

text \<open>Every thread with work left can go on as soon as a wait returns.\<close>

lemma sema_step_of:
  assumes "semaphore_wait M s p = Some s'" and "i < length ts" and "ts ! i \<noteq> Idle []"
  shows "sema_step M p (s, ts) (s', ts[i := next_state (ts ! i)])"
proof (cases "ts ! i")
  case (Idle ms)
  with assms(2,3) obtain m ns where "ts ! i = Idle (m # ns)" by (cases ms) auto
  with client_step.enter [OF assms(2) this, of "sema_acquire M p" s s'] assms(1) show ?thesis
    by (simp add: sema_calls_wait)
next
  case (Within m ms)
  with client_step.leave [OF assms(2) this, of "sema_release M p" s s'] assms(1) show ?thesis
    by (simp add: sema_calls_wait)
qed

lemma sema_step_counts:
  assumes "sema_step M p (s, ts) (s', ts')" and "count s p = Some n"
  shows "\<exists>n'. count s' p = Some n' \<and> n = Suc n'"
  using sema_step_wait [OF assms(1)] assms(2) by (cases s p rule: wait_cases) auto

lemma sema_steps_count:
  "(sema_step M p ^^ k) (s, ts) (s', ts') \<Longrightarrow> count s p = Some n \<Longrightarrow>
   \<exists>n'. count s' p = Some n' \<and> n = k + n'"
proof (induction k arbitrary: s' ts')
  case (Suc k)
  then obtain s1 ts1 where "(sema_step M p ^^ k) (s, ts) (s1, ts1)"
    "sema_step M p (s1, ts1) (s', ts')" by auto
  with Suc.IH [of s1 ts1] Suc.prems(2) sema_step_counts [of p s1 ts1 s' ts'] show ?case by auto
qed simp

lemma sema_steps_invalid:
  "(sema_step M p ^^ k) (s, ts) (s', ts') \<Longrightarrow> count s p = None \<Longrightarrow> count s' = count s"
proof (induction k arbitrary: s' ts')
  case (Suc k)
  then obtain s1 ts1 where "(sema_step M p ^^ k) (s, ts) (s1, ts1)"
    and st: "sema_step M p (s1, ts1) (s', ts')" by auto
  with Suc.IH [of s1 ts1] Suc.prems(2) have "count s1 = count s" by simp
  with sema_step_wait [OF st] Suc.prems(2) show ?case by (cases s1 p rule: wait_cases) auto
qed simp

lemma work_left: "work ts \<noteq> 0 \<Longrightarrow> \<exists>i < length ts. ts ! i \<noteq> Idle []"
  by (auto simp: work_zero_iff in_set_conv_nth)

lemma sema_stuck_iff:
  assumes "count s p = Some n"
  shows "(\<nexists>c. sema_step M p (s, ts) c) \<longleftrightarrow> n = 0 \<or> work ts = 0"
proof
  assume stuck: "\<nexists>c. sema_step M p (s, ts) c"
  show "n = 0 \<or> work ts = 0"
  proof (rule ccontr)
    assume "\<not> (n = 0 \<or> work ts = 0)"
    then obtain i k where "i < length ts" "ts ! i \<noteq> Idle []" "n = Suc k"
      using work_left [of ts] by (cases n) auto
    with wait_takes [of s p k] assms sema_step_of stuck show False by blast
  qed
next
  assume "n = 0 \<or> work ts = 0"
  then show "\<nexists>c. sema_step M p (s, ts) c"
    using assms sema_step_counts [of p s ts] client_step_work [of _ _ s ts] by fastforce
qed

end

section \<open>Properties\<close>

text \<open>
  C21. A semaphore does not work as a lock: \<open>os_release_semaphore\<close> waits instead of
  signalling, so threads that guard their sections with one, through a pointer that names it,
  make no more calls than its count, whatever the interleaving.  With less count than two for
  each section every run ends with all threads blocked and sections left.
\<close>

theorem semaphore_clients_block:
  assumes "counting_semaphores M cnt"
    and "cnt s p = Some n"
    and step: "step = client_step (sema_acquire M p) (sema_release M p)"
    and run: "(step ^^ k) (s, ts) (s', ts')"
  shows "k \<le> n \<and>
    ((\<nexists>c. step (s', ts') c) \<longleftrightarrow> k = min n (work ts)) \<and>
    (n < work ts \<longrightarrow> (\<exists>t \<in> set ts'. t \<noteq> Idle []))"
proof -
  from counting_semaphores.sema_steps_count [OF assms(1) run [unfolded step] assms(2)]
  obtain n' where n': "cnt s' p = Some n'" "n = k + n'" by blast
  note left = client_steps_work [OF run [unfolded step]]
  from counting_semaphores.sema_stuck_iff [OF assms(1) n'(1), of ts']
  have "(\<nexists>c. step (s', ts') c) \<longleftrightarrow> k = min n (work ts)"
    unfolding step using left n'(2) by auto
  moreover have "n < work ts \<longrightarrow> work ts' \<noteq> 0" using n'(2) left by simp
  then have "n < work ts \<longrightarrow> (\<exists>t \<in> set ts'. t \<noteq> Idle [])" by (simp add: work_zero_iff)
  ultimately show ?thesis using n'(2) by simp
qed

theorem semaphore_clients_block_witness:
  "\<forall>c. \<not> client_step (sema_acquire count_semaphores 7) (sema_release count_semaphores 7)
     ([7 \<mapsto> 0], [Within Exclusive []]) c"
proof -
  let ?step = "client_step (sema_acquire count_semaphores 7) (sema_release count_semaphores 7)"
  have "?step ([7 \<mapsto> 1], [Idle [Exclusive]])
      ([7 \<mapsto> 1, 7 \<mapsto> 0], [Idle [Exclusive]][0 := Within Exclusive []])"
    by (rule client_step.enter)
      (simp_all add: sema_acquire_def os_acquire_semaphore_def count_semaphores_def)
  then have "(?step ^^ 1) ([7 \<mapsto> 1], [Idle [Exclusive]]) ([7 \<mapsto> 0], [Within Exclusive []])"
    by (simp only: relpowp_1 list_update_code fun_upd_upd)
  from semaphore_clients_block [OF count_semaphores.counting_semaphores_axioms _ refl this, of 1]
  show ?thesis by (auto simp: work_def)
qed

text \<open>
  C22. The semaphore \<open>os_alloc_semaphore\<close> makes is never used.  The pointer it returns is the
  address of the cell with the handle, and the other functions take that address for the
  handle: unless it happens to be one, threads that guard their sections with it are never
  kept out (in every state each thread with work left can go on, inside or not), a
  conditional acquisition always fails with \<open>NV_ERR_GENERIC\<close>, the count stays what it was, and
  \<open>os_free_semaphore\<close> leaves the semaphore behind.  (This is DriverKit, where a handle is a
  port name; in the kernel it is an address, and Mach reads a semaphore there unchecked.)
\<close>

theorem allocated_semaphore_unused:
  assumes "counting_semaphores M cnt"
    and "os_alloc_semaphore M task s cells mall v = Done (s1, cells1, call, p)"
    and "cells1 p = Some h" and "cnt s1 p = None"
    and step: "step = client_step (sema_acquire M p) (sema_release M p)"
    and run: "(step ^^ k) (s1, ts) (s2, ts')"
  shows "(\<forall>i < length ts'. ts' ! i \<noteq> Idle [] \<longrightarrow>
      (\<exists>s3. step (s2, ts') (s3, ts'[i := next_state (ts' ! i)]))) \<and>
    os_cond_acquire_semaphore_dk M s2 p = (s2, NV_ERR_GENERIC) \<and>
    cnt s2 h = Some (unat v) \<and>
    cnt (fst (os_free_semaphore M task' s2 cells1 p)) h = Some (unat v)"
proof -
  have made: "cnt s1 h = Some (unat v)"
    using counting_semaphores.alloc_semaphore_handle(3) [OF assms(1-3)] by simp
  have same: "cnt s2 = cnt s1"
    by (rule counting_semaphores.sema_steps_invalid [OF assms(1) run [unfolded step] assms(4)])
  with assms(4) have dead: "cnt s2 p = None" by simp
  from counting_semaphores.wait_invalid [OF assms(1) dead]
  obtain s3 where "semaphore_wait M s2 p = Some s3" by blast
  note go_on = counting_semaphores.sema_step_of [OF assms(1) this, folded step]
  have cond: "os_cond_acquire_semaphore_dk M s2 p = (s2, NV_ERR_GENERIC)"
    using counting_semaphores.cond_acquire_status [OF assms(1), of s2 p] dead by auto
  have "cnt (fst (os_free_semaphore M task' s2 cells1 p)) h = Some (unat v)"
    using counting_semaphores.free_semaphore_leaves [OF assms(1) dead] made same by simp
  with go_on cond made same show ?thesis by auto
qed

text \<open>Two threads, both inside a section guarded by a semaphore of count 1.\<close>

theorem allocated_semaphore_unused_witness:
  "\<exists>s1 cells1. os_alloc_semaphore count_semaphores 9 Map.empty Map.empty 0x1000 1 =
       Done (s1, cells1, AllocBytes 8 0x1000, 0x1000) \<and>
     (client_step (sema_acquire count_semaphores 0x1000) (sema_release count_semaphores 0x1000) ^^ 1)
       (s1, [Within Exclusive [], Idle [Exclusive]]) (s1, [Within Exclusive [], Within Exclusive []]) \<and>
     fst (os_free_semaphore count_semaphores 9 s1 cells1 0x1000) 1 = Some 1"
proof -
  let ?s1 = "[1 \<mapsto> 1] :: u64 \<Rightarrow> nat option" and ?c1 = "[0x1000 \<mapsto> 1] :: cells"
  let ?step = "client_step (sema_acquire count_semaphores 0x1000) (sema_release count_semaphores 0x1000)"
  have alloc: "os_alloc_semaphore count_semaphores 9 Map.empty Map.empty 0x1000 1 =
      Done (?s1, ?c1, AllocBytes 8 0x1000, 0x1000)"
    by (simp add: os_alloc_semaphore_def sizeof_semaphore_t_def struct_sizes count_semaphores_def fresh_handle_def)
  have start: "(?step ^^ 0) (?s1, [Within Exclusive [], Idle [Exclusive]])
      (?s1, [Within Exclusive [], Idle [Exclusive]])" by simp
  note unused = allocated_semaphore_unused [OF count_semaphores.counting_semaphores_axioms alloc _ _
      refl start, of 1 9]
  from unused have "\<exists>s3. ?step (?s1, [Within Exclusive [], Idle [Exclusive]])
      (s3, [Within Exclusive [], Within Exclusive []])" by fastforce
  then obtain s3 where s3: "?step (?s1, [Within Exclusive [], Idle [Exclusive]])
      (s3, [Within Exclusive [], Within Exclusive []])" by blast
  from count_semaphores.sema_step_wait [OF s3] have "s3 = ?s1" by (simp add: count_semaphores_def)
  with s3 have "(?step ^^ 1) (?s1, [Within Exclusive [], Idle [Exclusive]])
      (?s1, [Within Exclusive [], Within Exclusive []])" by (simp only: relpowp_1)
  moreover from unused have "fst (os_free_semaphore count_semaphores 9 ?s1 ?c1 0x1000) 1 = Some 1"
    by simp
  ultimately show ?thesis using alloc by blast
qed

end
