(* ===== verification/KernelMap.thy ===== *)
theory KernelMap
  imports Registry NvState
begin

text \<open>
  \<open>os_map_kernel_space\<close> and \<open>os_unmap_kernel_space\<close> of \<open>memory_driverkit.cpp\<close> (suffix
  \<open>_dk\<close>) and \<open>memory_kernel.cpp\<close> (suffix \<open>_k\<close>), with the page constants.  The answers of the
  PCI device and of the memory objects are arguments; an operation returns the new dictionary
  \<open>global_mapped_memory\<close> and the list of the references it took and gave back, from which
  \<open>balance\<close> computes what each object is left with.
\<close>

section \<open>Page constants\<close>

text \<open>\<open>NvU64 os_page_mask = ~(os_page_size - 1)\<close>: the complement is taken in 32 bits.\<close>

definition os_page_size_dk :: "u64 \<Rightarrow> u32" where
  "os_page_size_dk IOVMPageSize = ucast IOVMPageSize"

definition os_page_mask_dk :: "u32 \<Rightarrow> u64" where
  "os_page_mask_dk os_page_size = ucast (NOT (os_page_size - 1))"

text \<open>\<open>std::countr_zero\<close> on 32 bits.\<close>

definition os_page_shift_dk :: "u32 \<Rightarrow> u8" where
  "os_page_shift_dk os_page_size =
     of_nat (length (takeWhile (\<lambda>i. \<not> bit os_page_size i) [0..<32]))"

text \<open>In the kernel they are the constants of the Mach headers, as they are.\<close>

definition os_page_size_k :: "u64 \<Rightarrow> u32" where
  "os_page_size_k PAGE_SIZE = ucast PAGE_SIZE"

definition os_page_mask_k :: "u64 \<Rightarrow> u64" where
  "os_page_mask_k PAGE_MASK = PAGE_MASK"

definition os_page_shift_k :: "u64 \<Rightarrow> u8" where
  "os_page_shift_k PAGE_SHIFT = ucast PAGE_SHIFT"

lemma takeWhile_upt_first:
  assumes "k < n" and "P k" and "\<forall>i < k. \<not> P i"
  shows "takeWhile (\<lambda>i. \<not> P i) [0..<n] = [0..<k]"
proof -
  have "[0..<n] = [0..<k] @ k # [Suc k..<n]" 
    using assms(1) upt_add_eq_append [of 0 k "n - k"] by (simp add: upt_conv_Cons)
  with assms(2,3) show ?thesis by (simp add: takeWhile_append)
qed

section \<open>Finding the BAR\<close>

text \<open>The loop over \<open>nv->bars\<close>, from index \<open>i\<close>; \<open>0xFF\<close> when no address matches.\<close>

fun find_bar :: "u64 \<Rightarrow> nv_aperture list \<Rightarrow> nat \<Rightarrow> u8" where
  "find_bar start [] i = 0xFF"
| "find_bar start (currentBar # rest) i =
     (if cpu_address currentBar = start then of_nat i else find_bar start rest (Suc i))"

lemma find_bar_absent:
  "\<forall>b \<in> set bs. cpu_address b \<noteq> start \<Longrightarrow> find_bar start bs i = 0xFF"
  by (induction bs arbitrary: i) auto

lemma find_bar_first:
  "k < length bs \<Longrightarrow> cpu_address (bs ! k) = start \<Longrightarrow>
   \<forall>j < k. cpu_address (bs ! j) \<noteq> start \<Longrightarrow> find_bar start bs i = of_nat (i + k)"
proof (induction bs arbitrary: i k)
  case Nil
  then show ?case by simp
next
  case (Cons b bs)
  show ?case
  proof (cases k)
    case 0
    with Cons.prems show ?thesis by simp
  next
    case (Suc k')
    from Cons.prems(3) Suc have "cpu_address b \<noteq> start" by auto
    moreover from Cons.prems Suc have "find_bar start bs (Suc i) = of_nat (Suc i + k')"
      by (intro Cons.IH) auto
    ultimately show ?thesis using Suc by simp
  qed
qed

lemma first_match:
  assumes "b \<in> set bs" and "P b"
  shows "\<exists>k < length bs. P (bs ! k) \<and> (\<forall>j < k. \<not> P (bs ! j))"
proof -
  from assms obtain n where n: "n < length bs" "P (bs ! n)" by (auto simp: in_set_conv_nth)
  define k where "k = (LEAST n. n < length bs \<and> P (bs ! n))"
  have k: "k < length bs \<and> P (bs ! k)" unfolding k_def by (rule LeastI [of _ n]) (use n in simp)
  moreover have "\<not> P (bs ! j)" if "j < k" for j
    using not_less_Least [of j "\<lambda>n. n < length bs \<and> P (bs ! n)"] that k by (auto simp: k_def)
  ultimately show ?thesis by blast
qed

lemma find_bar_found_iff:
  assumes "length bs < 255"
  shows "find_bar start bs 0 \<noteq> 0xFF \<longleftrightarrow> (\<exists>b \<in> set bs. cpu_address b = start)"
proof
  assume "find_bar start bs 0 \<noteq> 0xFF"
  then show "\<exists>b \<in> set bs. cpu_address b = start" using find_bar_absent by blast
next
  assume "\<exists>b \<in> set bs. cpu_address b = start"
  then obtain k where k: "k < length bs" "cpu_address (bs ! k) = start"
    "\<forall>j < k. cpu_address (bs ! j) \<noteq> start"
    using first_match [of _ bs "\<lambda>b. cpu_address b = start"] by blast
  then have "find_bar start bs 0 = of_nat k" using find_bar_first [of k bs start 0] by simp
  moreover have "(of_nat k :: u8) \<noteq> 0xFF"
  proof
    assume "(of_nat k :: u8) = 0xFF"
    then have "unat (of_nat k :: u8) = 255" by simp
    with k(1) assms show False by (simp add: unat_of_nat)
  qed
  ultimately show "find_bar start bs 0 \<noteq> 0xFF" by simp
qed

section \<open>References\<close>

datatype ref_event =
    Obtain ptr       \<comment> \<open>the caller got a reference with the object\<close>
  | Retain ptr
  | Release ptr

definition balance :: "ref_event list \<Rightarrow> ptr \<Rightarrow> int" where
  "balance evs x = (\<Sum>e \<leftarrow> evs.
     (case e of Obtain y \<Rightarrow> if y = x then 1 else 0
      | Retain y \<Rightarrow> if y = x then 1 else 0
      | Release y \<Rightarrow> if y = x then - 1 else 0))"

lemma balance_Nil [simp]: "balance [] x = 0"
  by (simp add: balance_def)

lemma balance_Cons [simp]:
  "balance (Obtain y # es) x = (if y = x then 1 else 0) + balance es x"
  "balance (Retain y # es) x = (if y = x then 1 else 0) + balance es x"
  "balance (Release y # es) x = (if y = x then - 1 else 0) + balance es x"
  by (simp_all add: balance_def)

lemma balance_append [simp]: "balance (es @ fs) x = balance es x + balance fs x"
  by (simp add: balance_def)

text \<open>\<open>setObject\<close> retains the new object and releases the one it replaces; \<open>removeObject\<close> releases.\<close>

definition set_events :: "'d libkern \<Rightarrow> 'd \<Rightarrow> ptr \<Rightarrow> ptr \<Rightarrow> ref_event list" where
  "set_events K d p m =
     Retain m # (case reg_find K d p of Some (IOMemoryMapObject old) \<Rightarrow> [Release old] | _ \<Rightarrow> [])"

section \<open>Cache modes\<close>

text \<open>The modes of \<open>nv_memory_type.h\<close> and the options of IOKit are numbers of those headers.\<close>

record nv_memory_modes =
  NV_MEMORY_CACHED :: u32
  NV_MEMORY_UNCACHED :: u32
  NV_MEMORY_WRITECOMBINED :: u32
  NV_MEMORY_WRITEBACK :: u32
  NV_MEMORY_DEFAULT :: u32

text \<open>The case labels of a \<open>switch\<close> are distinct.\<close>

definition distinct_modes :: "nv_memory_modes \<Rightarrow> bool" where
  "distinct_modes M \<longleftrightarrow>
     distinct [NV_MEMORY_CACHED M, NV_MEMORY_UNCACHED M, NV_MEMORY_WRITECOMBINED M,
               NV_MEMORY_WRITEBACK M, NV_MEMORY_DEFAULT M]"

record driverkit_cache_modes =
  kIOMemoryMapCacheModeDefault :: u64
  kIOMemoryMapCacheModeInhibit :: u64
  kIOMemoryMapCacheModeCopyback :: u64
  kIOMemoryMapCacheModeWriteThrough :: u64

definition nvCacheToIOOption ::
  "nv_memory_modes \<Rightarrow> driverkit_cache_modes \<Rightarrow> u64 \<Rightarrow> u64" where
  "nvCacheToIOOption M C nvCacheMode =
     (if nvCacheMode = ucast (NV_MEMORY_CACHED M) then kIOMemoryMapCacheModeDefault C
      else if nvCacheMode = ucast (NV_MEMORY_WRITECOMBINED M) then
        kIOMemoryMapCacheModeWriteThrough C OR kIOMemoryMapCacheModeCopyback C
      else if nvCacheMode = ucast (NV_MEMORY_WRITEBACK M) then kIOMemoryMapCacheModeWriteThrough C
      else if nvCacheMode = ucast (NV_MEMORY_UNCACHED M) \<or>
              nvCacheMode = ucast (NV_MEMORY_DEFAULT M) then kIOMemoryMapCacheModeInhibit C
      else kIOMemoryMapCacheModeDefault C)"

record kernel_cache_modes =
  kIOMapDefaultCache :: u32
  kIOMapInhibitCache :: u32
  kIOMapWriteCombineCache :: u32
  kIOMapAnywhere :: u32

text \<open>The switch of the kernel's \<open>os_map_kernel_space\<close>; \<open>None\<close> is its default branch.\<close>

definition memoryMode_k :: "nv_memory_modes \<Rightarrow> kernel_cache_modes \<Rightarrow> u32 \<Rightarrow> u32 option" where
  "memoryMode_k M C mode =
     (if mode = NV_MEMORY_CACHED M then Some (kIOMapDefaultCache C OR kIOMapAnywhere C)
      else if mode = NV_MEMORY_WRITECOMBINED M then
        Some (kIOMapWriteCombineCache C OR kIOMapAnywhere C)
      else if mode = NV_MEMORY_UNCACHED M \<or> mode = NV_MEMORY_DEFAULT M then
        Some (kIOMapInhibitCache C OR kIOMapAnywhere C)
      else None)"

section \<open>Mapping\<close>

text \<open>
  The answers of the device: the result of \<open>_CopyDeviceMemoryWithIndex\<close> with the memory
  object, and the result of \<open>CreateMapping\<close> with the mapping object and its address.  The
  calls made are recorded with their arguments.
\<close>

datatype map_call =
    CopyDeviceMemory u8 ptr            \<comment> \<open>BAR, client service\<close>
  | CreateMapping ptr u64 u64        \<comment> \<open>memory object, options, length\<close>
  | MapDeviceMemoryWithRegister u8 u32

record dk_answers =
  copy_result :: kern_return
  returnMemory :: ptr
  create_result :: kern_return
  mapping_object :: ptr
  mapping_address :: ptr

record 'd map_result =
  mapped_at :: ptr
  new_dict :: 'd
  ref_events :: "ref_event list"
  map_calls :: "map_call list"

definition os_map_kernel_space_dk ::
  "'d libkern \<Rightarrow> nv_memory_modes \<Rightarrow> driverkit_cache_modes \<Rightarrow> nvd_pointer \<Rightarrow> 'd \<Rightarrow> dk_answers
   \<Rightarrow> u64 \<Rightarrow> u64 \<Rightarrow> u32 \<Rightarrow> 'd map_result outcome" where
  "os_map_kernel_space_dk K M C nvd d ans start size_bytes mode =
     (case nvd of None \<Rightarrow> Fault NullDereference
      | Some (_, st) \<Rightarrow>
     (let memoryIndex = find_bar start (bars (nv_state_of st)) 0 in
      if memoryIndex = 0xFF then
        Done \<lparr>mapped_at = NULL, new_dict = d, ref_events = [], map_calls = []\<rparr>
      else if device st = NULL then Fault NullDereference
      else if copy_result ans \<noteq> KERN_SUCCESS then
        Done \<lparr>mapped_at = NULL, new_dict = d, ref_events = [],
          map_calls = [CopyDeviceMemory memoryIndex (service st)]\<rparr>
      else
        (let mappingOption = nvCacheToIOOption M C (ucast mode);
             calls = [CopyDeviceMemory memoryIndex (service st),
                      CreateMapping (returnMemory ans) mappingOption size_bytes];
             got = Obtain (returnMemory ans)
         in
          if create_result ans \<noteq> KERN_SUCCESS then
            Done \<lparr>mapped_at = NULL, new_dict = d, ref_events = [got, Release (returnMemory ans)],
              map_calls = calls\<rparr>
          else
            Done \<lparr>mapped_at = mapping_address ans,
              new_dict = reg_put K d (mapping_address ans) (IOMemoryMapObject (mapping_object ans)),
              ref_events = [got, Obtain (mapping_object ans)]
                @ set_events K d (mapping_address ans) (mapping_object ans)
                @ [Release (mapping_object ans), Release (returnMemory ans)],
              map_calls = calls\<rparr>)))"

text \<open>
  In the kernel \<open>mapDeviceMemoryWithRegister\<close> returns the mapping (\<open>NULL\<close> when it fails),
  and the address stored and returned is its physical address.
\<close>

record k_answers =
  k_mapping :: ptr
  physical_address :: ptr

definition os_map_kernel_space_k ::
  "'d libkern \<Rightarrow> nv_memory_modes \<Rightarrow> kernel_cache_modes \<Rightarrow> nvd_pointer \<Rightarrow> 'd \<Rightarrow> k_answers
   \<Rightarrow> u64 \<Rightarrow> u64 \<Rightarrow> u32 \<Rightarrow> 'd map_result outcome" where
  "os_map_kernel_space_k K M C nvd d ans start sz mode =
     (case nvd of None \<Rightarrow> Fault NullDereference
      | Some (_, st) \<Rightarrow>
     (let memoryIndex = find_bar start (bars (nv_state_of st)) 0 in
      if memoryIndex = 0xFF then
        Done \<lparr>mapped_at = NULL, new_dict = d, ref_events = [], map_calls = []\<rparr>
      else
        (case memoryMode_k M C mode of
           None \<Rightarrow> Done \<lparr>mapped_at = NULL, new_dict = d, ref_events = [], map_calls = []\<rparr>
         | Some memoryMode \<Rightarrow>
             if device st = NULL then Fault NullDereference
             else if k_mapping ans = NULL then Fault NullDereference
             else
               Done \<lparr>mapped_at = physical_address ans,
                 new_dict = reg_put K d (physical_address ans) (IOMemoryMapObject (k_mapping ans)),
                 ref_events = Obtain (k_mapping ans)
                   # set_events K d (physical_address ans) (k_mapping ans)
                   @ [Release (k_mapping ans)],
                 map_calls = [MapDeviceMemoryWithRegister memoryIndex memoryMode]\<rparr>)))"

text \<open>
  Unmapping is the same code on both targets.  \<open>cast\<close> is \<open>OSRequiredCast\<close> to
  \<open>IOMemoryMap\<close>: documented to return an object of that class unchanged and to stop the
  system on one of another class; what it does with \<open>NULL\<close> is left open.
\<close>

definition required_cast :: "(os_object option \<Rightarrow> ptr option outcome) \<Rightarrow> bool" where
  "required_cast cast \<longleftrightarrow>
     (\<forall>m. cast (Some (IOMemoryMapObject m)) = Done (Some m)) \<and>
     (\<forall>n. cast (Some (OSNumber n)) = Fault Panic)"

definition os_unmap_kernel_space_dk ::
  "'d libkern \<Rightarrow> (os_object option \<Rightarrow> ptr option outcome) \<Rightarrow> 'd \<Rightarrow> ptr \<Rightarrow> u64
   \<Rightarrow> ('d \<times> ref_event list) outcome" where
  "os_unmap_kernel_space_dk K cast d addressBase size_bytes =
     (case cast (reg_find K d addressBase) of
        Fault f \<Rightarrow> Fault f
      | Done None \<Rightarrow> Done (d, [])
      | Done (Some mapping) \<Rightarrow> Done (reg_del K d addressBase, [Release mapping]))"

definition os_unmap_kernel_space_k ::
  "'d libkern \<Rightarrow> (os_object option \<Rightarrow> ptr option outcome) \<Rightarrow> 'd \<Rightarrow> ptr \<Rightarrow> u64
   \<Rightarrow> ('d \<times> ref_event list) outcome" where
  "os_unmap_kernel_space_k K cast d addressBase size_bytes =
     (case cast (reg_find K d addressBase) of
        Fault f \<Rightarrow> Fault f
      | Done None \<Rightarrow> Done (d, [])
      | Done (Some mapping) \<Rightarrow> Done (reg_del K d addressBase, [Release mapping]))"

lemmas map_defs = os_map_kernel_space_dk_def os_map_kernel_space_k_def
  os_unmap_kernel_space_dk_def os_unmap_kernel_space_k_def Let_def

section \<open>Lemmas\<close>

text \<open>What is left of an entry that \<open>setObject\<close> replaces.\<close>

definition replaced :: "'d libkern \<Rightarrow> 'd \<Rightarrow> ptr \<Rightarrow> ptr \<Rightarrow> int" where
  "replaced K d p x = (if reg_find K d p = Some (IOMemoryMapObject x) then 1 else 0)"

lemma set_events_balance [simp]:
  "balance (set_events K d p m) x = (if m = x then 1 else 0) - replaced K d p x"
  by (auto simp: set_events_def replaced_def split: option.splits os_object.splits)

text \<open>
  When a BAR is recorded at an address, when a mapping of it faults (there is no state, or no
  device to ask), and when it succeeds.
\<close>

definition bar_found :: "nvd_pointer \<Rightarrow> u64 \<Rightarrow> bool" where
  "bar_found nvd start \<longleftrightarrow>
     (case nvd of None \<Rightarrow> False
      | Some (_, st) \<Rightarrow> find_bar start (bars (nv_state_of st)) 0 \<noteq> 0xFF)"

definition map_faults :: "nvd_pointer \<Rightarrow> u64 \<Rightarrow> bool" where
  "map_faults nvd start \<longleftrightarrow> nvd = None \<or> bar_found nvd start \<and> \<not> device_present nvd"

definition dk_maps :: "nvd_pointer \<Rightarrow> dk_answers \<Rightarrow> u64 \<Rightarrow> bool" where
  "dk_maps nvd ans start \<longleftrightarrow> bar_found nvd start \<and> device_present nvd \<and>
     copy_result ans = KERN_SUCCESS \<and> create_result ans = KERN_SUCCESS"

lemma bar_found_simps [simp]:
  "\<not> bar_found None start"
  "bar_found (Some (a, st)) start \<longleftrightarrow> find_bar start (bars (nv_state_of st)) 0 \<noteq> 0xFF"
  by (simp_all add: bar_found_def)

lemma map_faults_not_maps: "map_faults nvd start \<Longrightarrow> \<not> dk_maps nvd ans start"
  by (auto simp: map_faults_def dk_maps_def)

lemma map_dk_faults:
  "map_faults nvd start \<Longrightarrow>
   os_map_kernel_space_dk K M C nvd d ans start sz mode = Fault NullDereference"
  by (cases nvd) (auto simp: map_defs map_faults_def)

lemma map_dk_refused:
  assumes "\<not> map_faults nvd start" and "\<not> dk_maps nvd ans start"
  shows "\<exists>r. os_map_kernel_space_dk K M C nvd d ans start sz mode = Done r \<and>
    mapped_at r = NULL \<and> new_dict r = d \<and> (\<forall>x. balance (ref_events r) x = 0)"
  using assms by (cases nvd) (auto simp: map_defs map_faults_def dk_maps_def)

lemma map_dk_mapped:
  assumes "dk_maps nvd ans start"
  shows "\<exists>r. os_map_kernel_space_dk K M C nvd d ans start sz mode = Done r \<and>
    mapped_at r = mapping_address ans \<and>
    new_dict r = reg_put K d (mapping_address ans) (IOMemoryMapObject (mapping_object ans)) \<and>
    (\<forall>x. balance (ref_events r) x =
      (if mapping_object ans = x then 1 else 0) - replaced K d (mapping_address ans) x)"
  using assms by (cases nvd) (auto simp: map_defs dk_maps_def)

lemma map_dk_done_iff:
  "is_done (os_map_kernel_space_dk K M C nvd d ans start sz mode) \<longleftrightarrow> \<not> map_faults nvd start"
  by (cases nvd) (auto simp: map_defs map_faults_def)

lemma unmap_found:
  assumes "required_cast cast" and "reg_find K d p = Some (IOMemoryMapObject m)"
  shows "os_unmap_kernel_space_dk K cast d p sz = Done (reg_del K d p, [Release m])"
    and "os_unmap_kernel_space_k K cast d p sz = Done (reg_del K d p, [Release m])"
  using assms by (simp_all add: map_defs required_cast_def)

context libkern_objects
begin

lemmas block_find_put_same = blocks.find_put_same
lemmas block_find_del_put = blocks.find_del_put

end

section \<open>Properties\<close>

lemma find_bar_256:
  assumes "k < length bs" and "k < 255" and "cpu_address (bs ! k) = start"
    and "\<forall>j < k. cpu_address (bs ! j) \<noteq> start"
  shows "find_bar start bs 0 = of_nat k" and "find_bar start bs 0 \<noteq> 0xFF"
proof -
  show at: "find_bar start bs 0 = of_nat k"
    using find_bar_first [OF assms(1,3,4), of 0] by simp
  show "find_bar start bs 0 \<noteq> 0xFF"
  proof
    assume "find_bar start bs 0 = 0xFF"
    with at have "unat (of_nat k :: u8) = 255" by simp
    with assms(2) show False by (simp add: unat_of_nat)
  qed
qed

text \<open>
  The BAR that is mapped: when some BAR's address is \<open>start\<close>, the device (dereferenced
  even when it is \<open>NULL\<close>) is asked for the first such BAR by its index; when none is, the call
  returns \<open>NULL\<close>, asks nothing of the device and changes nothing.
\<close>

lemma map_asks_first_matching_bar:
  assumes "length (bars (nv_state_of st)) < 255"
  shows "if \<exists>b \<in> set (bars (nv_state_of st)). cpu_address b = start
    then (if device st = NULL
      then os_map_kernel_space_dk K M C (Some (a, st)) d ans start sz mode = Fault NullDereference
      else (\<exists>k r calls. k < length (bars (nv_state_of st)) \<and>
        cpu_address (bars (nv_state_of st) ! k) = start \<and>
        (\<forall>j < k. cpu_address (bars (nv_state_of st) ! j) \<noteq> start) \<and>
        os_map_kernel_space_dk K M C (Some (a, st)) d ans start sz mode = Done r \<and>
        map_calls r = CopyDeviceMemory (of_nat k) (service st) # calls))
    else os_map_kernel_space_dk K M C (Some (a, st)) d ans start sz mode =
      Done \<lparr>mapped_at = NULL, new_dict = d, ref_events = [], map_calls = []\<rparr>"
proof (cases "\<exists>b \<in> set (bars (nv_state_of st)). cpu_address b = start")
  case True
  then obtain k where k: "k < length (bars (nv_state_of st))"
    "cpu_address (bars (nv_state_of st) ! k) = start"
    "\<forall>j < k. cpu_address (bars (nv_state_of st) ! j) \<noteq> start"
    using first_match [of _ "bars (nv_state_of st)" "\<lambda>b. cpu_address b = start"] by blast
  with assms have "k < 255" by simp
  note idx = find_bar_256 [OF k(1) this k(2,3)]
  show ?thesis
  proof (cases "device st = NULL")
    case True
    with idx \<open>\<exists>b \<in> _. _\<close> show ?thesis by (simp add: map_defs)
  next
    case False
    with idx have "\<exists>r calls. os_map_kernel_space_dk K M C (Some (a, st)) d ans start sz mode = Done r \<and>
        map_calls r = CopyDeviceMemory (of_nat k) (service st) # calls"
      by (simp add: map_defs)
    with k True False show ?thesis by auto
  qed
next
  case False
  then have "find_bar start (bars (nv_state_of st)) 0 = 0xFF" by (auto intro: find_bar_absent)
  with False show ?thesis by (simp add: map_defs)
qed

definition example_bar :: "u64 \<Rightarrow> nv_aperture" where
  "example_bar a = \<lparr>cpu_address = a, aperture_size = 0x1000000, cfg_offset = 0x10\<rparr>"

definition example_state :: "nv_aperture list \<Rightarrow> nvd_pointer" where
  "example_state bs =
     Some (0x40, \<lparr>nv_state_of =
        \<lparr>pci_info_of = \<lparr>vendor_id = 0x10de, device_id = 0x2204, domain_nr = 2,
           bus_nr = 1, slot_nr = 0, function_nr = 0\<rparr>,
         subsystem_id = 0, subsystem_vendor = 0, os_state = 0, nv_flags = 0, dma_dev = 0,
         handle_of = 0, bars = bs, regs = 0, fb = 1\<rparr>,
      service = 0x10, device = 0x20, dma_mask = 0\<rparr>)"

definition example_modes :: nv_memory_modes where
  "example_modes = \<lparr>NV_MEMORY_CACHED = 0, NV_MEMORY_UNCACHED = 1, NV_MEMORY_WRITECOMBINED = 2,
     NV_MEMORY_WRITEBACK = 5, NV_MEMORY_DEFAULT = 6\<rparr>"

definition example_dk_cache :: driverkit_cache_modes where
  "example_dk_cache = \<lparr>kIOMemoryMapCacheModeDefault = 0, kIOMemoryMapCacheModeInhibit = 0x100,
     kIOMemoryMapCacheModeCopyback = 0x200, kIOMemoryMapCacheModeWriteThrough = 0x400\<rparr>"

definition example_k_cache :: kernel_cache_modes where
  "example_k_cache = \<lparr>kIOMapDefaultCache = 0, kIOMapInhibitCache = 0x100,
     kIOMapWriteCombineCache = 0x400, kIOMapAnywhere = 1\<rparr>"

definition example_answers :: dk_answers where
  "example_answers = \<lparr>copy_result = KERN_SUCCESS, returnMemory = 0x100,
     create_result = KERN_SUCCESS, mapping_object = 0x200, mapping_address = 0x7000\<rparr>"

lemma map_asks_first_matching_bar_witness:
  "\<exists>k r calls. os_map_kernel_space_dk map_libkern example_modes example_dk_cache
      (example_state [example_bar 0xfd000000, example_bar 0xe0000000]) Map.empty example_answers
      0xe0000000 0x1000 0 = Done r \<and> map_calls r = CopyDeviceMemory (of_nat k) 0x10 # calls"
proof -
  obtain st where st: "example_state [example_bar 0xfd000000, example_bar 0xe0000000] = Some (0x40, st)"
    "bars (nv_state_of st) = [example_bar 0xfd000000, example_bar 0xe0000000]"
    "device st = 0x20" "service st = 0x10" by (simp add: example_state_def)
  then have "length (bars (nv_state_of st)) < 255"
    and "\<exists>b \<in> set (bars (nv_state_of st)). cpu_address b = 0xe0000000"
    by (simp_all add: example_bar_def)
  from map_asks_first_matching_bar [OF this(1), where start = "0xe0000000" and a = "0x40"
      and K = map_libkern and M = example_modes and C = example_dk_cache and d = Map.empty
      and ans = example_answers and sz = "0x1000" and mode = 0] this(2)
  show ?thesis unfolding st(1) by (simp add: st(3,4)) blast
qed

text \<open>
  Error paths and references of the DriverKit mapping: it succeeds exactly when a BAR is
  found and both device calls succeed; then the dictionary holds the mapping under the address
  returned and owns the only reference left; on every failure the address is \<open>NULL\<close>, the
  dictionary is unchanged and every reference taken has been given back.
\<close>

lemma map_dk_ownership:
  assumes "libkern_objects K"
    and "os_map_kernel_space_dk K M C nvd d ans start sz mode = Done r"
  shows "if dk_maps nvd ans start
    then mapped_at r = mapping_address ans \<and>
      reg_find K (new_dict r) (mapping_address ans) =
        Some (IOMemoryMapObject (mapping_object ans)) \<and>
      (\<forall>x. balance (ref_events r) x =
        (if mapping_object ans = x then 1 else 0) - replaced K d (mapping_address ans) x)
    else mapped_at r = NULL \<and> new_dict r = d \<and> (\<forall>x. balance (ref_events r) x = 0)"
proof (cases "dk_maps nvd ans start")
  case True
  have "reg_find K (reg_put K d (mapping_address ans)
      (IOMemoryMapObject (mapping_object ans))) (mapping_address ans) =
      Some (IOMemoryMapObject (mapping_object ans))"
    using assms(1) by (simp add: reg_find_def reg_put_def libkern_objects.get_set)
  with True map_dk_mapped [OF True, of K M C d sz mode] assms(2) show ?thesis by auto
next
  case False
  moreover have "\<not> map_faults nvd start" using assms(2) map_dk_faults [of nvd start K M C d ans sz mode] by auto
  ultimately show ?thesis using map_dk_refused [of nvd start ans K M C d sz mode] assms(2) by auto
qed

text \<open>
  C9. Round trip on DriverKit: unmapping the address a successful mapping returned (a page
  address with no earlier entry) leaves every entry of the dictionary as it was before the
  mapping and every object with the references it had.
\<close>

theorem map_unmap_dk_roundtrip:
  assumes "libkern_objects K" and "required_cast cast"
    and "dk_maps nvd ans start"
    and "block_pointer (mapping_address ans)" and "reg_find K d (mapping_address ans) = None"
  shows "\<exists>r d' evs. os_map_kernel_space_dk K M C nvd d ans start sz mode = Done r \<and>
    os_unmap_kernel_space_dk K cast (new_dict r) (mapped_at r) sz = Done (d', evs) \<and>
    (\<forall>q. block_pointer q \<longrightarrow> reg_find K d' q = reg_find K d q) \<and>
    (\<forall>x. balance (ref_events r @ evs) x = 0)"
proof -
  let ?m = "mapping_object ans" and ?p = "mapping_address ans"
  from map_dk_mapped [OF assms(3), of K M C d sz mode] obtain r
    where r: "os_map_kernel_space_dk K M C nvd d ans start sz mode = Done r"
      and mapped: "mapped_at r = ?p" "new_dict r = reg_put K d ?p (IOMemoryMapObject ?m)"
        "\<And>x. balance (ref_events r) x = (if ?m = x then 1 else 0) - replaced K d ?p x"
    by blast
  have found: "reg_find K (new_dict r) ?p = Some (IOMemoryMapObject ?m)"
    using assms(4) by (simp add: mapped libkern_objects.block_find_put_same [OF assms(1)])
  have restored: "reg_find K (reg_del K (new_dict r) ?p) q = reg_find K d q"
    if "block_pointer q" for q
    using that assms(4,5)
    by (simp add: mapped libkern_objects.block_find_del_put [OF assms(1)])
  have "balance (ref_events r @ [Release ?m]) x = 0" for x
    using assms(5) by (simp add: mapped replaced_def)
  with restored r show ?thesis
    using unmap_found(1) [OF assms(2) found, of sz] mapped(1) by auto
qed

definition example_cast :: "os_object option \<Rightarrow> ptr option outcome" where
  "example_cast x =
     (case x of None \<Rightarrow> Done None | Some (IOMemoryMapObject m) \<Rightarrow> Done (Some m)
      | Some (OSNumber _) \<Rightarrow> Fault Panic)"

lemma example_cast_ok: "required_cast example_cast"
  by (simp add: required_cast_def example_cast_def)

lemma example_dk_maps: "dk_maps (example_state [example_bar 0xe0000000]) example_answers 0xe0000000"
  by (simp add: dk_maps_def example_state_def example_bar_def example_answers_def)

theorem map_unmap_dk_roundtrip_witness:
  "\<exists>r d' evs. os_map_kernel_space_dk map_libkern example_modes example_dk_cache
        (example_state [example_bar 0xe0000000]) Map.empty example_answers 0xe0000000 0x1000 1 = Done r \<and>
     os_unmap_kernel_space_dk map_libkern example_cast (new_dict r) (mapped_at r) 0x1000 =
       Done (d', evs)"
proof -
  have "block_pointer (mapping_address example_answers)"
    by (simp add: example_answers_def block_pointer_def canonical_def)
  moreover have "reg_find map_libkern Map.empty (mapping_address example_answers) = None"
    by (simp add: reg_find_def map_libkern_def)
  ultimately show ?thesis
    using map_unmap_dk_roundtrip [OF map_libkern.libkern_objects_axioms example_cast_ok example_dk_maps]
    by blast
qed

text \<open>
  The kernel's mapping on every branch: no BAR or an unknown mode gives \<open>NULL\<close> without
  asking the device; a mapping the device refuses is dereferenced; otherwise the dictionary
  holds the mapping under its physical address, with one reference more.
\<close>

lemma map_kernel_outcomes:
  assumes "libkern_objects K"
    and "res = os_map_kernel_space_k K M C (Some (a, st)) d ans start sz mode"
  shows "if find_bar start (bars (nv_state_of st)) 0 = 0xFF \<or> memoryMode_k M C mode = None
    then res = Done \<lparr>mapped_at = NULL, new_dict = d, ref_events = [], map_calls = []\<rparr>
    else if device st = NULL \<or> k_mapping ans = NULL then res = Fault NullDereference
    else (\<exists>r. res = Done r \<and> mapped_at r = physical_address ans \<and>
      reg_find K (new_dict r) (physical_address ans) =
        Some (IOMemoryMapObject (k_mapping ans)) \<and>
      (\<forall>x. balance (ref_events r) x =
        (if k_mapping ans = x then 1 else 0) - replaced K d (physical_address ans) x))"
  using assms(1) unfolding assms(2)
  by (auto simp: map_defs reg_find_def reg_put_def libkern_objects.get_set)

text \<open>
  \<open>os_page_mask\<close> of the DriverKit target, for a page size that is a power of two: it
  keeps the page bits of an address exactly when the address is below 4 GiB, and clears the
  upper half of every other one.  \<open>os_page_shift\<close> is the logarithm of the page size.
\<close>

lemma page_mask_dk_low_addresses:
  assumes "k < 32"
  shows "(a AND os_page_mask_dk (2 ^ k) = a AND NOT (mask k) \<longleftrightarrow> unat a < 2 ^ 32) \<and>
    unat (a AND os_page_mask_dk (2 ^ k)) < 2 ^ 32 \<and>
    unat (os_page_shift_dk (2 ^ k)) = k"
proof (intro conjI)
  let ?m = "os_page_mask_dk (2 ^ k)"
  have bits: "bit ?m n \<longleftrightarrow> k \<le> n \<and> n < 32" for n
    by (auto simp: os_page_mask_dk_def mask_eq_exp_minus_1 [symmetric]
        bit_ucast_iff bit_not_iff bit_mask_iff)
  show "a AND ?m = a AND NOT (mask k) \<longleftrightarrow> unat a < 2 ^ 32"
  proof
    assume eq: "a AND ?m = a AND NOT (mask k)"
    have "\<not> bit a n" if "32 \<le> n" for n
      using arg_cong [OF eq, of "\<lambda>w. bit w n"] that assms
      by (auto simp: bit_and_iff bit_not_iff bit_mask_iff bits dest: bit_imp_le_length)
    then show "unat a < 2 ^ 32" by (simp only: unat_less_iff_bits) blast
  next
    assume "unat a < 2 ^ 32"
    then have low: "\<forall>n. 32 \<le> n \<longrightarrow> \<not> bit a n" by (simp only: unat_less_iff_bits)
    show "a AND ?m = a AND NOT (mask k)"
    proof (rule bit_eqI)
      fix n
      show "bit (a AND ?m) n = bit (a AND NOT (mask k)) n"
        using low by (cases "n < 32")
          (auto simp: bit_and_iff bit_not_iff bit_mask_iff bits dest: bit_imp_le_length)
    qed
  qed
  have "\<forall>n. 32 \<le> n \<longrightarrow> \<not> bit (a AND ?m) n" by (simp add: bit_and_iff bits)
  then show "unat (a AND ?m) < 2 ^ 32" by (simp only: unat_less_iff_bits)
  have "takeWhile (\<lambda>i. \<not> bit (2 ^ k :: u32) i) [0..<32] = [0..<k]"
    using assms by (intro takeWhile_upt_first) (auto simp: bit_exp_iff)
  then show "unat (os_page_shift_dk (2 ^ k)) = k"
    using assms by (simp add: os_page_shift_dk_def unat_of_nat)
qed

lemma ucast_two_power: "k < 32 \<Longrightarrow> (ucast (2 ^ k :: u64) :: u32) = 2 ^ k"
  by (rule bit_eqI) (auto simp: bit_ucast_iff bit_exp_iff)

lemma mask_or_complement_iff: "a AND mask k = a AND NOT (mask k) \<longleftrightarrow> a = 0" for a :: u64
proof
  assume eq: "a AND mask k = a AND NOT (mask k)"
  have "\<not> bit a n" for n
    using arg_cong [OF eq, of "\<lambda>w. bit w n"] bit_imp_le_length [of a n]
    by (auto simp: bit_and_iff bit_not_iff bit_mask_iff)
  then show "a = 0" by (simp add: bit_eq_iff)
qed simp

text \<open>
  \<open>os_page_mask\<close>, which the resource manager takes the page of an address with, for
  pages of \<open>2 ^ k\<close> bytes.  DriverKit keeps the page bits exactly of the addresses below 4 GiB
  and clears the upper half of every other one.  The kernel takes \<open>PAGE_MASK\<close>, which on Mach
  is \<open>PAGE_SIZE - 1\<close>: it keeps the offset in the page instead, the page only of address 0.
  The sizes and shifts of both targets are right.
\<close>

lemma page_constants:
  assumes "k < 32" and "PAGE_SIZE = 2 ^ k" and "PAGE_MASK = PAGE_SIZE - 1"
    and "PAGE_SHIFT = of_nat k"
  shows "(a AND os_page_mask_dk (os_page_size_dk PAGE_SIZE) = a AND NOT (mask k) \<longleftrightarrow>
      unat a < 2 ^ 32) \<and>
    unat (a AND os_page_mask_dk (os_page_size_dk PAGE_SIZE)) < 2 ^ 32 \<and>
    a AND os_page_mask_k PAGE_MASK = a AND mask k \<and>
    (a AND os_page_mask_k PAGE_MASK = a AND NOT (mask k) \<longleftrightarrow> a = 0) \<and>
    unat (os_page_size_dk PAGE_SIZE) = 2 ^ k \<and> os_page_size_k PAGE_SIZE = os_page_size_dk PAGE_SIZE \<and>
    unat (os_page_shift_dk (os_page_size_dk PAGE_SIZE)) = k \<and>
    os_page_shift_k PAGE_SHIFT = os_page_shift_dk (os_page_size_dk PAGE_SIZE)"
proof -
  have sz: "os_page_size_dk PAGE_SIZE = 2 ^ k" "os_page_size_k PAGE_SIZE = 2 ^ k"
    using assms(1,2) by (simp_all add: os_page_size_dk_def os_page_size_k_def ucast_two_power)
  have mask: "os_page_mask_k PAGE_MASK = mask k"
    using assms(2,3) by (simp add: os_page_mask_k_def mask_eq_exp_minus_1)
  note low = page_mask_dk_low_addresses [OF assms(1), of a]
  have "unat (2 ^ k :: u32) = 2 ^ k" using assms(1) by (rule unat_u32_two_power)
  moreover have "unat (os_page_shift_k PAGE_SHIFT) = k"
    using assms(1,4) by (simp add: os_page_shift_k_def unsigned_ucast_eq unat_of_nat take_bit_nat_eq_self)
  with low have "os_page_shift_k PAGE_SHIFT = os_page_shift_dk (2 ^ k)"
    by (simp add: word_unat_eq_iff)
  ultimately show ?thesis using low by (simp add: sz mask mask_or_complement_iff)
qed

lemma page_constants_witness:
  "0xffffff8000001234 AND os_page_mask_dk (os_page_size_dk 0x1000) \<noteq> 0xffffff8000001000 \<and>
   0xffffff8000001234 AND os_page_mask_k 0xFFF \<noteq> 0xffffff8000001000"
proof -
  have vals: "(0xffffff8000001234 :: u64) AND NOT (mask 12) = 0xffffff8000001000"
    by (simp add: mask_eq_exp_minus_1)
  have "(0x1000 :: u64) = 2 ^ 12" "0xFFF = (0x1000 :: u64) - 1" "(12 :: u64) = of_nat 12" by simp_all
  from page_constants [OF _ this, of "0xffffff8000001234"]
  have "0xffffff8000001234 AND os_page_mask_dk (os_page_size_dk 0x1000) = 0xffffff8000001000 \<longleftrightarrow>
      unat (0xffffff8000001234 :: u64) < 2 ^ 32"
    and "0xffffff8000001234 AND os_page_mask_k 0xFFF = 0xffffff8000001234 AND mask 12"
    unfolding vals by simp_all
  moreover have "(0xffffff8000001234 :: u64) AND mask 12 = 0x234"
    by (simp add: mask_eq_exp_minus_1)
  ultimately show ?thesis by simp
qed

end
