(* ===== verification/MapClients.thy ===== *)
theory MapClients
  imports KernelMap
begin

text \<open>
  Whole runs of \<open>os_map_kernel_space\<close> and \<open>os_unmap_kernel_space\<close>: the composition of the
  two calls of \<open>memory_driverkit.cpp\<close> and \<open>memory_kernel.cpp\<close> over the dictionary
  \<open>global_mapped_memory\<close>.  The specification keeps a map from mapped addresses to mapping
  objects; the locale \<open>mapping_target\<close> is what a target's two calls promise, both targets
  give it, and a run refines the specification and owns one reference for each address mapped.
\<close>

section \<open>Runs and their specification\<close>

datatype 'a map_op = MapOp 'a | UnmapOp ptr u64

fun map_run ::
  "('d \<Rightarrow> 'a \<Rightarrow> ('d \<times> ref_event list) outcome) \<Rightarrow> ('d \<Rightarrow> ptr \<Rightarrow> u64 \<Rightarrow> ('d \<times> ref_event list) outcome)
   \<Rightarrow> 'd \<Rightarrow> 'a map_op list \<Rightarrow> ('d \<times> ref_event list) outcome" where
  "map_run mp unmp d [] = Done (d, [])"
| "map_run mp unmp d (op # ops) =
     (case (case op of MapOp a \<Rightarrow> mp d a | UnmapOp p sz \<Rightarrow> unmp d p sz) of
        Fault f \<Rightarrow> Fault f
      | Done (d', evs) \<Rightarrow>
          (case map_run mp unmp d' ops of
             Fault f \<Rightarrow> Fault f
           | Done (d'', evs') \<Rightarrow> Done (d'', evs @ evs')))"

text \<open>
  What a request maps: an address and the mapping object, nothing, or a fault.  Unmapping an
  address that is not mapped changes nothing.
\<close>

fun map_spec ::
  "('a \<Rightarrow> (ptr \<times> ptr) option outcome) \<Rightarrow> (ptr \<Rightarrow> ptr option) \<Rightarrow> 'a map_op list
   \<Rightarrow> (ptr \<Rightarrow> ptr option) outcome" where
  "map_spec maps live [] = Done live"
| "map_spec maps live (MapOp a # ops) =
     (case maps a of
        Fault f \<Rightarrow> Fault f
      | Done None \<Rightarrow> map_spec maps live ops
      | Done (Some (p, m)) \<Rightarrow> map_spec maps (live(p \<mapsto> m)) ops)"
| "map_spec maps live (UnmapOp p sz # ops) = map_spec maps (live(p := None)) ops"

lemma map_spec_fault: "map_spec maps live ops = Fault f \<Longrightarrow> \<exists>a. maps a = Fault f"
proof (induction ops arbitrary: live)
  case (Cons op ops)
  show ?case
  proof (cases op)
    case (MapOp a)
    with Cons show ?thesis by (auto split: outcome.splits option.splits)
  next
    case (UnmapOp p sz)
    with Cons show ?thesis by simp
  qed
qed simp

text \<open>How many addresses an object is mapped at, and how that number changes.\<close>

definition mapped_times :: "(ptr \<Rightarrow> ptr option) \<Rightarrow> ptr \<Rightarrow> int" where
  "mapped_times live x = int (card {p. live p = Some x})"

lemma mapped_times_empty: "mapped_times Map.empty x = 0"
  by (simp add: mapped_times_def)

lemma finite_mapped: "finite {p. live p = Some x}" for live :: "ptr \<Rightarrow> ptr option"
  by simp

lemma mapped_times_del:
  "mapped_times (live(p := None)) x = mapped_times live x - (if live p = Some x then 1 else 0)"
proof (cases "live p = Some x")
  case True
  have "{q. live q = Some x} = insert p {q. (live(p := None)) q = Some x}" using True by auto
  moreover have "p \<notin> {q. (live(p := None)) q = Some x}" by simp
  ultimately have "card {q. live q = Some x} = Suc (card {q. (live(p := None)) q = Some x})"
    by (metis card_insert_disjoint finite_mapped)
  with True show ?thesis by (simp add: mapped_times_def)
next
  case False
  then have "{q. (live(p := None)) q = Some x} = {q. live q = Some x}" by auto
  with False show ?thesis by (simp add: mapped_times_def)
qed

lemma mapped_times_put:
  "mapped_times (live(p \<mapsto> m)) x =
    mapped_times live x + (if m = x then 1 else 0) - (if live p = Some x then 1 else 0)"
proof -
  have "mapped_times (live(p := None)) x =
      mapped_times (live(p \<mapsto> m)) x - (if m = x then 1 else 0)"
    using mapped_times_del [of "live(p \<mapsto> m)" p x] by simp
  with mapped_times_del [of live p x] show ?thesis by simp
qed

text \<open>The simulation relation, and the addresses a run may use.\<close>

definition mirrors :: "'d libkern \<Rightarrow> 'd \<Rightarrow> (ptr \<Rightarrow> ptr option) \<Rightarrow> bool" where
  "mirrors K d live \<longleftrightarrow>
     (\<forall>p. block_pointer p \<longrightarrow> reg_find K d p = map_option IOMemoryMapObject (live p))"

definition good_op :: "('a \<Rightarrow> (ptr \<times> ptr) option outcome) \<Rightarrow> 'a map_op \<Rightarrow> bool" where
  "good_op maps op \<longleftrightarrow> (case op of
       MapOp a \<Rightarrow> (\<forall>p m. maps a = Done (Some (p, m)) \<longrightarrow> block_pointer p)
     | UnmapOp p _ \<Rightarrow> block_pointer p)"

text \<open>The map a dictionary is taken for: its mappings under usable addresses.\<close>

definition mapped_view :: "'d libkern \<Rightarrow> 'd \<Rightarrow> ptr \<Rightarrow> ptr option" where
  "mapped_view K d p = Option.bind (block_view K d p) mapping_of"

lemma mapped_view_mirrors:
  assumes "mirrors K d live" and "\<forall>p. live p \<noteq> None \<longrightarrow> block_pointer p"
  shows "mapped_view K d = live"
proof
  fix p
  show "mapped_view K d p = live p"
    using assms by (cases "live p") (auto simp: mapped_view_def block_view_def mirrors_def)
qed

section \<open>The contract of a target\<close>

locale mapping_target = libkern_objects K for K :: "'d libkern" +
  fixes mp :: "'d \<Rightarrow> 'a \<Rightarrow> ('d \<times> ref_event list) outcome"
    and unmp :: "'d \<Rightarrow> ptr \<Rightarrow> u64 \<Rightarrow> ('d \<times> ref_event list) outcome"
    and maps :: "'a \<Rightarrow> (ptr \<times> ptr) option outcome"
  assumes mp_fault: "maps a = Fault f \<Longrightarrow> mp d a = Fault f"
    and mp_none: "maps a = Done None \<Longrightarrow>
      \<exists>evs. mp d a = Done (d, evs) \<and> (\<forall>x. balance evs x = 0)"
    and mp_some: "maps a = Done (Some (p, m)) \<Longrightarrow>
      \<exists>evs. mp d a = Done (reg_put K d p (IOMemoryMapObject m), evs) \<and>
        (\<forall>x. balance evs x = (if m = x then 1 else 0) - replaced K d p x)"
    and unmp_none: "reg_find K d p = None \<Longrightarrow> unmp d p sz = Done (d, [])"
    and unmp_some: "reg_find K d p = Some (IOMemoryMapObject m) \<Longrightarrow>
      unmp d p sz = Done (reg_del K d p, [Release m])"
begin

lemma mirrors_put: "mirrors K d live \<Longrightarrow> block_pointer p \<Longrightarrow>
    mirrors K (reg_put K d p (IOMemoryMapObject m)) (live(p \<mapsto> m))"
  by (simp add: mirrors_def blocks.find_put)

lemma mirrors_del: "mirrors K d live \<Longrightarrow> block_pointer p \<Longrightarrow>
    mirrors K (reg_del K d p) (live(p := None))"
  by (simp add: mirrors_def blocks.find_del)

lemma mirrors_replaced: "mirrors K d live \<Longrightarrow> block_pointer p \<Longrightarrow>
    replaced K d p x = (if live p = Some x then 1 else 0)"
  by (auto simp: mirrors_def replaced_def)

lemma map_step_simulated:
  assumes "mirrors K d live" and "block_pointer p" and "maps a = Done (Some (p, m))"
  shows "\<exists>d' evs. mp d a = Done (d', evs) \<and> mirrors K d' (live(p \<mapsto> m)) \<and>
    (\<forall>x. balance evs x = mapped_times (live(p \<mapsto> m)) x - mapped_times live x)"
  using mp_some [OF assms(3), of d] mirrors_put [OF assms(1,2), of m]
    mirrors_replaced [OF assms(1,2)]
  by (auto simp: mapped_times_put)

lemma unmap_step_simulated:
  assumes "mirrors K d live" and "block_pointer p"
  shows "\<exists>d' evs. unmp d p sz = Done (d', evs) \<and> mirrors K d' (live(p := None)) \<and>
    (\<forall>x. balance evs x = mapped_times (live(p := None)) x - mapped_times live x)"
proof -
  from assms have found: "reg_find K d p = map_option IOMemoryMapObject (live p)"
    by (simp add: mirrors_def)
  show ?thesis
  proof (cases "live p")
    case None
    then have "live(p := None) = live" by auto
    with None found assms(1) unmp_none [of d p sz] show ?thesis by simp
  next
    case (Some m)
    with found unmp_some [of d p m sz] mirrors_del [OF assms] show ?thesis
      by (simp add: mapped_times_del)
  qed
qed

lemma map_run_simulates:
  "mirrors K d live \<Longrightarrow> \<forall>op \<in> set ops. good_op maps op \<Longrightarrow>
   (case map_spec maps live ops of
      Fault f \<Rightarrow> map_run mp unmp d ops = Fault f
    | Done live' \<Rightarrow> \<exists>d' evs. map_run mp unmp d ops = Done (d', evs) \<and> mirrors K d' live' \<and>
        (\<forall>x. balance evs x = mapped_times live' x - mapped_times live x))"
proof (induction ops arbitrary: d live)
  case Nil
  then show ?case by simp
next
  case (Cons op ops)
  have chain: "case map_spec maps live1 ops of
      Fault f \<Rightarrow> map_run mp unmp d (op # ops) = Fault f
    | Done live' \<Rightarrow> \<exists>d' evs. map_run mp unmp d (op # ops) = Done (d', evs) \<and> mirrors K d' live' \<and>
        (\<forall>x. balance evs x = mapped_times live' x - mapped_times live x)"
    if st: "(case op of MapOp a \<Rightarrow> mp d a | UnmapOp p sz \<Rightarrow> unmp d p sz) = Done (d1, evs)"
      "mirrors K d1 live1" "\<forall>x. balance evs x = mapped_times live1 x - mapped_times live x"
    for d1 evs live1
  proof -
    from Cons.prems(2) have "\<forall>op \<in> set ops. good_op maps op" by simp
    from Cons.IH [OF st(2) this] st(1,3) show ?thesis by (auto split: outcome.splits)
  qed
  show ?case
  proof (cases op)
    case (UnmapOp p sz)
    with Cons.prems(2) have "block_pointer p" by (simp add: good_op_def)
    from unmap_step_simulated [OF Cons.prems(1) this, of sz] obtain d1 evs
      where st: "unmp d p sz = Done (d1, evs)" "mirrors K d1 (live(p := None))"
        "\<forall>x. balance evs x = mapped_times (live(p := None)) x - mapped_times live x" by blast
    have "map_spec maps live (op # ops) = map_spec maps (live(p := None)) ops"
      by (simp add: UnmapOp)
    then show ?thesis using chain [OF _ st(2,3)] st(1) UnmapOp by simp
  next
    case (MapOp a)
    show ?thesis
    proof (cases "maps a")
      case (Fault f)
      with MapOp mp_fault [OF Fault, of d] show ?thesis by simp
    next
      case (Done r)
      show ?thesis
      proof (cases r)
        case None
        with Done mp_none [of a d] obtain evs
          where st: "mp d a = Done (d, evs)" "\<forall>x. balance evs x = 0" by blast
        have "map_spec maps live (op # ops) = map_spec maps live ops"
          by (simp add: MapOp Done None)
        then show ?thesis using chain [OF _ Cons.prems(1)] st MapOp by simp
      next
        case (Some pm)
        obtain p m where pm: "pm = (p, m)" by (metis surj_pair)
        with Some Done MapOp Cons.prems(2) have good: "block_pointer p" by (simp add: good_op_def)
        from Done Some pm have maps: "maps a = Done (Some (p, m))" by simp
        from map_step_simulated [OF Cons.prems(1) good maps] obtain d1 evs
          where st: "mp d a = Done (d1, evs)" "mirrors K d1 (live(p \<mapsto> m))"
            "\<forall>x. balance evs x = mapped_times (live(p \<mapsto> m)) x - mapped_times live x" by blast
        have "map_spec maps live (op # ops) = map_spec maps (live(p \<mapsto> m)) ops"
          by (simp add: MapOp maps)
        then show ?thesis using chain [OF _ st(2,3)] st(1) MapOp by simp
      qed
    qed
  qed
qed

text \<open>One call, on the map the dictionary is taken for.\<close>

lemma map_spec_blocks:
  "\<forall>p. live p \<noteq> None \<longrightarrow> block_pointer p \<Longrightarrow> good_op maps op \<Longrightarrow>
   map_spec maps live [op] = Done live' \<Longrightarrow> \<forall>p. live' p \<noteq> None \<longrightarrow> block_pointer p"
  by (cases op) (auto simp: good_op_def split: outcome.splits option.splits if_splits)

lemma view_step:
  assumes "mirrors K d (mapped_view K d)" and "good_op maps op"
    and run: "map_run mp unmp d [op] = Done (d', evs)"
  shows "mirrors K d' (mapped_view K d')"
    and "balance evs x = mapped_times (mapped_view K d') x - mapped_times (mapped_view K d) x"
proof -
  have "\<forall>op \<in> set [op]. good_op maps op" using assms(2) by simp
  from map_run_simulates [OF assms(1) this] run obtain live' where
    spec: "map_spec maps (mapped_view K d) [op] = Done live'" and
    sim: "mirrors K d' live'"
      "\<forall>x. balance evs x = mapped_times live' x - mapped_times (mapped_view K d) x"
    by (auto split: outcome.splits)
  have "\<forall>p. mapped_view K d p \<noteq> None \<longrightarrow> block_pointer p"
    by (simp add: mapped_view_def block_view_def)
  from mapped_view_mirrors [OF sim(1) map_spec_blocks [OF this assms(2) spec]] sim
  show "mirrors K d' (mapped_view K d')"
    and "balance evs x = mapped_times (mapped_view K d') x - mapped_times (mapped_view K d) x"
    by simp_all
qed

end

section \<open>The two targets\<close>

text \<open>A request: the answers of the device to it, and the arguments of the call.\<close>

type_synonym 'a map_request = "'a \<times> u64 \<times> u64 \<times> u32"

fun request_dk ::
  "'d libkern \<Rightarrow> nv_memory_modes \<Rightarrow> driverkit_cache_modes \<Rightarrow> nvd_pointer
   \<Rightarrow> 'd \<Rightarrow> dk_answers map_request \<Rightarrow> ('d \<times> ref_event list) outcome" where
  "request_dk K M C st d (ans, start, sz, mode) =
     (case os_map_kernel_space_dk K M C st d ans start sz mode of
        Fault f \<Rightarrow> Fault f
      | Done r \<Rightarrow> Done (new_dict r, ref_events r))"

fun request_k ::
  "'d libkern \<Rightarrow> nv_memory_modes \<Rightarrow> kernel_cache_modes \<Rightarrow> nvd_pointer
   \<Rightarrow> 'd \<Rightarrow> k_answers map_request \<Rightarrow> ('d \<times> ref_event list) outcome" where
  "request_k K M C st d (ans, start, sz, mode) =
     (case os_map_kernel_space_k K M C st d ans start sz mode of
        Fault f \<Rightarrow> Fault f
      | Done r \<Rightarrow> Done (new_dict r, ref_events r))"

fun maps_dk :: "nvd_pointer \<Rightarrow> dk_answers map_request \<Rightarrow> (ptr \<times> ptr) option outcome" where
  "maps_dk st (ans, start, sz, mode) =
     (if map_faults st start then Fault NullDereference
      else Done (if dk_maps st ans start then Some (mapping_address ans, mapping_object ans)
                 else None))"

fun maps_k ::
  "nv_memory_modes \<Rightarrow> kernel_cache_modes \<Rightarrow> nvd_pointer \<Rightarrow> k_answers map_request
   \<Rightarrow> (ptr \<times> ptr) option outcome" where
  "maps_k M C st (ans, start, sz, mode) =
     (if st = None then Fault NullDereference
      else if \<not> bar_found st start \<or> memoryMode_k M C mode = None then Done None
      else if \<not> device_present st \<or> k_mapping ans = NULL then Fault NullDereference
      else Done (Some (physical_address ans, k_mapping ans)))"

text \<open>The dictionary class with the cast, which lets an unmapped address pass.\<close>

locale mapping_system = libkern_objects K for K :: "'d libkern" +
  fixes cast :: "os_object option \<Rightarrow> ptr option outcome"
  assumes cast_required: "required_cast cast"
    and cast_null: "cast None = Done None"
begin

lemma unmap_calls:
  "reg_find K d p = None \<Longrightarrow> os_unmap_kernel_space_dk K cast d p sz = Done (d, [])"
  "reg_find K d p = None \<Longrightarrow> os_unmap_kernel_space_k K cast d p sz = Done (d, [])"
  by (simp_all add: map_defs cast_null)

lemma request_dk_some:
  "maps_dk st a = Done (Some (p, m)) \<Longrightarrow> \<exists>evs. request_dk K M C st d a =
     Done (reg_put K d p (IOMemoryMapObject m), evs) \<and>
     (\<forall>x. balance evs x = (if m = x then 1 else 0) - replaced K d p x)"
  using map_dk_mapped [of st "fst a" "fst (snd a)" K M C d "fst (snd (snd a))" "snd (snd (snd a))"]
  by (cases a) (auto split: if_splits)

lemma request_dk_none:
  "maps_dk st a = Done None \<Longrightarrow> \<exists>evs. request_dk K M C st d a = Done (d, evs) \<and>
     (\<forall>x. balance evs x = 0)"
  using map_dk_refused [of st "fst (snd a)" "fst a" K M C d "fst (snd (snd a))" "snd (snd (snd a))"]
  by (cases a) (auto split: if_splits)

lemma request_dk_fault: "maps_dk st a = Fault f \<Longrightarrow> request_dk K M C st d a = Fault f"
  by (cases a) (auto simp: map_dk_faults split: if_splits)

lemma request_k_some:
  "maps_k M C st a = Done (Some (p, m)) \<Longrightarrow> \<exists>evs. request_k K M C st d a =
     Done (reg_put K d p (IOMemoryMapObject m), evs) \<and>
     (\<forall>x. balance evs x = (if m = x then 1 else 0) - replaced K d p x)"
  by (cases a; cases st) (auto simp: map_defs split: if_splits option.splits)

lemma request_k_none:
  "maps_k M C st a = Done None \<Longrightarrow> \<exists>evs. request_k K M C st d a = Done (d, evs) \<and>
     (\<forall>x. balance evs x = 0)"
  by (cases a; cases st) (auto simp: map_defs split: if_splits option.splits)

lemma request_k_fault:
  "maps_k M C st a = Fault f \<Longrightarrow> request_k K M C st d a = Fault f"
  by (cases a; cases st) (auto simp: map_defs split: if_splits option.splits)

end

sublocale mapping_system \<subseteq> dk: mapping_target
  K "request_dk K M C st" "os_unmap_kernel_space_dk K cast" "maps_dk st" for M C st
  by (unfold_locales;
      (rule request_dk_fault request_dk_none request_dk_some unmap_calls(1)
          unmap_found(1) [OF cast_required], assumption))

sublocale mapping_system \<subseteq> kx: mapping_target
  K "request_k K M C st" "os_unmap_kernel_space_k K cast" "maps_k M C st" for M C st
  by (unfold_locales;
      (rule request_k_fault request_k_none request_k_some unmap_calls(2)
          unmap_found(2) [OF cast_required], assumption))

context mapping_system
begin

lemmas dk_run_simulates = dk.map_run_simulates
lemmas k_run_simulates = kx.map_run_simulates
lemmas dk_view_step = dk.view_step
lemmas dk_unmap_step = dk.unmap_step_simulated
lemmas dk_spec_blocks = dk.map_spec_blocks
lemmas k_view_step = kx.view_step
lemmas k_unmap_step = kx.unmap_step_simulated

end

interpretation map_system: mapping_system map_libkern example_cast
  by unfold_locales (simp_all add: example_cast_ok, simp add: example_cast_def)

section \<open>Properties\<close>

lemma empty_mirrors: "\<forall>k. get_object K d k = None \<Longrightarrow> mirrors K d Map.empty"
  by (simp add: mirrors_def reg_find_def)

text \<open>
  C12. Refinement on DriverKit: any sequence of mappings and unmappings, over page addresses
  and from an empty dictionary, behaves like a map from addresses to mapping objects.  It
  faults only at a mapping when there is no state, or a BAR to map but no device; otherwise the
  dictionary ends with the entries of that map, and the references left on an object are the
  number of addresses it is mapped at: nothing leaks and nothing is released early.
\<close>

theorem map_runs_refine_dk:
  assumes "mapping_system K cast" and "\<forall>k. get_object K d k = None"
    and "\<forall>op \<in> set ops. good_op (maps_dk nvd) op"
  shows "case map_spec (maps_dk nvd) Map.empty ops of
      Fault f \<Rightarrow> f = NullDereference \<and> \<not> device_present nvd \<and>
        map_run (request_dk K M C nvd) (os_unmap_kernel_space_dk K cast) d ops = Fault f
    | Done live \<Rightarrow> \<exists>d' evs.
        map_run (request_dk K M C nvd) (os_unmap_kernel_space_dk K cast) d ops = Done (d', evs) \<and>
        mirrors K d' live \<and> (\<forall>x. balance evs x = mapped_times live x)"
proof -
  have "f = NullDereference \<and> \<not> device_present nvd"
    if "map_spec (maps_dk nvd) Map.empty ops = Fault f" for f
    using map_spec_fault [OF that] by (cases nvd) (auto simp: map_faults_def split: if_splits)
  with mapping_system.dk_run_simulates [OF assms(1) empty_mirrors [OF assms(2)] assms(3),
      where M = M and C = C]
  show ?thesis by (simp add: mapped_times_empty split: outcome.splits)
qed

theorem map_runs_refine_dk_witness:
  "\<exists>d' evs. map_run (request_dk map_libkern example_modes example_dk_cache
        (example_state [example_bar 0xe0000000])) (os_unmap_kernel_space_dk map_libkern example_cast)
      Map.empty [MapOp (example_answers, 0xe0000000, 0x1000, 1), UnmapOp 0x7000 0x1000,
        UnmapOp 0x7000 0x1000, MapOp (example_answers, 0xe0000000, 0x1000, 0)] = Done (d', evs) \<and>
    balance evs 0x200 = 1"
proof -
  let ?st = "example_state [example_bar 0xe0000000]"
  let ?ops = "[MapOp (example_answers, 0xe0000000, 0x1000, 1), UnmapOp 0x7000 0x1000,
        UnmapOp 0x7000 0x1000, MapOp (example_answers, 0xe0000000, 0x1000, 0)]"
  have ans: "mapping_address example_answers = 0x7000" "mapping_object example_answers = 0x200"
    by (simp_all add: example_answers_def)
  have maps: "maps_dk ?st (example_answers, 0xe0000000, sz, mode) = Done (Some (0x7000, 0x200))"
    for sz mode
    using map_faults_not_maps example_dk_maps by (auto simp: ans)
  have empty: "\<forall>k. get_object map_libkern Map.empty k = None" by (simp add: map_libkern_empty)
  have "\<forall>op \<in> set ?ops. good_op (maps_dk ?st) op"
    by (simp add: good_op_def maps block_pointer_def canonical_def del: maps_dk.simps)
  note run = map_runs_refine_dk [OF map_system.mapping_system_axioms empty this,
      where M = example_modes and C = example_dk_cache]
  have spec: "map_spec (maps_dk ?st) Map.empty ?ops = Done [0x7000 \<mapsto> 0x200]"
    by (simp add: maps del: maps_dk.simps)
  have "mapped_times [0x7000 \<mapsto> 0x200] 0x200 = 1"
    by (simp add: mapped_times_put mapped_times_empty)
  with run show ?thesis unfolding spec outcome.case by metis
qed

text \<open>The calls that fault in the kernel, and the calls before the first of them.\<close>

fun map_faults_k ::
  "nv_memory_modes \<Rightarrow> kernel_cache_modes \<Rightarrow> nvd_pointer \<Rightarrow> k_answers map_request map_op \<Rightarrow> bool" where
  "map_faults_k M C st (UnmapOp p sz) \<longleftrightarrow> False"
| "map_faults_k M C st (MapOp (ans, start, sz, mode)) \<longleftrightarrow>
     st = None \<or>
     bar_found st start \<and> memoryMode_k M C mode \<noteq> None \<and>
       (\<not> device_present st \<or> k_mapping ans = NULL)"

lemma maps_k_fault: "maps_k M C st a = Fault f \<longleftrightarrow> f = NullDereference \<and> map_faults_k M C st (MapOp a)"
  by (cases a) (auto simp del: not_None_eq)

lemma map_spec_calm:
  "\<forall>op \<in> set ops. \<not> map_faults_k M C st op \<Longrightarrow> \<exists>live'. map_spec (maps_k M C st) live ops = Done live'"
proof (induction ops arbitrary: live)
  case (Cons op ops)
  show ?case
  proof (cases op)
    case (MapOp a)
    with Cons.prems have "maps_k M C st a \<noteq> Fault f" for f by (simp add: maps_k_fault)
    with MapOp Cons show ?thesis by (cases "maps_k M C st a") (auto split: option.splits)
  qed (use Cons in simp)
qed simp

lemma map_spec_not_calm:
  "op \<in> set ops \<Longrightarrow> map_faults_k M C st op \<Longrightarrow>
   map_spec (maps_k M C st) live ops = Fault NullDereference"
proof (induction ops arbitrary: live)
  case (Cons op' ops)
  show ?case
  proof (cases op')
    case (MapOp a)
    show ?thesis
    proof (cases "map_faults_k M C st op'")
      case True
      with MapOp have "maps_k M C st a = Fault NullDereference" by (simp add: maps_k_fault)
      with MapOp show ?thesis by simp
    next
      case False
      with MapOp have "maps_k M C st a \<noteq> Fault f" for f by (simp add: maps_k_fault)
      with MapOp False Cons show ?thesis by (cases "maps_k M C st a") (auto split: option.splits)
    qed
  next
    case (UnmapOp p sz)
    with Cons show ?thesis by auto
  qed
qed simp

text \<open>
  C25. Refinement in the kernel: a run returns exactly when none of its mappings is made without
  a global state, or for a BAR found and a known mode without a device or with a mapping the
  device refuses; else it faults at the first such call.  The calls before that, or all of them,
  behave like a map from (physical) addresses to mapping objects and leave one reference for
  each address an object is mapped at.
\<close>

theorem map_runs_refine_k:
  assumes "mapping_system K cast" and "\<forall>k. get_object K d k = None"
    and "\<forall>op \<in> set ops. good_op (maps_k M C st) op"
  shows "let run = map_run (request_k K M C st) (os_unmap_kernel_space_k K cast) d;
             calm = takeWhile (\<lambda>op. \<not> map_faults_k M C st op) ops
    in (\<exists>live d' evs. map_spec (maps_k M C st) Map.empty calm = Done live \<and>
          run calm = Done (d', evs) \<and>
          mirrors K d' live \<and> (\<forall>x. balance evs x = mapped_times live x)) \<and>
       (calm \<noteq> ops \<longrightarrow> run ops = Fault NullDereference)"
proof -
  note run = mapping_system.k_run_simulates [OF assms(1) empty_mirrors [OF assms(2)]]
  let ?calm = "takeWhile (\<lambda>op. \<not> map_faults_k M C st op) ops"
  have "\<forall>op \<in> set ?calm. \<not> map_faults_k M C st op" by (auto dest: set_takeWhileD)
  then obtain live where live: "map_spec (maps_k M C st) Map.empty ?calm = Done live"
    using map_spec_calm by blast
  have "\<forall>op \<in> set ?calm. good_op (maps_k M C st) op" using assms(3) by (auto dest: set_takeWhileD)
  from run [OF this] live have "\<exists>d' evs.
      map_run (request_k K M C st) (os_unmap_kernel_space_k K cast) d ?calm = Done (d', evs) \<and>
      mirrors K d' live \<and> (\<forall>x. balance evs x = mapped_times live x)"
    by (simp add: mapped_times_empty)
  moreover have "map_run (request_k K M C st) (os_unmap_kernel_space_k K cast) d ops =
      Fault NullDereference" if "?calm \<noteq> ops"
  proof -
    from that obtain op where "op \<in> set ops" "map_faults_k M C st op"
      by (auto simp: takeWhile_eq_all_conv)
    from map_spec_not_calm [OF this] run [OF assms(3)] show ?thesis by simp
  qed
  ultimately show ?thesis using live by (auto simp: Let_def)
qed

theorem map_runs_refine_k_witness:
  "map_run (request_k map_libkern example_modes example_k_cache
        (example_state [example_bar 0xe0000000])) (os_unmap_kernel_space_k map_libkern example_cast)
      Map.empty
      [MapOp (\<lparr>k_mapping = 0x200, physical_address = 0xe0000000\<rparr>, 0xe0000000, 0x1000, 1),
       MapOp (\<lparr>k_mapping = 0x300, physical_address = 0xe0000000\<rparr>, 0xe0000000, 0x1000, 1),
       MapOp (\<lparr>k_mapping = 0, physical_address = 0\<rparr>, 0xe0000000, 0x1000, 1)] =
      Fault NullDereference \<and>
   (\<exists>d' evs. map_run (request_k map_libkern example_modes example_k_cache
        (example_state [example_bar 0xe0000000])) (os_unmap_kernel_space_k map_libkern example_cast)
      Map.empty
      [MapOp (\<lparr>k_mapping = 0x200, physical_address = 0xe0000000\<rparr>, 0xe0000000, 0x1000, 1),
       MapOp (\<lparr>k_mapping = 0x300, physical_address = 0xe0000000\<rparr>, 0xe0000000, 0x1000, 1)] =
      Done (d', evs) \<and> balance evs 0x200 = 0 \<and> balance evs 0x300 = 1)"
proof -
  let ?st = "example_state [example_bar 0xe0000000]"
  let ?maps = "maps_k example_modes example_k_cache ?st"
  let ?faults = "map_faults_k example_modes example_k_cache ?st"
  let ?calm = "[MapOp (\<lparr>k_mapping = 0x200, physical_address = 0xe0000000\<rparr>, 0xe0000000, 0x1000, 1),
       MapOp (\<lparr>k_mapping = 0x300, physical_address = 0xe0000000\<rparr>, 0xe0000000, 0x1000, 1)]"
  let ?bad = "MapOp (\<lparr>k_mapping = 0, physical_address = 0\<rparr>, 0xe0000000, 0x1000, 1)"
  have env: "?st \<noteq> None" "bar_found ?st 0xe0000000" "device_present ?st"
      "memoryMode_k example_modes example_k_cache 1 \<noteq> None"
    by (simp_all add: example_state_def example_bar_def memoryMode_k_def example_modes_def)
  have maps: "?maps (\<lparr>k_mapping = m, physical_address = 0xe0000000\<rparr>, 0xe0000000, 0x1000, 1) =
      Done (Some (0xe0000000, m))" if "m \<noteq> 0" for m
    using that env by simp
  have refused: "?maps (\<lparr>k_mapping = 0, physical_address = 0\<rparr>, 0xe0000000, 0x1000, 1) = Fault NullDereference"
    using env by simp
  have faults: "?faults ?bad" "\<forall>op \<in> set ?calm. \<not> ?faults op" using env by simp_all
  have empty: "\<forall>k. get_object map_libkern Map.empty k = None" by (simp add: map_libkern_empty)
  have "\<forall>op \<in> set (?calm @ [?bad]). good_op ?maps op"
    by (simp add: good_op_def maps refused block_pointer_def canonical_def del: maps_k.simps)
  note run = map_runs_refine_k [OF map_system.mapping_system_axioms empty this]
  have calm: "takeWhile (\<lambda>op. \<not> ?faults op) (?calm @ [?bad]) = ?calm"
    using faults by (simp del: map_faults_k.simps)
  have spec: "map_spec ?maps Map.empty ?calm = Done [0xe0000000 \<mapsto> 0x300]"
    by (simp add: maps del: maps_k.simps)
  have "mapped_times [0xe0000000 \<mapsto> 0x300] 0x200 = 0" "mapped_times [0xe0000000 \<mapsto> 0x300] 0x300 = 1"
    by (simp_all add: mapped_times_put mapped_times_empty)
  with run show ?thesis unfolding Let_def calm spec by auto
qed

end
