(* ===== verification/DmaPages.thy ===== *)
theory DmaPages
  imports KernelMap
begin

text \<open>
  Page allocation and its mappings: \<open>nv_alloc_pages\<close>, \<open>nv_free_pages\<close>,
  \<open>nv_alloc_kernel_mapping\<close>, \<open>nv_alloc_user_mapping\<close> and their counterparts of
  \<open>memory_driverkit.cpp\<close> (suffix \<open>_dk\<close>) and \<open>memory_kernel.cpp\<close> (suffix \<open>_k\<close>).  The
  answers of the memory objects are arguments, the page table is a list updated by index, and
  the private data handed to the client is a tagged value, so that a cast to the wrong class
  is a fault.  The locale \<open>page_mapper\<close> is the address computation the four mapping
  functions share.
\<close>

section \<open>Private data and results\<close>

datatype priv_data =
    Descriptor ptr            \<comment> \<open>an \<open>IOBufferMemoryDescriptor\<close>\<close>
  | Pairing ptr ptr ptr       \<comment> \<open>a \<open>DMACommandDescriptorPairing\<close>: its address, command, descriptor\<close>

datatype dma_call_made =
    CreateBuffer u64 u64 u64             \<comment> \<open>options, capacity, alignment\<close>
  | InTaskWithPhysicalMask u32 u64 u64   \<comment> \<open>options, capacity, physical mask\<close>
  | Prepare ptr
  | Complete ptr
  | WithSpecification u64 u64            \<comment> \<open>maximum segment size, maximum transfer size\<close>
  | SetMemoryDescriptor ptr ptr
  | ClearMemoryDescriptor ptr
  | Bzero u64 u64

record alloc_result =
  alloc_status :: nv_status
  ptes :: "u64 list"
  priv :: "priv_data option"
  alloc_refs :: "ref_event list"
  alloc_calls :: "dma_call_made list"

definition nv_alias_pages_dk :: nv_status where
  "nv_alias_pages_dk = NV_ERR_NOT_SUPPORTED"

definition nv_alias_pages_k :: nv_status where
  "nv_alias_pages_k = NV_ERR_NOT_SUPPORTED"

section \<open>DriverKit\<close>

text \<open>
  \<open>page_count * page_size\<close> is computed in 64 bits; the clamp
  \<open>page_count * 1 * 1024 * 1024 * 1024\<close> in 32 bits, the type of \<open>page_count\<close>.
\<close>

definition total_size_dk :: "u32 \<Rightarrow> u64 \<Rightarrow> u64" where
  "total_size_dk page_count page_size =
     (let totalSize = ucast page_count * page_size in
      if 1 * 1024 * 1024 * 1024 \<le> totalSize
      then ucast (page_count * 1 * 1024 * 1024 * 1024)
      else totalSize)"

text \<open>The loop over the pages, at index \<open>i\<close> with \<open>n\<close> pages to go; \<open>i\<close> is an \<open>int\<close>.\<close>

fun fill_ptes :: "u64 \<Rightarrow> u64 \<Rightarrow> nat \<Rightarrow> nat \<Rightarrow> u64 list \<Rightarrow> u64 list outcome" where
  "fill_ptes base page_size i 0 pte_array = Done pte_array"
| "fill_ptes base page_size i (Suc n) pte_array =
     (case store_at i (base + of_nat i * page_size) pte_array of
        Fault f \<Rightarrow> Fault f
      | Done pte_array' \<Rightarrow>
          if i = 2 ^ 31 - 1 then Fault SignedOverflow
          else fill_ptes base page_size (Suc i) n pte_array')"

text \<open>The answers: of \<open>IOBufferMemoryDescriptor::Create\<close> and of \<open>GetAddressRange\<close>.\<close>

record dk_buffer =
  buffer_result :: kern_return
  buffer_object :: ptr
  range_address :: u64
  range_length :: u64

definition nv_alloc_pages_dk ::
  "u64 \<Rightarrow> dk_buffer \<Rightarrow> u32 \<Rightarrow> u64 \<Rightarrow> bool \<Rightarrow> bool \<Rightarrow> u64 list \<Rightarrow> alloc_result outcome" where
  "nv_alloc_pages_dk kIOMemoryDirectionInOut ans page_count page_size contiguous zeroed pte_array =
     (let totalSize = total_size_dk page_count page_size;
          create = CreateBuffer kIOMemoryDirectionInOut totalSize 0
      in
      if buffer_result ans \<noteq> KERN_SUCCESS then
        Done \<lparr>alloc_status = NV_ERR_NO_MEMORY, ptes = pte_array, priv = None,
              alloc_refs = [], alloc_calls = [create]\<rparr>
      else if range_address ans = NULL then Fault Panic
      else
        (case (if contiguous then store_at 0 (range_address ans) pte_array
               else fill_ptes (range_address ans) page_size 0 (unat page_count) pte_array) of
           Fault f \<Rightarrow> Fault f
         | Done pte_array' \<Rightarrow>
             Done \<lparr>alloc_status = NV_OK, ptes = pte_array',
                   priv = Some (Descriptor (buffer_object ans)),
                   alloc_refs = [Obtain (buffer_object ans)],
                   alloc_calls = create #
                     (if zeroed then [Bzero (range_address ans) (range_length ans)] else [])\<rparr>))"

definition nv_free_pages_dk :: "priv_data \<Rightarrow> (nv_status \<times> ref_event list) outcome" where
  "nv_free_pages_dk priv_data =
     (case priv_data of
        Descriptor d \<Rightarrow> Done (NV_OK, [Release d])
      | Pairing _ _ _ \<Rightarrow> Fault WrongObjectType)"

text \<open>\<open>address_of\<close> is the start of a descriptor's \<open>GetAddressRange\<close>.\<close>

definition nv_alloc_kernel_mapping_dk ::
  "u32 \<Rightarrow> (ptr \<Rightarrow> u64) \<Rightarrow> priv_data \<Rightarrow> u64 \<Rightarrow> u32 \<Rightarrow> u64 \<Rightarrow> u64 outcome" where
  "nv_alloc_kernel_mapping_dk os_page_size address_of pAllocPrivate pageIndex pageOffset sz =
     (case pAllocPrivate of
        Descriptor d \<Rightarrow>
          Done (address_of d + pageIndex * ucast os_page_size + ucast pageOffset)
      | Pairing _ _ _ \<Rightarrow> Fault WrongObjectType)"

definition nv_free_kernel_mapping_dk :: nv_status where
  "nv_free_kernel_mapping_dk = NV_OK"

text \<open>The status and what was stored through \<open>pUserAddress\<close>.\<close>

definition nv_alloc_user_mapping_dk ::
  "u32 \<Rightarrow> (ptr \<Rightarrow> u64) \<Rightarrow> priv_data \<Rightarrow> u64 \<Rightarrow> u32 \<Rightarrow> u64 \<Rightarrow> (nv_status \<times> u64) outcome" where
  "nv_alloc_user_mapping_dk os_page_size address_of pAllocPrivate pageIndex pageOffset sz =
     (case pAllocPrivate of
        Descriptor d \<Rightarrow>
          Done (NV_OK, address_of d + pageIndex * ucast os_page_size + ucast pageOffset)
      | Pairing _ _ _ \<Rightarrow> Fault WrongObjectType)"

definition nv_free_user_mapping_dk :: nv_status where
  "nv_free_user_mapping_dk = NV_OK"

section \<open>Kernel\<close>

record kernel_buffer_flags =
  kIODirectionInOut :: u32
  kIOMemoryPhysicallyContiguous :: u32

text \<open>The switch on the cache type; \<open>None\<close> is its default branch.\<close>

definition bufferOptions_k ::
  "nv_memory_modes \<Rightarrow> kernel_cache_modes \<Rightarrow> kernel_buffer_flags \<Rightarrow> u32 \<Rightarrow> bool \<Rightarrow> u32 option" where
  "bufferOptions_k M C F cache_type contiguous =
     map_option (\<lambda>opt. if contiguous then opt OR kIOMemoryPhysicallyContiguous F else opt)
       (if cache_type = NV_MEMORY_CACHED M then Some (kIODirectionInOut F OR kIOMapDefaultCache C)
        else if cache_type = NV_MEMORY_WRITECOMBINED M then
          Some (kIODirectionInOut F OR kIOMapWriteCombineCache C)
        else if cache_type = NV_MEMORY_UNCACHED M \<or> cache_type = NV_MEMORY_DEFAULT M then
          Some (kIODirectionInOut F OR kIOMapInhibitCache C)
        else None)"

text \<open>\<open>(1U << nvd_state->dma_mask) - 1\<close>: the stored mask is the shift count of a 32-bit shift.\<close>

definition bitMask_k :: "nvd_pointer \<Rightarrow> u64 outcome" where
  "bitMask_k nvd =
     (case nvd of None \<Rightarrow> Fault NullDereference
      | Some (_, st) \<Rightarrow>
      if 32 \<le> unat (dma_mask st) then Fault ShiftOutOfRange
      else Done (ucast (push_bit (unat (dma_mask st)) 1 - 1 :: u32)))"

text \<open>
  The answers: the descriptor and the command (\<open>NULL\<close> on failure), the result of
  \<open>gen64IOVMSegments\<close> with the addresses of the segments it writes, and the pairing.
\<close>

record k_buffer =
  k_descriptor :: ptr
  k_command :: ptr
  gen_result :: kern_return
  gen_segments :: "u64 list"
  k_pairing :: ptr

text \<open>
  \<open>IODMACommand::Segment64 segment[] = {}\<close> has no elements, so a segment that
  \<open>gen64IOVMSegments\<close> writes is outside it, and the loop that copies segments to the page
  table only runs over none.
\<close>

definition nv_alloc_pages_k ::
  "nv_memory_modes \<Rightarrow> kernel_cache_modes \<Rightarrow> kernel_buffer_flags \<Rightarrow> nvd_pointer \<Rightarrow> k_buffer
   \<Rightarrow> u32 \<Rightarrow> u64 \<Rightarrow> bool \<Rightarrow> u32 \<Rightarrow> bool \<Rightarrow> u64 list \<Rightarrow> alloc_result outcome" where
  "nv_alloc_pages_k M C F nvd ans page_count page_size contiguous cache_type zeroed pte_array =
     (let totalSize = ucast page_count * page_size;
          fail = (\<lambda>status refs calls. Done \<lparr>alloc_status = status, ptes = pte_array, priv = None,
                    alloc_refs = refs, alloc_calls = calls\<rparr>);
          desc = k_descriptor ans; cmd = k_command ans
      in
      case bufferOptions_k M C F cache_type contiguous of
        None \<Rightarrow> fail NV_ERR_NOT_SUPPORTED [] []
      | Some bufferOptions \<Rightarrow>
      (case bitMask_k nvd of
        Fault f \<Rightarrow> Fault f
      | Done bitMask \<Rightarrow>
        (let c1 = [InTaskWithPhysicalMask bufferOptions page_size bitMask] in
         if desc = NULL then fail NV_ERR_NO_MEMORY [] c1
         else
         (let c2 = c1 @ [Prepare desc, WithSpecification page_size totalSize] in
          if cmd = NULL then
            fail NV_ERR_NO_MEMORY [Obtain desc, Release desc] (c2 @ [Complete desc])
          else
          (let c3 = c2 @ [SetMemoryDescriptor cmd desc] in
           if gen_segments ans \<noteq> [] then Fault ArrayOutOfBounds
           else if gen_result ans \<noteq> KERN_SUCCESS then
             fail NV_ERR_NO_MEMORY
               [Obtain desc, Obtain cmd, Release desc, Release cmd] (c3 @ [Complete desc])
           else if k_pairing ans = NULL then Fault NullDereference
           else Done \<lparr>alloc_status = NV_OK, ptes = pte_array,
                      priv = Some (Pairing (k_pairing ans) cmd desc),
                      alloc_refs = [Obtain desc, Obtain cmd, Obtain (k_pairing ans)],
                      alloc_calls = c3\<rparr>)))))"

definition nv_free_pages_k ::
  "priv_data \<Rightarrow> (nv_status \<times> ref_event list \<times> dma_call_made list) outcome" where
  "nv_free_pages_k priv_data =
     (case priv_data of
        Pairing p cmd desc \<Rightarrow>
          Done (NV_OK, [Release cmd, Release desc], [ClearMemoryDescriptor cmd, Complete desc])
      | Descriptor _ \<Rightarrow> Fault WrongObjectType)"

text \<open>\<open>address_of\<close> is the descriptor's \<open>getPhysicalAddress\<close>.\<close>

definition nv_alloc_kernel_mapping_k ::
  "u32 \<Rightarrow> (ptr \<Rightarrow> u64) \<Rightarrow> priv_data \<Rightarrow> u64 \<Rightarrow> u32 \<Rightarrow> u64 \<Rightarrow> u64 outcome" where
  "nv_alloc_kernel_mapping_k os_page_size address_of pAllocPrivate pageIndex pageOffset sz =
     (case pAllocPrivate of
        Descriptor d \<Rightarrow>
          Done (address_of d + pageIndex * ucast os_page_size + ucast pageOffset)
      | Pairing _ _ _ \<Rightarrow> Fault WrongObjectType)"

definition nv_free_kernel_mapping_k :: nv_status where
  "nv_free_kernel_mapping_k = NV_OK"

definition nv_alloc_user_mapping_k ::
  "u32 \<Rightarrow> (ptr \<Rightarrow> u64) \<Rightarrow> priv_data \<Rightarrow> u64 \<Rightarrow> u32 \<Rightarrow> u64 \<Rightarrow> (nv_status \<times> u64) outcome" where
  "nv_alloc_user_mapping_k os_page_size address_of pAllocPrivate pageIndex pageOffset sz =
     (case pAllocPrivate of
        Descriptor d \<Rightarrow>
          Done (NV_OK, address_of d + pageIndex * ucast os_page_size + ucast pageOffset)
      | Pairing _ _ _ \<Rightarrow> Fault WrongObjectType)"

definition nv_free_user_mapping_k :: nv_status where
  "nv_free_user_mapping_k = NV_OK"

section \<open>The address computation\<close>

text \<open>
  What a client of the mapping functions relies on: page \<open>i\<close> of an allocation is at \<open>i\<close> page
  sizes from its base.
\<close>

locale page_mapper =
  fixes map_page :: "u64 \<Rightarrow> u32 \<Rightarrow> u64 outcome"
    and base :: u64
    and page_bytes :: u32
  assumes map_page: "map_page i off = Done (base + i * ucast page_bytes + ucast off)"
begin

lemma map_page_total: "is_done (map_page i off)"
  by (simp add: map_page)

text \<open>Within an allocation of \<open>n\<close> pages that does not wrap, nothing is lost to overflow.\<close>

lemma map_page_exact:
  assumes "unat base + n * unat page_bytes < 2 ^ 64" and "unat i < n"
    and "unat off < unat page_bytes"
  shows "\<exists>a. map_page i off = Done a \<and>
    unat a = unat base + unat i * unat page_bytes + unat off \<and>
    unat a < unat base + n * unat page_bytes"
proof -
  have "unat i * unat page_bytes + unat page_bytes \<le> n * unat page_bytes"
    using mult_le_mono1 [of "Suc (unat i)" n "unat page_bytes"] assms(2) by simp
  with assms have room: "unat base + unat i * unat page_bytes + unat off <
      unat base + n * unat page_bytes" by linarith
  with assms(1) have prod: "unat (i * ucast page_bytes) = unat i * unat page_bytes"
    by (subst unat_u64_mult) simp_all
  with room assms(1) have "unat (base + i * ucast page_bytes) = unat base + unat i * unat page_bytes"
    by (subst unat_u64_add) simp_all
  with room assms(1)
  have "unat (base + i * ucast page_bytes + ucast off) =
      unat base + unat i * unat page_bytes + unat off"
    by (subst unat_u64_add) simp_all
  with room show ?thesis by (simp add: map_page)
qed

end

interpretation kernel_map_dk: page_mapper
  "\<lambda>i off. nv_alloc_kernel_mapping_dk ps address_of (Descriptor d) i off sz" "address_of d" ps
  for ps address_of d sz
  by unfold_locales (simp add: nv_alloc_kernel_mapping_dk_def)

interpretation user_map_dk: page_mapper
  "\<lambda>i off. case nv_alloc_user_mapping_dk ps address_of (Descriptor d) i off sz of
     Done (_, a) \<Rightarrow> Done a | Fault f \<Rightarrow> Fault f" "address_of d" ps
  for ps address_of d sz
  by unfold_locales (simp add: nv_alloc_user_mapping_dk_def)

interpretation kernel_map_k: page_mapper
  "\<lambda>i off. nv_alloc_kernel_mapping_k ps address_of (Descriptor d) i off sz" "address_of d" ps
  for ps address_of d sz
  by unfold_locales (simp add: nv_alloc_kernel_mapping_k_def)

interpretation user_map_k: page_mapper
  "\<lambda>i off. case nv_alloc_user_mapping_k ps address_of (Descriptor d) i off sz of
     Done (_, a) \<Rightarrow> Done a | Fault f \<Rightarrow> Fault f" "address_of d" ps
  for ps address_of d sz
  by unfold_locales (simp add: nv_alloc_user_mapping_k_def)

section \<open>Lemmas on the DriverKit allocation\<close>

lemma fill_ptes_ok:
  "i + n \<le> length arr \<Longrightarrow> i + n < 2 ^ 31 \<Longrightarrow>
   \<exists>arr'. fill_ptes base ps i n arr = Done arr' \<and> length arr' = length arr \<and>
     (\<forall>j < length arr. arr' ! j = (if i \<le> j \<and> j < i + n then base + of_nat j * ps else arr ! j))"
proof (induction n arbitrary: i arr)
  case 0
  then show ?case by auto
next
  case (Suc n)
  let ?arr = "arr[i := base + of_nat i * ps]"
  have "Suc i + n \<le> length ?arr" "Suc i + n < 2 ^ 31" using Suc.prems by simp_all
  from Suc.IH [OF this] obtain arr' where arr': "fill_ptes base ps (Suc i) n ?arr = Done arr'"
    "length arr' = length ?arr"
    "\<forall>j < length ?arr. arr' ! j =
       (if Suc i \<le> j \<and> j < Suc i + n then base + of_nat j * ps else ?arr ! j)" by blast
  moreover have "fill_ptes base ps i (Suc n) arr = fill_ptes base ps (Suc i) n ?arr"
    using Suc.prems by simp
  ultimately show ?case by (intro exI [of _ arr']) (auto simp: nth_list_update not_less_eq_eq dest: le_antisym)
qed

lemma fill_ptes_done:
  "fill_ptes base ps i n arr = Done arr' \<Longrightarrow>
   (j < i \<longrightarrow> arr' ! j = arr ! j) \<and> (i \<le> j \<and> j < i + n \<longrightarrow> arr' ! j = base + of_nat j * ps)"
proof (induction n arbitrary: i arr)
  case 0
  then show ?case by auto
next
  case (Suc n)
  then have i: "i < length arr"
    and next_run: "fill_ptes base ps (Suc i) n (arr[i := base + of_nat i * ps]) = Done arr'"
    by (auto simp: store_at_def split: if_splits)
  from Suc.IH [OF next_run] i show ?case
    by (cases "j = i") (auto simp: nth_list_update)
qed

lemma fill_ptes_overrun:
  "i \<le> length arr \<Longrightarrow> length arr < i + n \<Longrightarrow> length arr < 2 ^ 31 \<Longrightarrow>
   fill_ptes base ps i n arr = Fault ArrayOutOfBounds"
proof (induction n arbitrary: i arr)
  case 0
  then show ?case by simp
next
  case (Suc n)
  show ?case
  proof (cases "i < length arr")
    case True
    then have "fill_ptes base ps (Suc i) n (arr[i := base + of_nat i * ps]) = Fault ArrayOutOfBounds"
      using Suc.prems by (intro Suc.IH) simp_all
    with True Suc.prems show ?thesis by simp
  next
    case False
    with Suc.prems show ?thesis by simp
  qed
qed

lemma fill_ptes_done_iff:
  "i < 2 ^ 31 \<Longrightarrow>
   is_done (fill_ptes base ps i n arr) \<longleftrightarrow> n = 0 \<or> i + n \<le> length arr \<and> i + n < 2 ^ 31"
proof (induction n arbitrary: i arr)
  case 0
  then show ?case by simp
next
  case (Suc n)
  consider "length arr \<le> i" | "i < length arr" "i = 2 ^ 31 - 1"
    | "i < length arr" "i \<noteq> 2 ^ 31 - 1" by linarith
  then show ?case
  proof cases
    case 2
    then show ?thesis by (simp add: store_at_def)
  next
    case 3
    with Suc.prems have "Suc i < 2 ^ 31" by simp
    from Suc.IH [OF this, of "arr[i := base + of_nat i * ps]"] 3 this show ?thesis by auto
  qed simp
qed

lemma total_size_dk_small:
  assumes "unat page_count * unat page_size < 2 ^ 30"
  shows "unat (total_size_dk page_count page_size) = unat page_count * unat page_size"
proof -
  have p: "unat (ucast page_count * page_size) = unat page_count * unat page_size"
    using assms by (subst unat_u64_mult) simp_all
  with assms have "\<not> 1073741824 \<le> ucast page_count * page_size"
    by (simp add: word_le_nat_alt)
  with p show ?thesis by (simp add: total_size_dk_def)
qed

lemma total_size_dk_clamped:
  assumes "2 ^ 30 \<le> unat page_count * unat page_size"
    and "unat page_count * unat page_size < 2 ^ 64"
  shows "unat (total_size_dk page_count page_size) = (unat page_count mod 4) * 2 ^ 30"
proof -
  have "unat (ucast page_count * page_size) = unat page_count * unat page_size"
    using assms(2) by (subst unat_u64_mult) simp_all
  with assms(1) have "1073741824 \<le> ucast page_count * page_size"
    by (simp add: word_le_nat_alt)
  then have "total_size_dk page_count page_size = ucast (page_count * 1073741824)"
    by (simp add: total_size_dk_def mult.commute)
  moreover have "unat (page_count * 1073741824) = (unat page_count * 2 ^ 30) mod 2 ^ 32"
    by (simp add: unat_word_ariths)
  moreover have "(unat page_count * 2 ^ 30) mod 2 ^ 32 = (unat page_count mod 4) * 2 ^ 30"
    using mult_mod_left [of "unat page_count" 4 "2 ^ 30"] by simp
  ultimately show ?thesis by simp
qed

lemmas dk_alloc_defs = nv_alloc_pages_dk_def nv_free_pages_dk_def Let_def

section \<open>Properties of the DriverKit allocation\<close>

text \<open>
  C10. The page table of a non-contiguous DriverKit allocation: when the buffer was created at
  a non-null address and the table has room, the call succeeds, entry \<open>i\<close> is the address of
  page \<open>i\<close>, and the entries past the page count are left alone.
\<close>

theorem alloc_pages_dk_page_table:
  assumes "buffer_result ans = KERN_SUCCESS" and "range_address ans \<noteq> NULL"
    and "unat page_count \<le> length pte_array" and "unat page_count < 2 ^ 31"
  shows "\<exists>r. nv_alloc_pages_dk dir ans page_count page_size False zeroed pte_array = Done r \<and>
    alloc_status r = NV_OK \<and> priv r = Some (Descriptor (buffer_object ans)) \<and>
    length (ptes r) = length pte_array \<and>
    (\<forall>i < length pte_array. ptes r ! i =
      (if i < unat page_count then range_address ans + of_nat i * page_size else pte_array ! i))"
proof -
  obtain arr' where "fill_ptes (range_address ans) page_size 0 (unat page_count) pte_array = Done arr'"
    "length arr' = length pte_array"
    "\<forall>i < length pte_array. arr' ! i =
      (if i < unat page_count then range_address ans + of_nat i * page_size else pte_array ! i)"
    using fill_ptes_ok [of 0 "unat page_count" pte_array "range_address ans" page_size] assms(3,4)
    by auto
  with assms(1,2) show ?thesis by (simp add: dk_alloc_defs)
qed

definition example_buffer :: dk_buffer where
  "example_buffer = \<lparr>buffer_result = KERN_SUCCESS, buffer_object = 0x300,
     range_address = 0x100000000, range_length = 0x3000\<rparr>"

lemma alloc_pages_dk_run:
  assumes "unat page_count \<le> length pte_array" and "unat page_count < 2 ^ 31"
  shows "\<exists>r. nv_alloc_pages_dk dir example_buffer page_count page_size False zeroed pte_array = Done r
    \<and> alloc_status r = NV_OK \<and> priv r = Some (Descriptor 0x300)"
  using fill_ptes_ok [of 0 "unat page_count" pte_array "range_address example_buffer" page_size]
    assms by (auto simp: dk_alloc_defs example_buffer_def)

theorem alloc_pages_dk_page_table_witness:
  "\<exists>r. nv_alloc_pages_dk 3 example_buffer 3 0x1000 False True [0, 0, 0, 7] = Done r \<and>
     ptes r ! 2 = 0x100002000 \<and> ptes r ! 3 = 7"
proof -
  have "\<exists>r. nv_alloc_pages_dk 3 example_buffer 3 0x1000 False True [0, 0, 0, 7] = Done r \<and>
      (\<forall>i < length [0, 0, 0, 7 :: u64]. ptes r ! i =
        (if i < unat (3 :: u32) then range_address example_buffer + of_nat i * 0x1000
         else [0, 0, 0, 7] ! i))"
    using alloc_pages_dk_page_table [of example_buffer 3 "[0, 0, 0, 7]" 3 "0x1000" True]
    by (auto simp: example_buffer_def)
  then obtain r where r: "nv_alloc_pages_dk 3 example_buffer 3 0x1000 False True [0, 0, 0, 7] = Done r"
    "\<forall>i < 4. ptes r ! i =
       (if i < unat (3 :: u32) then range_address example_buffer + of_nat i * 0x1000
        else [0, 0, 0, 7] ! i)" by auto
  from r(2) [rule_format, of 2] r(2) [rule_format, of 3] r(1) show ?thesis
    by (simp add: example_buffer_def)
qed

text \<open>
  C28. When a DriverKit allocation returns: exactly when \<open>Create\<close> refused the buffer, or the
  buffer has an address and the page table has room for what the loop writes, one entry of a
  contiguous allocation or one for each of fewer than \<open>2 ^ 31\<close> pages (the index is an \<open>int\<close>).
\<close>

theorem alloc_pages_dk_returns_iff:
  "is_done (nv_alloc_pages_dk dir ans page_count page_size contiguous zeroed pte_array) \<longleftrightarrow>
     buffer_result ans \<noteq> KERN_SUCCESS \<or>
     range_address ans \<noteq> NULL \<and>
     (if contiguous then pte_array \<noteq> []
      else unat page_count \<le> length pte_array \<and> unat page_count < 2 ^ 31)"
proof -
  have entries: "is_done (fill_ptes base ps 0 n arr) \<longleftrightarrow> n \<le> length arr \<and> n < 2 ^ 31"
    for base ps n and arr :: "u64 list"
    by (auto simp: fill_ptes_done_iff)
  have "is_done (store_at 0 x arr) \<longleftrightarrow> arr \<noteq> []" for x and arr :: "u64 list"
    by (simp add: store_at_def)
  moreover have "is_done (case x of Fault f \<Rightarrow> Fault f | Done a \<Rightarrow> Done (g a)) \<longleftrightarrow> is_done x"
    for x :: "u64 list outcome" and g :: "u64 list \<Rightarrow> alloc_result"
    by (cases x) simp_all
  ultimately show ?thesis by (simp add: dk_alloc_defs entries)
qed

theorem alloc_pages_dk_returns_iff_witness:
  "\<not> is_done (nv_alloc_pages_dk 3 example_buffer 2 0x1000 False True [0]) \<and>
   is_done (nv_alloc_pages_dk 3 example_buffer 2 0x1000 True True [0])"
  by (simp add: alloc_pages_dk_returns_iff example_buffer_def)

text \<open>
  C23. Below 1 GiB every page is inside the buffer: the capacity asked for is the full
  \<open>page_count * page_size\<close>, and when \<open>Create\<close> honours it (and the range does not wrap)
  entry \<open>i\<close> of the page table points at \<open>page_size\<close> bytes of the buffer.
\<close>

theorem alloc_pages_dk_in_bounds:
  assumes "nv_alloc_pages_dk dir ans page_count page_size False zeroed pte_array = Done r"
    and "alloc_status r = NV_OK"
    and "unat page_count * unat page_size < 2 ^ 30"
    and "unat (total_size_dk page_count page_size) \<le> unat (range_length ans)"
    and "unat (range_address ans) + unat (range_length ans) < 2 ^ 64"
    and "i < unat page_count"
  shows "(\<exists>calls. alloc_calls r =
      CreateBuffer dir (of_nat (unat page_count * unat page_size)) 0 # calls) \<and>
    unat (ptes r ! i) = unat (range_address ans) + i * unat page_size \<and>
    unat (ptes r ! i) + unat page_size \<le> unat (range_address ans) + unat (range_length ans)"
proof -
  have pte: "ptes r ! i = range_address ans + of_nat i * page_size"
    using assms(1,2,6)
    by (auto simp: dk_alloc_defs fill_ptes_done split: if_splits outcome.splits)
  have "total_size_dk page_count page_size = of_nat (unat page_count * unat page_size)"
    using assms(3) by (intro word_unat_eq_iff [THEN iffD2])
      (simp add: total_size_dk_small unsigned_of_nat take_bit_eq_mod del: of_nat_mult)
  then have call: "\<exists>calls. alloc_calls r =
      CreateBuffer dir (of_nat (unat page_count * unat page_size)) 0 # calls"
    using assms(1,2) by (auto simp: dk_alloc_defs split: if_splits outcome.splits)
  have "Suc i * unat page_size \<le> unat page_count * unat page_size"
    using assms(6) by (intro mult_le_mono1) simp
  with assms(4) total_size_dk_small [OF assms(3)]
  have room: "i * unat page_size + unat page_size \<le> unat (range_length ans)" by simp
  have "i < 2 ^ 64" using assms(6) unat_less_two_power_32 [of page_count] by simp
  then have i: "unat (of_nat i :: u64) = i" by (simp add: unat_of_nat)
  have "unat (of_nat i * page_size) = i * unat page_size"
    using room assms(5) by (subst unat_u64_mult) (simp_all add: i)
  then have "unat (ptes r ! i) = unat (range_address ans) + i * unat page_size"
    using room assms(5) unfolding pte by (subst unat_u64_add) simp_all
  with room call show ?thesis by simp
qed

theorem alloc_pages_dk_in_bounds_witness:
  "\<exists>r. nv_alloc_pages_dk 3 example_buffer 3 0x1000 False True [0, 0, 0, 7] = Done r \<and>
     unat (ptes r ! 2) + 0x1000 \<le> 0x100003000"
proof -
  obtain r where r: "nv_alloc_pages_dk 3 example_buffer 3 0x1000 False True [0, 0, 0, 7] = Done r"
    "alloc_status r = NV_OK"
    using alloc_pages_dk_run [of 3 "[0, 0, 0, 7]" 3 "0x1000" True] by auto
  have "unat (3 :: u32) * unat (0x1000 :: u64) < 2 ^ 30"
    and "unat (total_size_dk 3 0x1000) \<le> unat (range_length example_buffer)"
    and "unat (range_address example_buffer) + unat (range_length example_buffer) < 2 ^ 64"
    and "2 < unat (3 :: u32)"
    by (simp_all add: total_size_dk_def example_buffer_def)
  from alloc_pages_dk_in_bounds [OF r this] r(1) show ?thesis by (simp add: example_buffer_def)
qed

text \<open>
  From 1 GiB on the capacity asked for is not the size of the allocation but
  \<open>page_count\<close> modulo 4 in GiB: the clamp is computed in 32 bits.  An allocation of a multiple
  of four pages asks for an empty buffer.
\<close>

lemma alloc_pages_dk_capacity_wraps:
  assumes "2 ^ 30 \<le> unat page_count * unat page_size"
    and "unat page_count * unat page_size < 2 ^ 64"
    and "nv_alloc_pages_dk dir ans page_count page_size contiguous zeroed pte_array = Done r"
  shows "\<exists>capacity calls. alloc_calls r = CreateBuffer dir capacity 0 # calls \<and>
    unat capacity = (unat page_count mod 4) * 2 ^ 30"
proof -
  have "\<exists>calls. alloc_calls r = CreateBuffer dir (total_size_dk page_count page_size) 0 # calls"
    using assms(3) by (auto simp: dk_alloc_defs split: if_splits outcome.splits)
  with total_size_dk_clamped [OF assms(1,2)] show ?thesis by blast
qed

lemma alloc_pages_dk_capacity_wraps_witness:
  "\<exists>r calls. nv_alloc_pages_dk 3 example_buffer 0x40000 0x1000 True False [0] = Done r \<and>
     alloc_calls r = CreateBuffer 3 0 0 # calls"
proof -
  obtain r where r: "nv_alloc_pages_dk 3 example_buffer 0x40000 0x1000 True False [0] = Done r"
    by (simp add: dk_alloc_defs example_buffer_def)
  have "2 ^ 30 \<le> unat (0x40000 :: u32) * unat (0x1000 :: u64)"
    and "unat (0x40000 :: u32) * unat (0x1000 :: u64) < 2 ^ 64" by simp_all
  from alloc_pages_dk_capacity_wraps [OF this r] obtain capacity calls
    where "alloc_calls r = CreateBuffer 3 capacity 0 # calls"
      "unat capacity = (unat (0x40000 :: u32) mod 4) * 2 ^ 30" by blast
  with r show ?thesis by (auto simp: unat_eq_zero)
qed

text \<open>
  Ownership on DriverKit: an allocation that fails reports \<open>NV_ERR_NO_MEMORY\<close>, leaves the
  page table and the private data alone and holds nothing; one that succeeds and is freed again
  through its private data holds nothing either.
\<close>

lemma alloc_free_pages_dk_balanced:
  assumes "nv_alloc_pages_dk dir ans page_count page_size contiguous zeroed pte_array = Done r"
  shows "case priv r of
      None \<Rightarrow> alloc_status r = NV_ERR_NO_MEMORY \<and> ptes r = pte_array \<and>
        (\<forall>x. balance (alloc_refs r) x = 0)
    | Some p \<Rightarrow> alloc_status r = NV_OK \<and>
        (\<exists>evs. nv_free_pages_dk p = Done (NV_OK, evs) \<and>
          (\<forall>x. balance (alloc_refs r @ evs) x = 0))"
  using assms by (auto simp: dk_alloc_defs split: if_splits outcome.splits)

lemma alloc_free_pages_dk_balanced_witness:
  "\<exists>r. nv_alloc_pages_dk 3 example_buffer 1 0x1000 True False [0] = Done r \<and>
     alloc_status r = NV_OK"
proof -
  obtain r where r: "nv_alloc_pages_dk 3 example_buffer 1 0x1000 True False [0] = Done r"
    "priv r \<noteq> None" by (simp add: dk_alloc_defs example_buffer_def)
  with alloc_free_pages_dk_balanced [OF r(1)] show ?thesis by (auto split: option.splits)
qed

section \<open>Properties of the kernel allocation\<close>

lemma bitMask_k_set:
  assumes "nv_set_dma_address_size nvd b = Done nvd'" and "6 \<le> unat b"
  shows "bitMask_k nvd' = Fault ShiftOutOfRange"
proof -
  obtain a st where st: "nvd' = Some (a, st)" "dma_mask st = mask (unat b)"
    using dma_mask_bits [OF assms(1)] by blast
  have "unat b < 64" using assms(1) by (simp add: nv_set_dma_address_size_def split: if_splits)
  have "(2::nat) ^ 6 \<le> 2 ^ unat b" by (rule power_increasing) (use assms(2) in auto)
  moreover have "unat (mask (unat b) :: u64) = 2 ^ unat b - 1"
    using \<open>unat b < 64\<close> by (simp add: unat_mask_u64 mask_eq_exp_minus_1 [where 'a = nat])
  ultimately have "32 \<le> unat (dma_mask st)" using st(2) by simp
  then show ?thesis by (simp add: bitMask_k_def st(1))
qed

lemma nv_alloc_pages_k_priv:
  "nv_alloc_pages_k M C F st ans page_count page_size contiguous cache_type zeroed pte_array = Done r
   \<Longrightarrow> priv r = Some p \<Longrightarrow> p = Pairing (k_pairing ans) (k_command ans) (k_descriptor ans)"
  by (auto simp: nv_alloc_pages_k_def Let_def split: option.splits outcome.splits if_splits)

lemma nv_alloc_pages_dk_priv:
  "nv_alloc_pages_dk dir ans page_count page_size contiguous zeroed pte_array = Done r
   \<Longrightarrow> priv r = Some p \<Longrightarrow> p = Descriptor (buffer_object ans)"
  by (auto simp: dk_alloc_defs split: if_splits outcome.splits)

lemma bitMask_k_small:
  "unat (dma_mask st) < 32 \<Longrightarrow> is_done (bitMask_k (Some (a, st)))"
  by (simp add: bitMask_k_def)

lemma mask_exponent_larger:
  assumes "2 \<le> b"
  shows "b < 2 ^ b - (1 :: nat)"
  using assms
proof (induction b rule: dec_induct)
  case base
  then show ?case by simp
next
  case (step n)
  then show ?case by simp
qed

lemma bitMask_k_value:
  assumes "nv_set_dma_address_size nvd b = Done nvd'" and "unat b < 6"
  shows "bitMask_k nvd' = Done (mask (2 ^ unat b - 1))"
    and "(2 :: nat) ^ unat b - 1 < 32"
proof -
  obtain a st where st: "nvd' = Some (a, st)" "dma_mask st = mask (unat b)"
    using dma_mask_bits [OF assms(1)] by blast
  have "(2 :: nat) ^ unat b \<le> 2 ^ 5" by (rule power_increasing) (use assms(2) in auto)
  then show small: "(2 :: nat) ^ unat b - 1 < 32" by simp
  have n: "unat (dma_mask st) = 2 ^ unat b - 1"
    using st(2) assms(2)
    by (simp add: unat_mask_u64 mask_eq_exp_minus_1 [where 'a = nat])
  have "(ucast (push_bit (2 ^ unat b - 1) 1 - 1 :: u32) :: u64) = mask (2 ^ unat b - 1)"
    using small by (intro bit_eqI)
      (auto simp: bit_ucast_iff bit_mask_iff push_bit_eq_mult simp flip: mask_eq_exp_minus_1)
  with n small show "bitMask_k nvd' = Done (mask (2 ^ unat b - 1))" by (simp add: bitMask_k_def st(1))
qed

text \<open>
  C35. The DMA mask is used as a shift count.  Once \<open>nv_set_dma_address_size\<close> has stored the
  mask of 6 bits or more (every real device: 32 to 52), each kernel \<open>nv_alloc_pages\<close> with a
  cache type it supports shifts a 32-bit value by 63 or more, which has no meaning in C++.  Of
  fewer bits the descriptor is made with a mask of \<open>2 ^ b - 1\<close> bits: the device's own mask for
  no more than one bit, one that admits addresses the device cannot reach for 2 to 5.
\<close>

theorem alloc_pages_k_mask_as_shift:
  assumes "nv_set_dma_address_size nvd b = Done nvd'" and "nvd' = Some (a, st')"
    and "bufferOptions_k M C F cache_type contiguous = Some opt"
    and "res = nv_alloc_pages_k M C F nvd' ans page_count page_size contiguous cache_type zeroed pte_array"
  shows "if 6 \<le> unat b then res = Fault ShiftOutOfRange
    else (bitMask_k nvd' = Done (dma_mask st') \<longleftrightarrow> unat b \<le> 1) \<and>
      (\<forall>r. res = Done r \<longrightarrow> (\<exists>calls. alloc_calls r =
        InTaskWithPhysicalMask opt page_size (mask (2 ^ unat b - 1)) # calls))"
proof (cases "6 \<le> unat b")
  case True
  with assms(3,4) bitMask_k_set [OF assms(1)] show ?thesis by (simp add: nv_alloc_pages_k_def Let_def)
next
  case False
  then have b: "unat b < 6" by simp
  note m = bitMask_k_value [OF assms(1) b]
  have "(mask (2 ^ unat b - 1) :: u64) = mask (unat b) \<longleftrightarrow> 2 ^ unat b - 1 = unat b"
  proof
    assume "(mask (2 ^ unat b - 1) :: u64) = mask (unat b)"
    then have "unat (mask (2 ^ unat b - 1) :: u64) = unat (mask (unat b) :: u64)" by simp
    then have "mask (2 ^ unat b - 1) = (mask (unat b) :: nat)"
      using m(2) b by (simp add: unat_mask_u64)
    then have "(2 :: nat) ^ (2 ^ unat b - 1) = 2 ^ unat b"
      by (simp add: mask_eq_exp_minus_1 eq_diff_iff)
    then show "2 ^ unat b - 1 = unat b" by (simp only: power_inject_exp one_less_numeral_iff semiring_norm)
  qed simp
  also have "\<dots> \<longleftrightarrow> unat b \<le> 1"
  proof (cases "2 \<le> unat b")
    case True
    with mask_exponent_larger [OF True] show ?thesis by simp
  next
    case False
    then consider "unat b = 0" | "unat b = 1" by linarith
    then show ?thesis by cases simp_all
  qed
  finally have "bitMask_k nvd' = Done (dma_mask st') \<longleftrightarrow> unat b \<le> 1"
    using dma_mask_bits [OF assms(1)] m(1) by (simp add: assms(2))
  moreover have "\<exists>calls. alloc_calls r =
      InTaskWithPhysicalMask opt page_size (mask (2 ^ unat b - 1)) # calls" if "res = Done r" for r
    using that unfolding assms(4)
    by (auto simp: nv_alloc_pages_k_def Let_def assms(3) m(1) split: if_splits)
  ultimately show ?thesis using False by simp
qed

definition example_flags :: kernel_buffer_flags where
  "example_flags = \<lparr>kIODirectionInOut = 3, kIOMemoryPhysicallyContiguous = 0x10\<rparr>"

definition example_k_buffer :: k_buffer where
  "example_k_buffer = \<lparr>k_descriptor = 0x300, k_command = 0x400, gen_result = KERN_SUCCESS,
     gen_segments = [], k_pairing = 0x500\<rparr>"

theorem alloc_pages_k_mask_as_shift_witness:
  "\<exists>st'. nv_set_dma_address_size (example_state []) 47 = Done st' \<and>
     nv_alloc_pages_k example_modes example_k_cache example_flags st' example_k_buffer 1 0x1000 True 1 True [0]
       = Fault ShiftOutOfRange"
proof -
  obtain st' a st where st': "nv_set_dma_address_size (example_state []) 47 = Done st'"
      and a: "st' = Some (a, st)"
    by (simp add: nv_set_dma_address_size_def example_state_def)
  obtain opt where "bufferOptions_k example_modes example_k_cache example_flags 1 True = Some opt"
    by (simp add: bufferOptions_k_def example_modes_def)
  from alloc_pages_k_mask_as_shift [OF st' a this refl] st' show ?thesis by simp
qed

lemma example_k_run:
  "\<exists>r. nv_alloc_pages_k example_modes example_k_cache example_flags (example_state [])
     example_k_buffer 1 0x1000 True 1 False [0] = Done r \<and> alloc_status r = NV_OK \<and>
     priv r = Some (Pairing 0x500 0x400 0x300)"
  by (simp add: nv_alloc_pages_k_def Let_def bufferOptions_k_def example_modes_def
      bitMask_k_def example_state_def example_k_buffer_def)

text \<open>
  The kernel allocation never writes a page-table entry: on every run that returns, failed
  or successful, the table is the one passed in; a run in which the DMA command produces a
  segment is an access outside the empty array \<open>segment\<close>.
\<close>

lemma alloc_pages_k_no_entry:
  "case nv_alloc_pages_k M C F st ans page_count page_size contiguous cache_type zeroed pte_array of
     Done r \<Rightarrow> ptes r = pte_array \<and> (alloc_status r = NV_OK \<longrightarrow> gen_segments ans = [])
   | Fault f \<Rightarrow> f = ArrayOutOfBounds \<and> gen_segments ans \<noteq> [] \<or> f = ShiftOutOfRange \<or>
       f = NullDereference \<and> (st = None \<or> k_pairing ans = NULL)"
  by (auto simp: nv_alloc_pages_k_def Let_def bitMask_k_def split: option.splits)

lemma alloc_pages_k_no_entry_witness:
  "\<exists>r. nv_alloc_pages_k example_modes example_k_cache example_flags (example_state [])
     example_k_buffer 1 0x1000 True 1 False [0] = Done r \<and> alloc_status r = NV_OK \<and>
     ptes r = [0] \<and> gen_segments example_k_buffer = []"
proof -
  obtain r where run: "nv_alloc_pages_k example_modes example_k_cache example_flags
      (example_state []) example_k_buffer 1 0x1000 True 1 False [0] = Done r" "alloc_status r = NV_OK"
    using example_k_run by blast
  with alloc_pages_k_no_entry [where M = example_modes and C = example_k_cache
      and F = example_flags and st = "example_state []" and ans = example_k_buffer
      and page_count = 1 and page_size = "0x1000" and contiguous = True and cache_type = 1
      and zeroed = False and pte_array = "[0]"]
  show ?thesis by simp
qed

text \<open>
  Ownership in the kernel: a failed allocation holds nothing and leaves no private data;
  one that succeeds is freed without a fault and gives the command and the descriptor back, but
  not the pairing allocated with \<open>IONew\<close>, which stays allocated.
\<close>

lemma alloc_free_pages_k_leaks_pairing:
  assumes "nv_alloc_pages_k M C F st ans page_count page_size contiguous cache_type zeroed pte_array
      = Done r"
    and "distinct [k_pairing ans, k_command ans, k_descriptor ans]"
  shows "case priv r of
      None \<Rightarrow> alloc_status r \<noteq> NV_OK \<and> (\<forall>x. balance (alloc_refs r) x = 0)
    | Some p \<Rightarrow> alloc_status r = NV_OK \<and>
        (\<exists>evs calls. nv_free_pages_k p = Done (NV_OK, evs, calls) \<and>
          (\<forall>x. balance (alloc_refs r @ evs) x = (if x = k_pairing ans then 1 else 0)))"
  using assms
  by (auto simp: nv_alloc_pages_k_def nv_free_pages_k_def Let_def
      split: option.splits outcome.splits if_splits)

lemma alloc_free_pages_k_leaks_pairing_witness:
  "\<exists>r evs calls. nv_alloc_pages_k example_modes example_k_cache example_flags (example_state [])
     example_k_buffer 1 0x1000 True 1 False [0] = Done r \<and>
     nv_free_pages_k (Pairing 0x500 0x400 0x300) = Done (NV_OK, evs, calls) \<and>
     balance (alloc_refs r @ evs) 0x500 = 1"
proof -
  obtain r where r: "nv_alloc_pages_k example_modes example_k_cache example_flags
      (example_state []) example_k_buffer 1 0x1000 True 1 False [0] = Done r"
    "priv r = Some (Pairing 0x500 0x400 0x300)" using example_k_run by blast
  have "distinct [k_pairing example_k_buffer, k_command example_k_buffer,
      k_descriptor example_k_buffer]" by (simp add: example_k_buffer_def)
  from alloc_free_pages_k_leaks_pairing [OF r(1) this] r show ?thesis
    by (auto simp: example_k_buffer_def)
qed

text \<open>
  The private data of the two targets: in the kernel \<open>nv_alloc_kernel_mapping\<close> and
  \<open>nv_alloc_user_mapping\<close> take the pairing that \<open>nv_alloc_pages\<close> stored for a descriptor,
  so they fault on every allocation it made; on DriverKit they succeed on every one.
\<close>

lemma mapping_private_data:
  "(nv_alloc_pages_k M C F st kans page_count page_size contiguous cache_type zeroed pte_array
      = Done r \<and> priv r = Some p \<longrightarrow>
     nv_alloc_kernel_mapping_k ps address_of p i off sz = Fault WrongObjectType \<and>
     nv_alloc_user_mapping_k ps address_of p i off sz = Fault WrongObjectType) \<and>
   (nv_alloc_pages_dk dir ans page_count page_size contiguous zeroed pte_array
      = Done r \<and> priv r = Some p \<longrightarrow>
     is_done (nv_alloc_kernel_mapping_dk ps address_of p i off sz) \<and>
     is_done (nv_alloc_user_mapping_dk ps address_of p i off sz))"
  using nv_alloc_pages_k_priv [of M C F st kans page_count page_size contiguous cache_type zeroed
      pte_array r p]
    nv_alloc_pages_dk_priv [of dir ans page_count page_size contiguous zeroed pte_array r p]
  by (auto simp: nv_alloc_kernel_mapping_k_def nv_alloc_user_mapping_k_def
      nv_alloc_kernel_mapping_dk_def nv_alloc_user_mapping_dk_def)

lemma mapping_private_data_witness:
  "\<exists>r p. nv_alloc_pages_k example_modes example_k_cache example_flags (example_state [])
     example_k_buffer 1 0x1000 True 1 False [0] = Done r \<and> priv r = Some p \<and>
     nv_alloc_kernel_mapping_k 0x1000 (\<lambda>_. 0) p 0 0 0x1000 = Fault WrongObjectType"
proof -
  obtain r where r: "nv_alloc_pages_k example_modes example_k_cache example_flags
      (example_state []) example_k_buffer 1 0x1000 True 1 False [0] = Done r"
    "priv r = Some (Pairing 0x500 0x400 0x300)" using example_k_run by blast
  from mapping_private_data [THEN conjunct1, THEN mp, OF conjI [OF r],
      of "0x1000" "\<lambda>_. 0" 0 0 "0x1000"] r
  show ?thesis by (intro exI conjI) (rule r, rule r, rule conjunct1)
qed

text \<open>
  C34. The mappings agree with the page table: on DriverKit, for an allocation in pages of
  \<open>os_page_size\<close> bytes, the kernel and the user mapping of page \<open>i\<close> at offset \<open>off\<close> are
  entry \<open>i\<close> of the page table plus \<open>off\<close>.
\<close>

theorem mapping_dk_matches_page_table:
  assumes "nv_alloc_pages_dk dir ans page_count (ucast os_page_size) False zeroed pte_array = Done r"
    and "priv r = Some p" and "address_of (buffer_object ans) = range_address ans"
    and "unat i < unat page_count"
  shows "nv_alloc_kernel_mapping_dk os_page_size address_of p i off sz =
      Done (ptes r ! unat i + ucast off) \<and>
    nv_alloc_user_mapping_dk os_page_size address_of p i off sz =
      Done (NV_OK, ptes r ! unat i + ucast off)"
proof -
  have "ptes r ! unat i = range_address ans + of_nat (unat i) * ucast os_page_size"
    and p: "p = Descriptor (buffer_object ans)"
    using assms(1,2,4)
    by (auto simp: dk_alloc_defs fill_ptes_done split: if_splits outcome.splits)
  then show ?thesis
    using kernel_map_dk.map_page [of os_page_size address_of "buffer_object ans" i off sz]
    by (simp add: assms(3) nv_alloc_user_mapping_dk_def)
qed

theorem mapping_dk_matches_page_table_witness:
  "\<exists>r. nv_alloc_pages_dk 3 example_buffer 3 (ucast (0x1000 :: u32)) False True [0, 0, 0, 7] = Done r \<and>
     nv_alloc_kernel_mapping_dk 0x1000 (\<lambda>_. 0x100000000) (Descriptor 0x300) 2 8 0 =
       Done (ptes r ! 2 + 8)"
proof -
  obtain r where r: "nv_alloc_pages_dk 3 example_buffer 3 (ucast (0x1000 :: u32)) False True
      [0, 0, 0, 7] = Done r" "priv r = Some (Descriptor 0x300)"
    using alloc_pages_dk_run [of 3 "[0, 0, 0, 7]" 3 "ucast (0x1000 :: u32)" True] by auto
  have "(\<lambda>_. 0x100000000) (buffer_object example_buffer) = range_address example_buffer"
    and "unat (2 :: u64) < unat (3 :: u32)" by (simp_all add: example_buffer_def)
  from mapping_dk_matches_page_table [OF r this] r show ?thesis by simp
qed

end
