(* ===== verification/PageClients.thy ===== *)
theory PageClients
  imports DmaPages
begin

text \<open>
  Whole runs of \<open>nv_alloc_pages\<close> and \<open>nv_free_pages\<close>: a client that keeps the private data
  of its allocations and frees them in any order.  The locale \<open>page_target\<close> is what the two
  calls of a target promise about references; both targets give it, the kernel with a residue
  for each freed allocation.
\<close>

section \<open>Runs\<close>

text \<open>A client allocates, or frees the \<open>i\<close>-th of the allocations it still has.\<close>

datatype 'a page_op = AllocPages 'a | FreePages nat

definition without :: "nat \<Rightarrow> 'b list \<Rightarrow> 'b list" where
  "without i xs = take i xs @ drop (Suc i) xs"

text \<open>
  The state is the private data of the live allocations, oldest first; the result also lists
  the freed ones and the references taken and given back.
\<close>

fun page_run ::
  "('a \<Rightarrow> alloc_result outcome) \<Rightarrow> (priv_data \<Rightarrow> ref_event list outcome) \<Rightarrow> priv_data list
   \<Rightarrow> 'a page_op list \<Rightarrow> (priv_data list \<times> priv_data list \<times> ref_event list) outcome" where
  "page_run alloc free live [] = Done (live, [], [])"
| "page_run alloc free live (AllocPages a # ops) =
     (case alloc a of Fault f \<Rightarrow> Fault f
      | Done r \<Rightarrow>
          (case page_run alloc free (live @ (case priv r of None \<Rightarrow> [] | Some p \<Rightarrow> [p])) ops of
             Fault f \<Rightarrow> Fault f
           | Done (live', freed, evs) \<Rightarrow> Done (live', freed, alloc_refs r @ evs)))"
| "page_run alloc free live (FreePages i # ops) =
     (if i < length live then
        (case free (live ! i) of Fault f \<Rightarrow> Fault f
         | Done evs \<Rightarrow>
             (case page_run alloc free (without i live) ops of Fault f \<Rightarrow> Fault f
              | Done (live', freed, evs') \<Rightarrow> Done (live', live ! i # freed, evs @ evs')))
      else page_run alloc free live ops)"

lemma sum_list_without:
  fixes g :: "'b \<Rightarrow> int"
  assumes "i < length xs"
  shows "(\<Sum>x \<leftarrow> without i xs. g x) = (\<Sum>x \<leftarrow> xs. g x) - g (xs ! i)"
proof -
  have "(\<Sum>x \<leftarrow> xs. g x) = (\<Sum>x \<leftarrow> take i xs @ xs ! i # drop (Suc i) xs. g x)"
    using assms by (simp add: id_take_nth_drop [symmetric])
  then show ?thesis by (simp add: without_def)
qed

lemma set_without: "set (without i xs) \<subseteq> set xs"
  by (auto simp: without_def dest: in_set_takeD in_set_dropD)

section \<open>The contract of a target\<close>

locale page_target =
  fixes alloc :: "'a \<Rightarrow> alloc_result outcome"
    and free :: "priv_data \<Rightarrow> ref_event list outcome"
    and valid :: "priv_data \<Rightarrow> bool"
    and owned residue :: "priv_data \<Rightarrow> ptr \<Rightarrow> int"
  assumes alloc_owned: "alloc a = Done r \<Longrightarrow> priv r = Some p \<Longrightarrow>
      valid p \<and> balance (alloc_refs r) x = owned p x"
    and alloc_failed: "alloc a = Done r \<Longrightarrow> priv r = None \<Longrightarrow> balance (alloc_refs r) x = 0"
    and free_owned: "valid p \<Longrightarrow>
      \<exists>evs. free p = Done evs \<and> (\<forall>x. balance evs x = residue p x - owned p x)"
begin

lemma run_balance:
  "\<forall>p \<in> set live. valid p \<Longrightarrow> page_run alloc free live ops = Done (live', freed, evs) \<Longrightarrow>
   (\<forall>p \<in> set live'. valid p) \<and>
   balance evs x = (\<Sum>p \<leftarrow> live'. owned p x) - (\<Sum>p \<leftarrow> live. owned p x) + (\<Sum>p \<leftarrow> freed. residue p x)"
proof (induction ops arbitrary: live freed evs)
  case Nil
  then show ?case by simp
next
  case (Cons op ops)
  show ?case
  proof (cases op)
    case (AllocPages a)
    define new where "new = (\<lambda>r :: alloc_result. case priv r of None \<Rightarrow> [] | Some p \<Rightarrow> [p])"
    from Cons.prems(2) AllocPages obtain r evs1 where r: "alloc a = Done r"
      "page_run alloc free (live @ new r) ops = Done (live', freed, evs1)" "evs = alloc_refs r @ evs1"
      by (auto simp: new_def split: outcome.splits)
    have new: "\<forall>p \<in> set (new r). valid p" "balance (alloc_refs r) x = (\<Sum>p \<leftarrow> new r. owned p x)"
      using alloc_owned [OF r(1)] alloc_failed [OF r(1)] by (auto simp: new_def split: option.split)
    with Cons.prems(1) have "\<forall>p \<in> set (live @ new r). valid p" by auto
    from Cons.IH [OF this r(2)] r(3) new(2) show ?thesis by simp
  next
    case (FreePages i)
    show ?thesis
    proof (cases "i < length live")
      case False
      with Cons FreePages show ?thesis by simp
    next
      case True
      with Cons.prems(1) have "valid (live ! i)" by simp
      from free_owned [OF this] obtain evs1 where evs1: "free (live ! i) = Done evs1"
        "balance evs1 x = residue (live ! i) x - owned (live ! i) x" by blast
      with Cons.prems(2) FreePages True obtain freed2 evs2 where rest:
        "page_run alloc free (without i live) ops = Done (live', freed2, evs2)"
        "freed = live ! i # freed2" "evs = evs1 @ evs2"
        by (auto split: outcome.splits)
      have "\<forall>p \<in> set (without i live). valid p" using Cons.prems(1) set_without by fast
      from Cons.IH [OF this rest(1)] rest(2,3) evs1(2) show ?thesis
        by (simp add: sum_list_without [OF True, where g = "\<lambda>p. owned p x"])
    qed
  qed
qed

lemma run_freed:
  "\<forall>p \<in> set live. valid p \<Longrightarrow> page_run alloc free live ops = Done (live', freed, evs) \<Longrightarrow>
   \<forall>p \<in> set freed. valid p"
proof (induction ops arbitrary: live freed evs)
  case (Cons op ops)
  show ?case
  proof (cases op)
    case (AllocPages a)
    define new where "new = (\<lambda>r :: alloc_result. case priv r of None \<Rightarrow> [] | Some p \<Rightarrow> [p])"
    from Cons.prems(2) AllocPages obtain r evs1 where r: "alloc a = Done r"
      "page_run alloc free (live @ new r) ops = Done (live', freed, evs1)"
      by (auto simp: new_def split: outcome.splits)
    have "\<forall>p \<in> set (live @ new r). valid p"
      using Cons.prems(1) alloc_owned [OF r(1)] by (auto simp: new_def split: option.splits)
    from Cons.IH [OF this r(2)] show ?thesis .
  next
    case (FreePages i)
    have rest: "\<forall>p \<in> set (without i live). valid p" using Cons.prems(1) set_without by fast
    from Cons.prems FreePages Cons.IH [OF rest] Cons.IH show ?thesis
      by (auto split: outcome.splits if_splits)
  qed
qed simp

text \<open>Freeing what is live never faults: a run faults only in an allocation.\<close>

lemma run_returns:
  "\<forall>p \<in> set live. valid p \<Longrightarrow> \<forall>a. AllocPages a \<in> set ops \<longrightarrow> is_done (alloc a) \<Longrightarrow>
   is_done (page_run alloc free live ops)"
proof (induction ops arbitrary: live)
  case (Cons op ops)
  then have later: "\<forall>a. AllocPages a \<in> set ops \<longrightarrow> is_done (alloc a)" by simp
  show ?case
  proof (cases op)
    case (AllocPages a)
    with Cons.prems(2) obtain r where r: "alloc a = Done r" by (cases "alloc a") auto
    let ?live = "live @ (case priv r of None \<Rightarrow> [] | Some p \<Rightarrow> [p])"
    have "\<forall>p \<in> set ?live. valid p"
      using Cons.prems(1) alloc_owned [OF r] by (auto split: option.splits)
    from Cons.IH [OF this later] AllocPages r show ?thesis
      by (cases "page_run alloc free ?live ops") auto
  next
    case (FreePages i)
    show ?thesis
    proof (cases "i < length live")
      case False
      with Cons FreePages later show ?thesis by simp
    next
      case True
      with Cons.prems(1) have "valid (live ! i)" by simp
      from free_owned [OF this] obtain evs1 where evs1: "free (live ! i) = Done evs1" by blast
      have "\<forall>p \<in> set (without i live). valid p" using Cons.prems(1) set_without by fast
      from Cons.IH [OF this later] FreePages True evs1 show ?thesis
        by (cases "page_run alloc free (without i live) ops") auto
    qed
  qed
qed simp

end

section \<open>The two targets\<close>

text \<open>The answers to a request and its arguments.\<close>

record dk_request =
  rq_buffer :: dk_buffer
  rq_page_count :: u32
  rq_page_size :: u64
  rq_contiguous :: bool
  rq_zeroed :: bool
  rq_ptes :: "u64 list"

record k_request =
  rqk_buffer :: k_buffer
  rqk_page_count :: u32
  rqk_page_size :: u64
  rqk_contiguous :: bool
  rqk_cache_type :: u32
  rqk_zeroed :: bool
  rqk_ptes :: "u64 list"

definition alloc_dk :: "u64 \<Rightarrow> dk_request \<Rightarrow> alloc_result outcome" where
  "alloc_dk dir q = nv_alloc_pages_dk dir (rq_buffer q) (rq_page_count q) (rq_page_size q)
     (rq_contiguous q) (rq_zeroed q) (rq_ptes q)"

definition free_dk :: "priv_data \<Rightarrow> ref_event list outcome" where
  "free_dk p = (case nv_free_pages_dk p of Fault f \<Rightarrow> Fault f | Done (_, evs) \<Rightarrow> Done evs)"

definition alloc_k ::
  "nv_memory_modes \<Rightarrow> kernel_cache_modes \<Rightarrow> kernel_buffer_flags \<Rightarrow> nvd_pointer \<Rightarrow> k_request
   \<Rightarrow> alloc_result outcome" where
  "alloc_k M C F st q = nv_alloc_pages_k M C F st (rqk_buffer q) (rqk_page_count q) (rqk_page_size q)
     (rqk_contiguous q) (rqk_cache_type q) (rqk_zeroed q) (rqk_ptes q)"

definition free_k :: "priv_data \<Rightarrow> ref_event list outcome" where
  "free_k p = (case nv_free_pages_k p of Fault f \<Rightarrow> Fault f | Done (_, evs, _) \<Rightarrow> Done evs)"

text \<open>What a live allocation holds of an object, and what freeing it leaves.\<close>

fun holds_object :: "priv_data \<Rightarrow> ptr \<Rightarrow> int" where
  "holds_object (Descriptor d) x = (if d = x then 1 else 0)"
| "holds_object (Pairing p cmd desc) x =
     (if p = x then 1 else 0) + (if cmd = x then 1 else 0) + (if desc = x then 1 else 0)"

fun leaves_object :: "priv_data \<Rightarrow> ptr \<Rightarrow> int" where
  "leaves_object (Descriptor d) x = 0"
| "leaves_object (Pairing p cmd desc) x = (if p = x then 1 else 0)"

definition is_descriptor :: "priv_data \<Rightarrow> bool" where
  "is_descriptor p \<longleftrightarrow> (\<exists>d. p = Descriptor d)"

definition is_pairing :: "priv_data \<Rightarrow> bool" where
  "is_pairing p \<longleftrightarrow> (\<exists>a cmd desc. p = Pairing a cmd desc)"

interpretation pages_dk: page_target
  "alloc_dk dir" free_dk is_descriptor holds_object leaves_object for dir
  by unfold_locales
    (auto simp: alloc_dk_def free_dk_def dk_alloc_defs is_descriptor_def
      split: if_splits outcome.splits)

interpretation pages_k: page_target
  "alloc_k M C F st" free_k is_pairing holds_object leaves_object for M C F st
  by unfold_locales
    (auto simp: alloc_k_def free_k_def nv_alloc_pages_k_def nv_free_pages_k_def is_pairing_def Let_def
      split: if_splits outcome.splits option.splits)

section \<open>Properties\<close>

text \<open>
  C40. Ownership on DriverKit: a client that allocates pages and frees them in any order never
  faults in a free, and at any time each descriptor has as many references as the client has
  live allocations of it: failed allocations hold nothing and freed ones leave nothing.
\<close>

theorem page_clients_dk:
  "((\<forall>q. AllocPages q \<in> set ops \<longrightarrow> is_done (alloc_dk dir q)) \<longrightarrow>
     is_done (page_run (alloc_dk dir) free_dk [] ops)) \<and>
   (page_run (alloc_dk dir) free_dk [] ops = Done (live, freed, evs) \<longrightarrow>
     (\<forall>p \<in> set live. \<exists>d. p = Descriptor d) \<and>
     balance evs x = int (length (filter (\<lambda>p. p = Descriptor x) live)))"
proof (intro conjI impI)
  assume "\<forall>q. AllocPages q \<in> set ops \<longrightarrow> is_done (alloc_dk dir q)"
  then show "is_done (page_run (alloc_dk dir) free_dk [] ops)"
    by (intro pages_dk.run_returns) simp_all
next
  assume run: "page_run (alloc_dk dir) free_dk [] ops = Done (live, freed, evs)"
  from pages_dk.run_balance [OF _ run, of x] have valid: "\<forall>p \<in> set live. is_descriptor p"
    and bal: "balance evs x = (\<Sum>p \<leftarrow> live. holds_object p x) + (\<Sum>p \<leftarrow> freed. leaves_object p x)"
    by simp_all
  from valid show "\<forall>p \<in> set live. \<exists>d. p = Descriptor d" by (simp add: is_descriptor_def)
  have "\<forall>p \<in> set freed. is_descriptor p" using pages_dk.run_freed [OF _ run] by simp
  then have "(\<Sum>p \<leftarrow> freed. leaves_object p x) = 0"
    by (induction freed) (auto simp: is_descriptor_def)
  moreover from valid have "(\<Sum>p \<leftarrow> live. holds_object p x) =
      int (length (filter (\<lambda>p. p = Descriptor x) live))"
    by (induction live) (auto simp: is_descriptor_def split: if_splits)
  ultimately show "balance evs x = int (length (filter (\<lambda>p. p = Descriptor x) live))"
    using bal by simp
qed

definition example_dk_request :: "ptr \<Rightarrow> dk_request" where
  "example_dk_request d = \<lparr>rq_buffer = example_buffer\<lparr>buffer_object := d\<rparr>, rq_page_count = 1,
     rq_page_size = 0x1000, rq_contiguous = True, rq_zeroed = False, rq_ptes = [0]\<rparr>"

theorem page_clients_dk_witness:
  "\<exists>live freed evs. page_run (alloc_dk 3) free_dk []
      [AllocPages (example_dk_request 0x300), AllocPages (example_dk_request 0x310), FreePages 0,
       FreePages 7] = Done (live, freed, evs) \<and>
     live = [Descriptor 0x310] \<and> balance evs 0x300 = 0 \<and> balance evs 0x310 = 1"
proof -
  let ?ops = "[AllocPages (example_dk_request 0x300), AllocPages (example_dk_request 0x310),
      FreePages 0, FreePages 7]"
  obtain freed evs where run: "page_run (alloc_dk 3) free_dk [] ?ops =
      Done ([Descriptor 0x310], freed, evs)"
    by (simp add: alloc_dk_def free_dk_def dk_alloc_defs example_dk_request_def example_buffer_def
        without_def)
  from page_clients_dk [THEN conjunct2, rule_format, OF run, of "0x300"]
    page_clients_dk [THEN conjunct2, rule_format, OF run, of "0x310"] run
  show ?thesis by simp
qed

text \<open>
  Ownership in the kernel: likewise frees never fault, and live allocations hold their
  command, descriptor and pairing; but every allocation that was freed leaves its pairing
  behind, so when all is freed one block is leaked for each.
\<close>

lemma page_clients_k:
  "((\<forall>q. AllocPages q \<in> set ops \<longrightarrow> is_done (alloc_k M C F st q)) \<longrightarrow>
     is_done (page_run (alloc_k M C F st) free_k [] ops)) \<and>
   (page_run (alloc_k M C F st) free_k [] ops = Done (live, freed, evs) \<longrightarrow>
     (\<forall>p \<in> set live. \<exists>a cmd desc. p = Pairing a cmd desc) \<and>
     balance evs x = (\<Sum>p \<leftarrow> live. holds_object p x) +
       int (length (filter (\<lambda>p. \<exists>cmd desc. p = Pairing x cmd desc) freed)))"
proof (intro conjI impI)
  assume "\<forall>q. AllocPages q \<in> set ops \<longrightarrow> is_done (alloc_k M C F st q)"
  then show "is_done (page_run (alloc_k M C F st) free_k [] ops)"
    by (intro pages_k.run_returns) simp_all
next
  assume run: "page_run (alloc_k M C F st) free_k [] ops = Done (live, freed, evs)"
  from pages_k.run_balance [OF _ run, of x] have valid: "\<forall>p \<in> set live. is_pairing p"
    and bal: "balance evs x = (\<Sum>p \<leftarrow> live. holds_object p x) + (\<Sum>p \<leftarrow> freed. leaves_object p x)"
    by simp_all
  from valid show "\<forall>p \<in> set live. \<exists>a cmd desc. p = Pairing a cmd desc" by (simp add: is_pairing_def)
  have "\<forall>p \<in> set freed. is_pairing p" using pages_k.run_freed [OF _ run] by simp
  then have "(\<Sum>p \<leftarrow> freed. leaves_object p x) =
      int (length (filter (\<lambda>p. \<exists>cmd desc. p = Pairing x cmd desc) freed))"
    by (induction freed) (auto simp: is_pairing_def)
  with bal show "balance evs x = (\<Sum>p \<leftarrow> live. holds_object p x) +
      int (length (filter (\<lambda>p. \<exists>cmd desc. p = Pairing x cmd desc) freed))" by simp
qed

definition example_k_request :: k_request where
  "example_k_request = \<lparr>rqk_buffer = example_k_buffer, rqk_page_count = 1, rqk_page_size = 0x1000,
     rqk_contiguous = True, rqk_cache_type = 1, rqk_zeroed = False, rqk_ptes = [0]\<rparr>"

lemma page_clients_k_witness:
  "\<exists>freed evs. page_run (alloc_k example_modes example_k_cache example_flags (example_state []))
      free_k [] [AllocPages example_k_request, FreePages 0] = Done ([], freed, evs) \<and>
     balance evs 0x500 = 1 \<and> balance evs 0x300 = 0"
proof -
  let ?alloc = "alloc_k example_modes example_k_cache example_flags (example_state [])"
  obtain r where "?alloc example_k_request = Done r" "priv r = Some (Pairing 0x500 0x400 0x300)"
    using example_k_run by (auto simp: alloc_k_def example_k_request_def)
  then obtain evs where run: "page_run ?alloc free_k [] [AllocPages example_k_request, FreePages 0] =
      Done ([], [Pairing 0x500 0x400 0x300], evs)"
    by (simp add: free_k_def nv_free_pages_k_def without_def)
  from page_clients_k [THEN conjunct2, rule_format, OF run, of "0x500"]
    page_clients_k [THEN conjunct2, rule_format, OF run, of "0x300"] run
  show ?thesis by simp
qed

end
