(* ===== verification/OsInfo.thy ===== *)
theory OsInfo
  imports NvState CString
begin

text \<open>
  \<open>os.cpp\<close>: the support checks, hardware and process queries, the clock and the delays.
  The uptime clock, \<open>pid_for_task\<close> and \<open>geteuid\<close> are the system's: their answers are
  arguments.  A delay is modelled by the argument it gives \<open>IOSleep\<close>, which sleeps that many
  milliseconds.  The procedures that do nothing are the identity on any state.
\<close>

section \<open>Support checks and hardware\<close>

definition os_is_grid_supported :: bool where
  "os_is_grid_supported = False"

definition os_get_grid_csp_support :: u32 where
  "os_get_grid_csp_support = 0"

definition os_get_is_openrm :: "nv_status \<times> bool" where
  "os_get_is_openrm = (NV_OK, True)"

definition os_pat_supported :: bool where
  "os_pat_supported = False"

definition os_is_efi_enabled :: bool where
  "os_is_efi_enabled = True"

definition os_cc_enabled :: bool where
  "os_cc_enabled = False"

definition os_cc_sev_snp_enabled :: bool where
  "os_cc_sev_snp_enabled = False"

definition os_cc_snp_vtom_enabled :: bool where
  "os_cc_snp_vtom_enabled = False"

definition os_cc_tdx_enabled :: bool where
  "os_cc_tdx_enabled = False"

definition os_cc_sme_enabled :: bool where
  "os_cc_sme_enabled = False"

definition nv_get_disp_smmu_stream_ids :: "u32 \<times> u32" where
  "nv_get_disp_smmu_stream_ids = (0xFFFFFFFF, 0xFFFFFFFF)"

definition nv_set_primary_vga_status :: nv_status where
  "nv_set_primary_vga_status = NV_ERR_NOT_SUPPORTED"

definition nv_get_ctl_state :: "nvd_pointer \<Rightarrow> ptr" where
  "nv_get_ctl_state nvd = NV_STATE_PTR nvd"

definition nv_is_gpu_accessible :: "ptr \<Rightarrow> bool" where
  "nv_is_gpu_accessible nv = True"

definition os_get_cpu_number :: u32 where
  "os_get_cpu_number = 1"

definition os_get_cpu_count :: u32 where
  "os_get_cpu_count = 1"

definition os_get_cpu_frequency :: u64 where
  "os_get_cpu_frequency = 1"

definition os_registry_init :: nv_status where
  "os_registry_init = NV_OK"

definition os_disable_console_access :: "'s \<Rightarrow> 's" where
  "os_disable_console_access s = s"

definition os_enable_console_access :: "'s \<Rightarrow> 's" where
  "os_enable_console_access s = s"

definition os_device_vm_present :: nv_status where
  "os_device_vm_present = NV_ERR_NOT_SUPPORTED"

definition os_is_nvswitch_present :: bool where
  "os_is_nvswitch_present = False"

definition os_is_vgx_hyper :: bool where
  "os_is_vgx_hyper = False"

definition os_inject_vgx_msi :: "u16 \<Rightarrow> u64 \<Rightarrow> u32 \<Rightarrow> nv_status" where
  "os_inject_vgx_msi guestID msiAddr msiData = NV_ERR_NOT_SUPPORTED"

definition nv_is_chassis_notebook :: bool where
  "nv_is_chassis_notebook = False"

section \<open>Time\<close>

definition NSEC_PER_USEC :: u64 where
  "NSEC_PER_USEC = 1000"

definition NSEC_PER_SEC :: u64 where
  "NSEC_PER_SEC = 1000000000"

text \<open>
  The clocks of the system: \<open>clock_gettime_nsec_np(CLOCK_UPTIME_RAW)\<close> counts nanoseconds,
  \<open>mach_absolute_time\<close> ticks of the hardware.  \<open>CURRENT_UPTIME\<close> reads the first on
  DriverKit, the second in the kernel.
\<close>

record uptime_clocks =
  uptime_raw_nsec :: u64
  mach_absolute_ticks :: u64

definition CURRENT_UPTIME_dk :: "uptime_clocks \<Rightarrow> u64" where
  "CURRENT_UPTIME_dk C = uptime_raw_nsec C"

definition CURRENT_UPTIME_k :: "uptime_clocks \<Rightarrow> u64" where
  "CURRENT_UPTIME_k C = mach_absolute_ticks C"

text \<open>The status, \<open>*seconds\<close> and \<open>*useconds\<close>, for the uptime in nanoseconds.\<close>

definition os_get_current_time :: "u64 \<Rightarrow> nv_status \<times> u32 \<times> u32" where
  "os_get_current_time nanoseconds =
     (let currentMicroseconds = nanoseconds div NSEC_PER_USEC;
          currentSeconds = nanoseconds div NSEC_PER_SEC
      in (NV_OK, ucast currentSeconds, ucast currentMicroseconds))"

definition os_get_current_tick_hr :: "u64 \<Rightarrow> u64" where
  "os_get_current_tick_hr uptime = uptime"

definition os_get_current_tick :: "u64 \<Rightarrow> u64" where
  "os_get_current_tick uptime = uptime"

text \<open>The status and the argument of \<open>IOSleep\<close>.\<close>

definition os_delay_us :: "u32 \<Rightarrow> nv_status \<times> u32" where
  "os_delay_us MicroSeconds = (NV_OK, MicroSeconds)"

definition os_delay :: "u32 \<Rightarrow> nv_status \<times> u32" where
  "os_delay MilliSeconds = (NV_OK, MilliSeconds * 1000)"

text \<open>How long \<open>IOSleep(ms)\<close> sleeps, in microseconds.\<close>

definition IOSleep_us :: "u32 \<Rightarrow> nat" where
  "IOSleep_us ms = unat ms * 1000"

section \<open>Processes\<close>

definition os_get_pid_info :: ptr where
  "os_get_pid_info = NULL"

definition os_put_pid_info :: "ptr \<Rightarrow> 's \<Rightarrow> 's" where
  "os_put_pid_info pid_info s = s"

text \<open>What \<open>pid_for_task\<close> stores for a task, \<open>None\<close> when it fails and \<open>pid\<close> stays 0.\<close>

definition os_get_current_process_dk :: "task_calls \<Rightarrow> (task \<Rightarrow> u32 option) \<Rightarrow> u32" where
  "os_get_current_process_dk T pid_for_task =
     (case pid_for_task (nvd_task_dk T) of None \<Rightarrow> 0 | Some pid \<Rightarrow> pid)"

definition os_get_current_process_k :: u32 where
  "os_get_current_process_k = 0"

text \<open>The two that report the process return the status and what they store.\<close>

definition os_find_ns_pid :: "u32 \<Rightarrow> nv_status \<times> u32" where
  "os_find_ns_pid current_process = (NV_OK, current_process)"

definition os_get_current_thread :: "u32 \<Rightarrow> nv_status \<times> u64" where
  "os_get_current_thread current_process = (NV_OK, ucast current_process)"

definition os_is_init_ns :: bool where
  "os_is_init_ns = True"

text \<open>\<open>None\<close>: nothing is stored through \<open>pSecToken\<close>.\<close>

definition os_get_euid_dk :: "u32 \<Rightarrow> nv_status \<times> u32 option" where
  "os_get_euid_dk euid = (NV_OK, Some euid)"

definition os_get_euid_k :: "nv_status \<times> u32 option" where
  "os_get_euid_k = (NV_ERR_NOT_SUPPORTED, None)"

definition os_get_current_process_name :: "char list \<Rightarrow> u32 \<Rightarrow> char list outcome" where
  "os_get_current_process_name buf len = store_at 0 NUL buf"

definition os_get_max_user_va :: u64 where
  "os_get_max_user_va = 0"

definition os_is_administrator :: bool where
  "os_is_administrator = True"

definition os_check_access :: "nat \<Rightarrow> bool" where
  "os_check_access accessRight = True"

definition os_is_isr :: bool where
  "os_is_isr = False"

definition os_add_record_for_crashLog :: "ptr \<Rightarrow> u32 \<Rightarrow> 's \<Rightarrow> 's" where
  "os_add_record_for_crashLog pbuffer sz s = s"

definition os_delete_record_for_crashLog :: "ptr \<Rightarrow> 's \<Rightarrow> 's" where
  "os_delete_record_for_crashLog pbuffer s = s"

section \<open>Memory and versions\<close>

definition nv_get_dev_minor :: "ptr \<Rightarrow> u32" where
  "nv_get_dev_minor nv = 0"

text \<open>The status, free and total bytes.\<close>

definition os_get_numa_node_memory_usage :: "int \<Rightarrow> nv_status \<times> u64 \<times> u64" where
  "os_get_numa_node_memory_usage node_id = (NV_OK, 0, 0)"

text \<open>The buffer afterwards: nothing is written to it.\<close>

definition os_get_random_bytes :: "u8 list \<Rightarrow> u16 \<Rightarrow> nv_status \<times> u8 list" where
  "os_get_random_bytes bytes numBytes = (NV_OK, bytes)"

definition os_get_smbios_header :: nv_status where
  "os_get_smbios_header = NV_ERR_NOT_SUPPORTED"

definition os_get_tick_resolution :: u64 where
  "os_get_tick_resolution = 1"

record os_version_info =
  os_major_version :: u32
  os_minor_version :: u32
  os_build_number :: u32
  os_build_version_str :: ptr
  os_build_date_plus_str :: ptr

definition os_get_version_info :: "os_version_info \<Rightarrow> nv_status \<times> os_version_info" where
  "os_get_version_info info =
     (NV_OK, info\<lparr>os_major_version := 25, os_minor_version := 5, os_build_number := 1\<rparr>)"

definition os_flush_cpu_cache_all :: nv_status where
  "os_flush_cpu_cache_all = NV_ERR_NOT_SUPPORTED"

definition os_flush_user_cache :: nv_status where
  "os_flush_user_cache = NV_ERR_NOT_SUPPORTED"

text \<open>The fence instruction the build of each processor executes.\<close>

datatype nvcpu = NVCPU_X86_64 | NVCPU_AARCH64

datatype memory_fence = Sfence | DsbSt

fun os_flush_cpu_write_combine_buffer :: "nvcpu \<Rightarrow> memory_fence" where
  "os_flush_cpu_write_combine_buffer NVCPU_X86_64 = Sfence"
| "os_flush_cpu_write_combine_buffer NVCPU_AARCH64 = DsbSt"

section \<open>Properties\<close>

text \<open>
  What \<open>mach_timebase_info\<close> documents: \<open>t\<close> ticks are \<open>t * numer / denom\<close> nanoseconds.
\<close>

definition timebase :: "nat \<Rightarrow> nat \<Rightarrow> uptime_clocks \<Rightarrow> bool" where
  "timebase numer denom C \<longleftrightarrow>
     unat (uptime_raw_nsec C) = unat (mach_absolute_ticks C) * numer div denom"


lemma os_get_current_time_values:
  assumes "os_get_current_time ns = (st, s, u)"
  shows "st = NV_OK" and "unat s = unat ns div 10 ^ 9 mod 2 ^ 32"
    and "unat u = unat ns div 1000 mod 2 ^ 32"
  using assms
  by (auto simp: os_get_current_time_def NSEC_PER_USEC_def NSEC_PER_SEC_def unat_ucast_u64_u32
      unat_div)

lemma current_time_sum:
  assumes "os_get_current_time ns = (st, s, u)" and "unat ns div 10 ^ 9 < 2 ^ 32"
  shows "(unat s * 10 ^ 6 + unat u = unat ns div 1000 \<longleftrightarrow>
      unat ns div 1000 mod 10 ^ 6 = unat ns div 1000 mod 2 ^ 32) \<and>
    (unat ns div 1000 < 2 ^ 32 \<longrightarrow>
      (unat s * 10 ^ 6 + unat u = unat ns div 1000 \<longleftrightarrow> unat ns < 10 ^ 9))"
proof -
  define us where "us = unat ns div 1000"
  have sec: "unat s = us div 10 ^ 6"
    using os_get_current_time_values(2) [OF assms(1)] assms(2)
    by (simp add: us_def flip: div_mult2_eq)
  have usec: "unat u = us mod 2 ^ 32"
    using os_get_current_time_values(3) [OF assms(1)] by (simp add: us_def)
  have split: "us div 10 ^ 6 * 10 ^ 6 + us mod 10 ^ 6 = us" by (rule div_mult_mod_eq)
  then have *: "unat s * 10 ^ 6 + unat u = us \<longleftrightarrow> us mod 10 ^ 6 = us mod 2 ^ 32"
    unfolding sec usec by linarith
  have "us < 2 ^ 32 \<longrightarrow> (us mod 10 ^ 6 = us mod 2 ^ 32 \<longleftrightarrow> us < 10 ^ 6)"
    using mod_less_divisor [of "10 ^ 6" us] by auto
  moreover have "us < 10 ^ 6 \<longleftrightarrow> unat ns < 10 ^ 9" by (auto simp: us_def)
  ultimately show ?thesis using * by (auto simp: us_def)
qed

text \<open>
  The clock.  \<open>useconds\<close> is the whole uptime in microseconds cut to 32 bits, not the part
  below a second: on DriverKit, in the first 71 minutes after boot, seconds and microseconds
  add up to the uptime exactly during the first second.  The kernel takes ticks for
  nanoseconds: unless a tick is one (on Apple silicon it is 125/3), its seconds are wrong by
  the factor of the time base; with at least two nanoseconds to a tick it reports at most half
  of the seconds, rounded.
\<close>

lemma current_time_total:
  assumes "os_get_current_time (CURRENT_UPTIME_dk C) = (st, s, u)"
    and "os_get_current_time (CURRENT_UPTIME_k C) = (stk, sk, uk)"
    and "timebase numer denom C" and "0 < denom"
    and "unat (uptime_raw_nsec C) div 1000 < 2 ^ 32"
  shows "(unat s * 10 ^ 6 + unat u = unat (uptime_raw_nsec C) div 1000 \<longleftrightarrow>
      unat (uptime_raw_nsec C) < 10 ^ 9) \<and>
    (numer = denom \<longrightarrow> sk = s \<and> uk = u) \<and>
    (2 * denom \<le> numer \<longrightarrow> 2 * unat sk \<le> unat s)"
proof -
  let ?ns = "unat (uptime_raw_nsec C)" and ?t = "unat (mach_absolute_ticks C)"
  have dk: "os_get_current_time (uptime_raw_nsec C) = (st, s, u)"
    and k: "os_get_current_time (mach_absolute_ticks C) = (stk, sk, uk)"
    using assms(1,2) by (simp_all add: CURRENT_UPTIME_dk_def CURRENT_UPTIME_k_def)
  have ns: "?ns = ?t * numer div denom" using assms(3) by (simp add: timebase_def)
  have "?ns div 10 ^ 9 \<le> ?ns div 1000" by (rule div_le_mono2) simp_all
  with assms(5) have secs: "?ns div 10 ^ 9 < 2 ^ 32" by linarith
  have sum: "unat s * 10 ^ 6 + unat u = ?ns div 1000 \<longleftrightarrow> ?ns < 10 ^ 9"
    using current_time_sum [OF dk secs] assms(5) by blast
  have same: "sk = s \<and> uk = u" if "numer = denom"
  proof -
    from that ns assms(4) have "uptime_raw_nsec C = mach_absolute_ticks C"
      by (simp add: word_unat_eq_iff)
    with dk k show ?thesis by simp
  qed
  have "2 * unat sk \<le> unat s" if fast: "2 * denom \<le> numer"
  proof -
    have "?t * (2 * denom) div denom \<le> ?t * numer div denom"
      using fast by (intro div_le_mono mult_le_mono) simp_all
    with assms(4) ns have le: "2 * ?t \<le> ?ns" by (simp add: mult.assoc [symmetric])
    have "2 * (?t div 10 ^ 9) * 10 ^ 9 \<le> 2 * ?t" by simp
    with le have "2 * (?t div 10 ^ 9) * 10 ^ 9 \<le> ?ns" by linarith
    then have "2 * (?t div 10 ^ 9) \<le> ?ns div 10 ^ 9"
      by (subst less_eq_div_iff_mult_less_eq) simp_all
    moreover have "unat s = ?ns div 10 ^ 9"
      using os_get_current_time_values(2) [OF dk] secs by simp
    moreover have "unat sk \<le> ?t div 10 ^ 9" using os_get_current_time_values(2) [OF k] by simp
    ultimately show ?thesis by linarith
  qed
  with sum same show ?thesis by blast
qed

lemma current_time_total_witness:
  "\<exists>st s u stk sk uk.
     os_get_current_time (CURRENT_UPTIME_dk \<lparr>uptime_raw_nsec = 5000000000,
       mach_absolute_ticks = 120000000\<rparr>) = (st, s, u) \<and>
     os_get_current_time (CURRENT_UPTIME_k \<lparr>uptime_raw_nsec = 5000000000,
       mach_absolute_ticks = 120000000\<rparr>) = (stk, sk, uk) \<and>
     unat s * 10 ^ 6 + unat u \<noteq> 5000000 \<and> 2 * unat sk \<le> unat s"
proof -
  let ?C = "\<lparr>uptime_raw_nsec = 5000000000, mach_absolute_ticks = 120000000\<rparr>"
  obtain st s u stk sk uk where
    run: "os_get_current_time (CURRENT_UPTIME_dk ?C) = (st, s, u)"
      "os_get_current_time (CURRENT_UPTIME_k ?C) = (stk, sk, uk)" by (metis surj_pair)
  have "timebase 125 3 ?C" by (simp add: timebase_def)
  from current_time_total [OF run this] run show ?thesis by simp
qed

text \<open>
  Delays: \<open>os_delay\<close> and \<open>os_delay_us\<close> sleep the time they are asked for only when it
  is 0.  Every other \<open>os_delay_us\<close> sleeps 1000 times as long; \<open>os_delay\<close> does while its
  product stays below \<open>2^32\<close>.
\<close>

lemma delay_exact_iff:
  "(IOSleep_us (snd (os_delay ms)) = unat ms * 1000 \<longleftrightarrow> ms = 0) \<and>
   (IOSleep_us (snd (os_delay_us us)) = unat us \<longleftrightarrow> us = 0) \<and>
   IOSleep_us (snd (os_delay_us us)) = 1000 * unat us \<and>
   (unat ms * 1000 < 2 ^ 32 \<longrightarrow> IOSleep_us (snd (os_delay ms)) = 1000 * (unat ms * 1000))"
proof -
  have "ms * 1000 = ms \<longleftrightarrow> ms = 0"
  proof
    assume "ms * 1000 = ms"
    then have "ms * (1000 - 1) = 0" by (simp only: right_diff_distrib) simp
    then have "ms * 999 * 4226179031 = 0" by simp
    moreover have "999 * 4226179031 = (1 :: u32)" by simp
    ultimately show "ms = 0" by (metis mult.assoc mult.right_neutral)
  qed simp
  then have "IOSleep_us (snd (os_delay ms)) = unat ms * 1000 \<longleftrightarrow> ms = 0"
    by (simp add: IOSleep_us_def os_delay_def flip: word_unat_eq_iff)
  moreover have "unat ms * 1000 < 2 ^ 32 \<longrightarrow> unat (ms * 1000) = unat ms * 1000"
    by (simp add: unat_word_ariths)
  ultimately show ?thesis by (auto simp: IOSleep_us_def os_delay_def os_delay_us_def unat_eq_zero)
qed

lemma delay_exact_iff_witness:
  "IOSleep_us (snd (os_delay 5)) = 5000000 \<and> IOSleep_us (snd (os_delay_us 10)) = 10000"
  using delay_exact_iff [of 5 10] by simp

end
