(* ===== verification/Firmware.thy ===== *)
theory Firmware
  imports KernelMap CLayout
begin

text \<open>
  Firmware loading: \<open>firmware_kernel.cpp\<close> (suffix \<open>_k\<close>), which reads a file through the
  kernel's vnode calls, and \<open>firmware_driverkit.cpp\<close> (suffix \<open>_dk\<close>), which maps a bundle
  resource.  The answers of the system are arguments; a run reports the references it takes
  and drops.  The locale \<open>firmware_service\<close> is what a client of either pair relies on.
\<close>

section \<open>Kernel\<close>

definition PATH_MAX :: nat where
  "PATH_MAX = 1024"

definition sizeof_fw_context :: u64 where
  "sizeof_fw_context = of_nat (size_of nv_darwin_fw_context)"

text \<open>The directory the path array is initialised with, for the project directory of the build.\<close>

definition NVIDIA_FIRMWARE_DIR :: "string \<Rightarrow> string" where
  "NVIDIA_FIRMWARE_DIR project_dir = project_dir @ ''/Support/nvidia-binary-driver''"

text \<open>The name \<open>nv_firmware_for_chip_family\<close> gives an image, by the macro of \<open>nv_darwin.h\<close>.\<close>

definition NV_FIRMWARE_FOR_NAME :: "string \<Rightarrow> string" where
  "NV_FIRMWARE_FOR_NAME img = ''firmware/'' @ img @ ''.bin''"

text \<open>An array initialised with a string literal is filled up with NUL.\<close>

definition firmwarePath_init :: "string \<Rightarrow> char list" where
  "firmwarePath_init project_dir =
     NVIDIA_FIRMWARE_DIR project_dir
       @ replicate (PATH_MAX - length (NVIDIA_FIRMWARE_DIR project_dir)) NUL"

definition firmwarePath_k :: "string \<Rightarrow> char list \<Rightarrow> char list outcome" where
  "firmwarePath_k project_dir firmwareSubpath =
     c_strncpy (firmwarePath_init project_dir) firmwareSubpath PATH_MAX"

text \<open>
  The answers: the context of \<open>IOMalloc\<close>, the VFS context, the results of the three vnode
  calls, the vnode, the file size and the buffer of \<open>IOMallocData\<close>.
\<close>

record fw_answers =
  fw_context :: ptr
  fw_vfs :: ptr
  lookup_result :: "string \<Rightarrow> int"
  fw_vnode :: ptr
  getattr_result :: int
  va_data_size :: u64
  fw_data :: ptr
  rdwr_result :: int

text \<open>
  The structure \<open>nv_darwin_fw_context\<close> in memory: what the contexts at their addresses hold.
  \<open>IOMalloc\<close> does not clear what it hands out.
\<close>

record fw_contents =
  ctx_buffer :: ptr
  ctx_buffer_size :: u64

type_synonym fw_memory = "ptr \<Rightarrow> fw_contents"

text \<open>The calls to the kernel's allocators.\<close>

datatype fw_call =
    FwMalloc u64 ptr       \<comment> \<open>\<open>IOMalloc\<close>: size asked for, block returned\<close>
  | FwMallocData u64 ptr   \<comment> \<open>\<open>IOMallocData\<close>\<close>
  | FwFree ptr u64         \<comment> \<open>\<open>IOFree\<close>\<close>

text \<open>
  The returned handle, what was stored through \<open>fw_buf\<close> and \<open>fw_size\<close>, the length given to
  \<open>vn_rdwr\<close> (an \<open>int\<close>), and the references to the vnode and the VFS context.
\<close>

record fw_result =
  fw_handle :: ptr
  fw_out :: "(ptr \<times> u32) option"
  fw_read_len :: "int option"
  fw_refs :: "ref_event list"

record fw_result_k = fw_result +
  fw_calls :: "fw_call list"
  fw_mem :: fw_memory

definition nv_get_firmware_k ::
  "string \<Rightarrow> char list \<Rightarrow> fw_memory \<Rightarrow> fw_answers \<Rightarrow> fw_result_k outcome" where
  "nv_get_firmware_k project_dir firmwareSubpath m ans =
     (let fail = (\<lambda>len refs calls m. Done \<lparr>fw_handle = NULL, fw_out = None, fw_read_len = len,
                    fw_refs = refs, fw_calls = calls, fw_mem = m\<rparr>);
          context = fw_context ans; vfs = fw_vfs ans; vnode = fw_vnode ans;
          got = [FwMalloc sizeof_fw_context context]
      in
      if context = NULL then fail None [] got m
      else
      (case firmwarePath_k project_dir firmwareSubpath of
         Fault f \<Rightarrow> Fault f
       | Done firmwarePath \<Rightarrow>
         if lookup_result ans (c_text firmwarePath) \<noteq> 0 then
           fail None [Obtain vfs, Release vfs] got m
         else if getattr_result ans \<noteq> 0 then
           fail None [Obtain vfs, Obtain vnode, Release vnode, Release vfs] got m
         else
         (let m1 = m(context := (m context)\<lparr>ctx_buffer_size := va_data_size ans\<rparr>);
              buffer = fw_data ans;
              got1 = got @ [FwMallocData (ctx_buffer_size (m1 context)) buffer];
              m2 = m1(context := (m1 context)\<lparr>ctx_buffer := buffer\<rparr>)
          in
          if ctx_buffer (m2 context) = NULL then Fault Panic
          else
          (let len = sint (ucast (ctx_buffer_size (m2 context)) :: u32);
               refs = [Obtain vfs, Obtain vnode, Release vnode, Release vfs]
           in
           if rdwr_result ans \<noteq> 0 then fail (Some len) refs got1 m2
           else Done \<lparr>fw_handle = context,
                      fw_out = Some (ctx_buffer (m2 context), ucast (ctx_buffer_size (m2 context))),
                      fw_read_len = Some len, fw_refs = refs, fw_calls = got1, fw_mem = m2\<rparr>))))"

text \<open>\<open>nv_put_firmware\<close> reads the context at \<open>fw_handle\<close>.\<close>

definition nv_put_firmware_k :: "fw_memory \<Rightarrow> ptr \<Rightarrow> fw_call list outcome" where
  "nv_put_firmware_k m handle =
     (if handle = NULL then Fault NullDereference
      else Done ((if ctx_buffer (m handle) \<noteq> NULL
                  then [FwFree (ctx_buffer (m handle)) (ctx_buffer_size (m handle))] else [])
                 @ [FwFree handle sizeof_fw_context]))"

text \<open>
  The calls replayed on the kernel's blocks, each with its size and the allocator it is from.  A
  block is given back with the size it was handed out with; \<open>strict\<close> says whether it also has
  to go back to its own allocator, as the documentation of \<open>IOMallocData\<close> asks.
\<close>

datatype pool = GeneralPool | DataPool

fun pool_replay :: "bool \<Rightarrow> (ptr \<Rightarrow> (pool \<times> u64) option) \<Rightarrow> fw_call list
    \<Rightarrow> (ptr \<Rightarrow> (pool \<times> u64) option) option" where
  "pool_replay strict h [] = Some h"
| "pool_replay strict h (FwMalloc n p # cs) =
     (if p = NULL then pool_replay strict h cs
      else if h p = None then pool_replay strict (h(p \<mapsto> (GeneralPool, n))) cs else None)"
| "pool_replay strict h (FwMallocData n p # cs) =
     (if p = NULL then pool_replay strict h cs
      else if h p = None then pool_replay strict (h(p \<mapsto> (DataPool, n))) cs else None)"
| "pool_replay strict h (FwFree p n # cs) =
     (case h p of
        None \<Rightarrow> None
      | Some (pool, k) \<Rightarrow>
          if k = n \<and> (strict \<longrightarrow> pool = GeneralPool) then pool_replay strict (h(p := None)) cs
          else None)"

section \<open>DriverKit\<close>

text \<open>The answers: the main bundle, the result of \<open>loadResource\<close> and the mapped file.\<close>

record bundle_answers =
  main_bundle :: ptr
  load_result :: "string \<Rightarrow> kern_return"
  output_file :: ptr
  file_size :: u64
  file_data :: ptr

definition nv_get_firmware_dk :: "char list \<Rightarrow> bundle_answers \<Rightarrow> fw_result outcome" where
  "nv_get_firmware_dk firmwarePath ans =
     (if main_bundle ans = NULL then Fault NullDereference
      else if load_result ans (c_text firmwarePath) \<noteq> KERN_SUCCESS then
        Done \<lparr>fw_handle = NULL, fw_out = None, fw_read_len = None,
              fw_refs = [Release (main_bundle ans)]\<rparr>
      else if output_file ans = NULL then Fault NullDereference
      else
        Done \<lparr>fw_handle = output_file ans, fw_out = Some (file_data ans, ucast (file_size ans)),
              fw_read_len = None,
              fw_refs = [Obtain (output_file ans), Release (main_bundle ans)]\<rparr>)"

definition nv_put_firmware_dk :: "ptr \<Rightarrow> ref_event list" where
  "nv_put_firmware_dk handle = (if handle \<noteq> NULL then [Release handle] else [])"

section \<open>Load and unload\<close>

text \<open>
  A client loads an image and gives it back through its handle.  \<open>held\<close> are the references and
  blocks a load took, and \<open>residue\<close> is what one such pair leaves behind.
\<close>

locale firmware_service =
  fixes load :: "'a \<Rightarrow> 'r fw_result_scheme outcome"
    and held :: "'r fw_result_scheme \<Rightarrow> ref_event list"
    and unload :: "'r fw_result_scheme \<Rightarrow> ref_event list outcome"
    and residue :: "'a \<Rightarrow> ptr \<Rightarrow> int"
  assumes pair_residue: "load a = Done r \<Longrightarrow> fw_handle r \<noteq> NULL \<Longrightarrow>
      \<exists>evs. unload r = Done evs \<and> balance (held r @ evs) x = residue a x"
    and handle_iff: "load a = Done r \<Longrightarrow> fw_handle r \<noteq> NULL \<longleftrightarrow> fw_out r \<noteq> None"
begin

text \<open>Any number of loads and unloads, one after the other.\<close>

fun sessions :: "'a list \<Rightarrow> ref_event list outcome" where
  "sessions [] = Done []"
| "sessions (a # as) =
     (case load a of Fault f \<Rightarrow> Fault f
      | Done r \<Rightarrow>
          if fw_handle r = NULL then Fault NullDereference
          else (case unload r of Fault f \<Rightarrow> Fault f
                | Done evs \<Rightarrow>
                    (case sessions as of Fault f \<Rightarrow> Fault f
                     | Done rest \<Rightarrow> Done (held r @ evs @ rest))))"

lemma sessions_residue:
  "sessions as = Done evs \<Longrightarrow> balance evs x = (\<Sum>a\<leftarrow>as. residue a x)"
proof (induction as arbitrary: evs)
  case (Cons a as)
  from Cons.prems obtain r evs1 rest where steps: "load a = Done r" "fw_handle r \<noteq> NULL"
    "unload r = Done evs1" "sessions as = Done rest" "evs = held r @ evs1 @ rest"
    by (auto split: outcome.splits if_splits)
  with pair_residue [OF steps(1,2), of x] Cons.IH [OF steps(4)] show ?case by auto
qed simp

end

lemma c_strncpy_text:
  assumes "NUL \<in> set src" and "length dst = n"
  shows "c_strncpy dst src n = Done (take n (c_text src) @ replicate (n - length (c_text src)) NUL)"
proof -
  have "n - min (length (c_text src)) n = n - length (c_text src)" by simp
  with assms show ?thesis by (simp add: c_strncpy_def overwrite_def Let_def)
qed

text \<open>The kernel's blocks as references: one for each block handed out.\<close>

fun block_event :: "fw_call \<Rightarrow> ref_event" where
  "block_event (FwMalloc n p) = Obtain p"
| "block_event (FwMallocData n p) = Obtain p"
| "block_event (FwFree p n) = Release p"

definition held_k :: "fw_result_k \<Rightarrow> ref_event list" where
  "held_k r = fw_refs r @ map block_event (fw_calls r)"

definition unload_k :: "fw_result_k \<Rightarrow> ref_event list outcome" where
  "unload_k r =
     (case nv_put_firmware_k (fw_mem r) (fw_handle r) of
        Fault f \<Rightarrow> Fault f | Done cs \<Rightarrow> Done (map block_event cs))"

interpretation firmware_k: firmware_service
  "\<lambda>(m, ans). nv_get_firmware_k dir sub m ans" held_k unload_k "\<lambda>_ _. 0" for dir sub
  by unfold_locales
    (auto simp: nv_get_firmware_k_def nv_put_firmware_k_def held_k_def unload_k_def Let_def
      split: outcome.splits if_splits)

interpretation firmware_dk: firmware_service
  "nv_get_firmware_dk path" fw_refs "\<lambda>r. Done (nv_put_firmware_dk (fw_handle r))"
  "\<lambda>ans x. if x = main_bundle ans then - 1 else 0" for path
  by unfold_locales
    (auto simp: nv_get_firmware_dk_def nv_put_firmware_dk_def split: if_splits)

section \<open>Properties\<close>

definition example_fw :: fw_answers where
  "example_fw = \<lparr>fw_context = 0x10, fw_vfs = 0x20, lookup_result = (\<lambda>_. 0), fw_vnode = 0x30,
     getattr_result = 0, va_data_size = 0x100000010, fw_data = 0x40, rdwr_result = 0\<rparr>"

definition example_fw_mem :: fw_memory where
  "example_fw_mem = (\<lambda>_. \<lparr>ctx_buffer = 0, ctx_buffer_size = 0\<rparr>)"

text \<open>
  The path: \<open>strncpy\<close> overwrites the directory, so the kernel looks up the firmware's
  relative name alone (cut to \<open>PATH_MAX\<close>), whatever directory the build gave.  When that name
  is shorter than \<open>PATH_MAX\<close>, the lookup sees exactly it.
\<close>

lemma firmware_path_drops_directory:
  assumes "length (NVIDIA_FIRMWARE_DIR dir) < PATH_MAX" and "NUL \<in> set sub"
  shows "\<exists>path. firmwarePath_k dir sub = Done path \<and> length path = PATH_MAX \<and>
    c_text path = take PATH_MAX (c_text sub) \<and>
    (\<forall>m ans r. lookup_result ans (take PATH_MAX (c_text sub)) \<noteq> 0 \<longrightarrow>
       nv_get_firmware_k dir sub m ans = Done r \<longrightarrow> fw_handle r = NULL)"
proof -
  have path: "firmwarePath_k dir sub =
      Done (take PATH_MAX (c_text sub) @ replicate (PATH_MAX - length (c_text sub)) NUL)"
    using assms by (simp add: firmwarePath_k_def firmwarePath_init_def c_strncpy_text)
  have looked_up: "c_text (take PATH_MAX (c_text sub) @ replicate (PATH_MAX - length (c_text sub)) NUL)
      = take PATH_MAX (c_text sub)"
  proof (cases "PATH_MAX - length (c_text sub)")
    case 0
    then show ?thesis using c_text_no_NUL [of sub] by (auto intro: c_text_id dest: in_set_takeD)
  next
    case (Suc k)
    have "NUL \<notin> set (take PATH_MAX (c_text sub))"
      using c_text_no_NUL [of sub] by (auto dest: in_set_takeD)
    with Suc show ?thesis by simp
  qed
  have "fw_handle r = NULL"
    if "lookup_result ans (take PATH_MAX (c_text sub)) \<noteq> 0" "nv_get_firmware_k dir sub m ans = Done r"
    for m ans r
    using that by (auto simp: nv_get_firmware_k_def path looked_up Let_def split: if_splits)
  with path looked_up show ?thesis by auto
qed

lemma firmware_path_drops_directory_witness:
  "\<exists>path. firmwarePath_k ''/w'' (NV_FIRMWARE_FOR_NAME ''gsp_ga10x'' @ [NUL]) = Done path \<and>
     c_text path = ''firmware/gsp_ga10x.bin''"
proof -
  let ?sub = "NV_FIRMWARE_FOR_NAME ''gsp_ga10x'' @ [NUL]"
  have "length (NVIDIA_FIRMWARE_DIR ''/w'') < PATH_MAX" and "NUL \<in> set ?sub"
    and "c_text ?sub = ''firmware/gsp_ga10x.bin''"
    by (simp_all add: NVIDIA_FIRMWARE_DIR_def NV_FIRMWARE_FOR_NAME_def PATH_MAX_def c_text_def NUL_def)
  from firmware_path_drops_directory [OF this(1,2)] this(3) show ?thesis
    by (auto simp: PATH_MAX_def)
qed

text \<open>
  C24. What a kernel load holds: the vnode and the VFS context are given back on every path.  A
  load that fails keeps the context it allocated, and one that fails in \<open>vn_rdwr\<close> also the
  buffer.  One that succeeds has stored the buffer and its size in the context of its handle, so
  that \<open>nv_put_firmware\<close> frees both blocks, each with the size it was allocated with; but it
  gives the buffer, which is from \<open>IOMallocData\<close>, to \<open>IOFree\<close>, so the calls are never right.
\<close>

theorem firmware_k_ownership:
  assumes "nv_get_firmware_k dir sub m ans = Done r" and "fw_context ans \<noteq> fw_data ans"
  shows "(\<forall>x. balance (fw_refs r) x = 0) \<and>
    fw_read_len r \<in> {None, Some (sint (ucast (va_data_size ans) :: u32))} \<and>
    (if fw_handle r = NULL
     then fw_out r = None \<and>
       pool_replay True Map.empty (fw_calls r) = Some
         (if fw_context ans = NULL then Map.empty
          else if fw_read_len r = None then [fw_context ans \<mapsto> (GeneralPool, sizeof_fw_context)]
          else [fw_context ans \<mapsto> (GeneralPool, sizeof_fw_context),
                fw_data ans \<mapsto> (DataPool, va_data_size ans)])
     else fw_out r = Some (fw_data ans, ucast (va_data_size ans)) \<and>
       (\<exists>cs. nv_put_firmware_k (fw_mem r) (fw_handle r) = Done cs \<and>
          pool_replay False Map.empty (fw_calls r @ cs) = Some Map.empty \<and>
          pool_replay True Map.empty (fw_calls r @ cs) = None))"
  using assms
  by (auto simp: nv_get_firmware_k_def nv_put_firmware_k_def Let_def
      split: outcome.splits if_splits)

text \<open>A read that fails, and a load that succeeds.\<close>

theorem firmware_k_ownership_witness:
  "(\<exists>r. nv_get_firmware_k ''/w'' (''a.bin'' @ [NUL]) example_fw_mem (example_fw\<lparr>rdwr_result := 5\<rparr>) = Done r \<and>
     pool_replay True Map.empty (fw_calls r) =
       Some [0x10 \<mapsto> (GeneralPool, sizeof_fw_context), 0x40 \<mapsto> (DataPool, 0x100000010)]) \<and>
   (\<exists>r cs. nv_get_firmware_k ''/w'' (''a.bin'' @ [NUL]) example_fw_mem example_fw = Done r \<and>
     nv_put_firmware_k (fw_mem r) (fw_handle r) = Done cs \<and>
     pool_replay True Map.empty (fw_calls r @ cs) = None)"
proof -
  obtain path where path: "firmwarePath_k ''/w'' (''a.bin'' @ [NUL]) = Done path"
    by (simp add: firmwarePath_k_def firmwarePath_init_def c_strncpy_text PATH_MAX_def
        NVIDIA_FIRMWARE_DIR_def)
  then obtain r where r: "nv_get_firmware_k ''/w'' (''a.bin'' @ [NUL]) example_fw_mem
      (example_fw\<lparr>rdwr_result := 5\<rparr>) = Done r" "fw_handle r = NULL" "fw_read_len r \<noteq> None"
    by (simp add: nv_get_firmware_k_def example_fw_def Let_def)
  from path obtain q where q: "nv_get_firmware_k ''/w'' (''a.bin'' @ [NUL]) example_fw_mem example_fw = Done q"
      "fw_handle q \<noteq> NULL"
    by (simp add: nv_get_firmware_k_def example_fw_def Let_def)
  have "fw_context (example_fw\<lparr>rdwr_result := 5\<rparr>) \<noteq> fw_data (example_fw\<lparr>rdwr_result := 5\<rparr>)"
    "fw_context example_fw \<noteq> fw_data example_fw" by (simp_all add: example_fw_def)
  with firmware_k_ownership [OF r(1)] r firmware_k_ownership [OF q(1)] q show ?thesis
    by (simp add: example_fw_def) blast
qed

text \<open>
  Balanced sessions: any sequence of successful loads, each given back, leaves nothing
  allocated in the kernel (as far as blocks are counted, not their allocators); on DriverKit it leaves no mapped file, and has released the main
  bundle once per load.
\<close>

lemma firmware_sessions_balanced:
  "(firmware_k.sessions dir sub as = Done evs \<longrightarrow> balance evs x = 0) \<and>
   (firmware_dk.sessions path bs = Done fs \<longrightarrow>
      balance fs x = - int (length (filter (\<lambda>b. main_bundle b = x) bs)))"
proof -
  have "(\<Sum>b\<leftarrow>bs. if x = main_bundle b then - 1 else 0 :: int) =
      - int (length (filter (\<lambda>b. main_bundle b = x) bs))"
    by (induction bs) auto
  then show ?thesis
    using firmware_k.sessions_residue [of dir sub as evs x]
      firmware_dk.sessions_residue [of path bs fs x] by simp
qed

definition example_bundle :: bundle_answers where
  "example_bundle = \<lparr>main_bundle = 0x50, load_result = (\<lambda>_. KERN_SUCCESS), output_file = 0x60,
     file_size = 0x1000, file_data = 0x7000\<rparr>"

lemma firmware_sessions_balanced_witness:
  "\<exists>fs. firmware_dk.sessions (''a.bin'' @ [NUL]) [example_bundle, example_bundle] = Done fs \<and>
     balance fs 0x60 = 0 \<and> balance fs 0x50 = - 2"
proof -
  obtain fs where fs: "firmware_dk.sessions (''a.bin'' @ [NUL]) [example_bundle, example_bundle]
      = Done fs"
    by (simp add: nv_get_firmware_dk_def example_bundle_def)
  from firmware_sessions_balanced [THEN conjunct2, rule_format, OF fs, of "0x60"]
    firmware_sessions_balanced [THEN conjunct2, rule_format, OF fs, of "0x50"] fs
  show ?thesis by (simp add: example_bundle_def)
qed

end
