(* ===== verification/LogNvlink.thy ===== *)
theory LogNvlink
  imports Libc
begin

text \<open>
  \<open>debug.cpp\<close>, \<open>nvlink.cpp\<close> and \<open>userland.cpp\<close>: bounded formatting of log messages,
  the NVLink library's entry points, which call the allocator of \<open>libc.cpp\<close>, and the copies
  between the driver and its clients.  \<open>render\<close> is the formatting of the C library, as in
  \<open>os_snprintf\<close>; a function that logs returns the lines it logged.
\<close>

section \<open>Logging\<close>

definition out_string :: "string \<Rightarrow> string list" where
  "out_string str = [str]"

definition MAX_LOG_STRING_LENGTH :: nat where
  "MAX_LOG_STRING_LENGTH = 8192"

text \<open>\<open>vsnprintf\<close> into the zeroed array \<open>message\<close>.\<close>

definition log_message :: "(string \<Rightarrow> fmt_arg list \<Rightarrow> string) \<Rightarrow> string \<Rightarrow> fmt_arg list \<Rightarrow> string" where
  "log_message render printf_format args =
     c_snprintf MAX_LOG_STRING_LENGTH (render printf_format args)"

text \<open>The result and the line; \<open>%d\<close> prints the level as a signed number.\<close>

definition nv_printf ::
  "(string \<Rightarrow> fmt_arg list \<Rightarrow> string) \<Rightarrow> u32 \<Rightarrow> string \<Rightarrow> fmt_arg list \<Rightarrow> int \<times> string list" where
  "nv_printf render debuglevel printf_format args =
     (0, [render ''[Level %d] %s''
            [IntArg (sint debuglevel), StrArg (log_message render printf_format args)]])"

text \<open>
  The line is logged first; then \<open>IOFree\<close> is given the array, which is on the stack.  The
  result is what was logged and how the call ends.
\<close>

definition nv_log_error ::
  "(string \<Rightarrow> fmt_arg list \<Rightarrow> string) \<Rightarrow> u32 \<Rightarrow> string \<Rightarrow> fmt_arg list
   \<Rightarrow> string list \<times> nv_status outcome" where
  "nv_log_error render error_number format ap =
     ([render ''[ERROR CODE %d] %s''
         [IntArg (sint error_number), StrArg (log_message render format ap)]],
      Fault InvalidFree)"

definition os_bug_check ::
  "(string \<Rightarrow> fmt_arg list \<Rightarrow> string) \<Rightarrow> u32 \<Rightarrow> string \<Rightarrow> string list" where
  "os_bug_check render bugCode bugCodeStr = [render ''panic: %s'' [StrArg bugCodeStr]]"

definition os_dbg_init :: "string list" where
  "os_dbg_init = []"

definition os_dbg_set_level :: "u32 \<Rightarrow> string list" where
  "os_dbg_set_level level = []"

definition os_dbg_breakpoint :: "string list" where
  "os_dbg_breakpoint = []"

section \<open>NVLink\<close>

definition MAX_ERROR_STRING :: nat where
  "MAX_ERROR_STRING = 512"

text \<open>The numbers of the levels are those of \<open>nvlink_os.h\<close>.\<close>

record nvlink_levels =
  NVLINK_DBG_LEVEL_INFO :: int
  NVLINK_DBG_LEVEL_SETUP :: int
  NVLINK_DBG_LEVEL_USERERRORS :: int
  NVLINK_DBG_LEVEL_WARNINGS :: int
  NVLINK_DBG_LEVEL_ERRORS :: int

definition sys_log_level :: "nvlink_levels \<Rightarrow> int \<Rightarrow> string" where
  "sys_log_level L log_level =
     (if log_level = NVLINK_DBG_LEVEL_INFO L then ''[NVLINK INFO] ''
      else if log_level = NVLINK_DBG_LEVEL_SETUP L then ''[NVLINK DEBUG] ''
      else if log_level = NVLINK_DBG_LEVEL_USERERRORS L then ''[NVLINK NOTICE] ''
      else if log_level = NVLINK_DBG_LEVEL_WARNINGS L then ''[NVLINK WARNING] ''
      else if log_level = NVLINK_DBG_LEVEL_ERRORS L then ''[NVLINK ERROR] ''
      else ''[NVLINK INFO] '')"

definition nvlink_message ::
  "(string \<Rightarrow> fmt_arg list \<Rightarrow> string) \<Rightarrow> string \<Rightarrow> fmt_arg list \<Rightarrow> string" where
  "nvlink_message render fmt args =
     take (MAX_ERROR_STRING - 1) (c_snprintf MAX_ERROR_STRING (render fmt args))"

definition nvlink_print ::
  "(string \<Rightarrow> fmt_arg list \<Rightarrow> string) \<Rightarrow> nvlink_levels \<Rightarrow> string \<Rightarrow> int \<Rightarrow> string \<Rightarrow> int \<Rightarrow> string
   \<Rightarrow> fmt_arg list \<Rightarrow> string list" where
  "nvlink_print render L file line func log_level fmt args =
     [render ''%snvidia-nvlink: %s''
        [StrArg (sys_log_level L log_level), StrArg (nvlink_message render fmt args)]]"

text \<open>
  \<open>nvlink_malloc\<close> ignores the status; when \<open>os_alloc_mem\<close> stored nothing it returns a
  variable that was never set.
\<close>

definition nvlink_malloc ::
  "'d libkern \<Rightarrow> 'd \<Rightarrow> ptr \<Rightarrow> u64 \<Rightarrow> ('d \<times> heap_call list \<times> ptr) outcome" where
  "nvlink_malloc K d mall sz =
     (case os_alloc_mem K d mall sz of (d', calls, status, stored) \<Rightarrow>
        (case stored of None \<Rightarrow> Fault UninitialisedRead
         | Some p \<Rightarrow> Done (d', calls, p)))"

definition nvlink_free :: "'d libkern \<Rightarrow> 'd \<Rightarrow> ptr \<Rightarrow> ('d \<times> heap_call list) outcome" where
  "nvlink_free K d p = os_free_mem K d p"

definition nvlink_assert :: "int \<Rightarrow> string list" where
  "nvlink_assert expression = [''NVLink: Assertion failed!'' @ [CHR 0x0A]]"

definition nvlink_memcpy :: "u8 list \<Rightarrow> u8 list \<Rightarrow> u64 \<Rightarrow> u8 list outcome" where
  "nvlink_memcpy dst src len = c_memcpy dst src (unat len)"

text \<open>\<open>memset\<close> converts the value to a byte.\<close>

definition nvlink_memset :: "u8 list \<Rightarrow> int \<Rightarrow> u64 \<Rightarrow> u8 list outcome" where
  "nvlink_memset dest val sz = c_memset dest (of_int val) (unat sz)"

text \<open>The argument of \<open>IOSleep\<close>.\<close>

definition nvlink_sleep :: "u32 \<Rightarrow> u32" where
  "nvlink_sleep ms = ms"

definition nvlink_strlen :: "char list \<Rightarrow> u64 outcome" where
  "nvlink_strlen s = (case c_strlen s of Fault f \<Rightarrow> Fault f | Done n \<Rightarrow> Done (of_nat n))"

definition os_imex_channel_is_supported :: bool where
  "os_imex_channel_is_supported = False"

definition os_imex_channel_count :: int where
  "os_imex_channel_count = 0"

definition os_imex_channel_get :: int where
  "os_imex_channel_get = - 1"

section \<open>Copies to and from clients\<close>

definition os_memcpy_from_user :: "u8 list \<Rightarrow> u8 list \<Rightarrow> u32 \<Rightarrow> u8 list outcome" where
  "os_memcpy_from_user dst src len = c_memcpy dst src (unat len)"

definition os_memcpy_to_user :: "u8 list \<Rightarrow> u8 list \<Rightarrow> u32 \<Rightarrow> u8 list outcome" where
  "os_memcpy_to_user dst src len = c_memcpy dst src (unat len)"

section \<open>Contracts\<close>

text \<open>A formatter that keeps a bounded prefix of what it renders.\<close>

locale bounded_formatter =
  fixes emit :: "string \<Rightarrow> fmt_arg list \<Rightarrow> string"
    and rendered :: "string \<Rightarrow> fmt_arg list \<Rightarrow> string"
    and cap :: nat
  assumes cap_pos: "0 < cap"
    and emit_prefix: "emit fmt args = take (cap - 1) (rendered fmt args)"
begin

lemma emit_bounded: "length (emit fmt args) < cap"
  using cap_pos by (simp add: emit_prefix)

lemma emit_lossless_iff: "emit fmt args = rendered fmt args \<longleftrightarrow> length (rendered fmt args) < cap"
  using cap_pos by (auto simp: emit_prefix nvlists)

lemma emit_length: "length (emit fmt args) = min (length (rendered fmt args)) (cap - 1)"
  by (simp add: emit_prefix min.commute)

end

interpretation log_formatter: bounded_formatter "log_message render" render MAX_LOG_STRING_LENGTH
  for render
  by unfold_locales (simp_all add: log_message_def c_snprintf_def MAX_LOG_STRING_LENGTH_def)

interpretation nvlink_formatter: bounded_formatter "nvlink_message render" render MAX_ERROR_STRING
  for render
  by unfold_locales (simp_all add: nvlink_message_def c_snprintf_def MAX_ERROR_STRING_def)

text \<open>A copy of \<open>n\<close> elements: all or a fault, and nothing past them changes.\<close>

locale block_copy =
  fixes copy :: "'a list \<Rightarrow> 'a list \<Rightarrow> nat \<Rightarrow> 'a list outcome"
    and width :: nat
  assumes copy_ok: "n < width \<Longrightarrow> n \<le> length src \<Longrightarrow> n \<le> length dst \<Longrightarrow>
      copy dst src n = Done (take n src @ drop n dst)"
    and copy_fault: "n < width \<Longrightarrow> length src < n \<or> length dst < n \<Longrightarrow>
      copy dst src n = Fault ArrayOutOfBounds"
begin

lemma copy_done_iff:
  "n < width \<Longrightarrow> is_done (copy dst src n) \<longleftrightarrow> n \<le> length src \<and> n \<le> length dst"
  by (cases "n \<le> length src \<and> n \<le> length dst") (auto simp: copy_ok copy_fault not_le)

lemma copy_back:
  assumes "n < width" and "copy dst src n = Done dst'"
  shows "copy src dst' n = Done src"
proof -
  have "n \<le> length src \<and> n \<le> length dst"
    using assms copy_done_iff [of n dst src] by simp
  with assms show ?thesis by (auto simp: copy_ok)
qed

end

lemma c_memcpy_ok: "n \<le> length src \<Longrightarrow> n \<le> length dst \<Longrightarrow>
    c_memcpy dst src n = Done (take n src @ drop n dst)"
  by (simp add: c_memcpy_def overwrite_def min.absorb2)

lemma c_memcpy_fault: "length src < n \<or> length dst < n \<Longrightarrow> c_memcpy dst src n = Fault ArrayOutOfBounds"
  by (auto simp: c_memcpy_def overwrite_def)

interpretation from_user: block_copy "\<lambda>d s n. os_memcpy_from_user d s (of_nat n)" "2 ^ 32"
  by unfold_locales (simp_all add: os_memcpy_from_user_def unat_of_nat c_memcpy_ok c_memcpy_fault)

interpretation to_user: block_copy "\<lambda>d s n. os_memcpy_to_user d s (of_nat n)" "2 ^ 32"
  by unfold_locales (simp_all add: os_memcpy_to_user_def unat_of_nat c_memcpy_ok c_memcpy_fault)

interpretation mem_copy: block_copy "\<lambda>d s n. os_mem_copy d s (of_nat n)" "2 ^ 32"
  by unfold_locales (simp_all add: os_mem_copy_def unat_of_nat c_memcpy_ok c_memcpy_fault)

interpretation nvlink_copy: block_copy "\<lambda>d s n. nvlink_memcpy d s (of_nat n)" "2 ^ 64"
  by unfold_locales (simp_all add: nvlink_memcpy_def unat_of_nat c_memcpy_ok c_memcpy_fault)

section \<open>Properties\<close>

text \<open>
  Log messages: \<open>nv_printf\<close> and \<open>nvlink_print\<close> log one line, whose message is the
  rendered text up to 8191 and 511 characters; it is the whole text exactly when that fits.
\<close>

lemma log_messages_bounded:
  "(\<exists>m. nv_printf render lvl fmt args =
      (0, [render ''[Level %d] %s'' [IntArg (sint lvl), StrArg m]]) \<and>
      length m = min (length (render fmt args)) 8191 \<and>
      (m = render fmt args \<longleftrightarrow> length (render fmt args) < 8192)) \<and>
   (\<exists>m. nvlink_print render L file line func level fmt args =
      [render ''%snvidia-nvlink: %s'' [StrArg (sys_log_level L level), StrArg m]] \<and>
      length m = min (length (render fmt args)) 511 \<and>
      (m = render fmt args \<longleftrightarrow> length (render fmt args) < 512))"
proof
  show "\<exists>m. nv_printf render lvl fmt args =
      (0, [render ''[Level %d] %s'' [IntArg (sint lvl), StrArg m]]) \<and>
      length m = min (length (render fmt args)) 8191 \<and>
      (m = render fmt args \<longleftrightarrow> length (render fmt args) < 8192)"
    using log_formatter.emit_length [of render fmt args]
      log_formatter.emit_lossless_iff [of render fmt args]
    by (intro exI [of _ "log_message render fmt args"])
      (simp add: nv_printf_def MAX_LOG_STRING_LENGTH_def)
  show "\<exists>m. nvlink_print render L file line func level fmt args =
      [render ''%snvidia-nvlink: %s'' [StrArg (sys_log_level L level), StrArg m]] \<and>
      length m = min (length (render fmt args)) 511 \<and>
      (m = render fmt args \<longleftrightarrow> length (render fmt args) < 512)"
    using nvlink_formatter.emit_length [of render fmt args]
      nvlink_formatter.emit_lossless_iff [of render fmt args]
    by (intro exI [of _ "nvlink_message render fmt args"])
      (simp add: nvlink_print_def MAX_ERROR_STRING_def)
qed

text \<open>
  NVLink's allocator: with a tracking dictionary, \<open>nvlink_malloc\<close> returns the block the
  kernel gave and \<open>nvlink_free\<close> of it frees that block, once, with the size the tracker kept,
  and leaves the other entries alone.  When the kernel has no memory, \<open>nvlink_malloc\<close> reads a
  pointer that was never set.
\<close>

lemma nvlink_malloc_free:
  assumes "libkern_objects K" and "factories_succeed K"
  shows "nvlink_malloc K d NULL n = Fault UninitialisedRead \<and>
    (p \<noteq> NULL \<longrightarrow> (\<exists>d1 d2. nvlink_malloc K d p n = Done (d1, [IOMallocZero n p], p) \<and>
      nvlink_free K d1 p = Done (d2, [IOFree p (tracked_size n)]) \<and>
      nvlink_free K d2 p = Done (d2, []) \<and>
      (\<forall>q. keyName q \<noteq> keyName p \<longrightarrow> reg_find K d2 q = reg_find K d q)))"
proof -
  note tracker = libkern_objects.tracker_simps [OF assms(1)] assms(2)
  have "nvlink_malloc K d p n =
      Done (reg_put K d p (OSNumber (tracked_size n)), [IOMallocZero n p], p)" if "p \<noteq> NULL"
    using that by (simp add: nvlink_malloc_def tracker)
  moreover have "nvlink_free K (reg_put K d p v) p = Done (reg_del K (reg_put K d p v) p, [IOFree p w])"
    if "v = OSNumber w" for v w
    using that by (simp add: nvlink_free_def tracker)
  moreover have "nvlink_free K (reg_del K e p) p = Done (reg_del K e p, [])" for e
    by (simp add: nvlink_free_def tracker)
  moreover have "keyName q \<noteq> keyName p \<Longrightarrow> reg_find K (reg_del K (reg_put K d p v) p) q = reg_find K d q"
    for q v by (simp add: tracker)
  moreover have "nvlink_malloc K d NULL n = Fault UninitialisedRead"
    by (simp add: nvlink_malloc_def os_alloc_mem_def)
  ultimately show ?thesis by blast
qed

lemma nvlink_malloc_free_witness:
  "\<exists>d1 d2. nvlink_malloc map_libkern Map.empty 0x1000 300 = Done (d1, [IOMallocZero 300 0x1000], 0x1000) \<and>
     nvlink_free map_libkern d1 0x1000 = Done (d2, [IOFree 0x1000 44])"
proof -
  have "tracked_size 300 = 44"
    by (simp add: tracked_size_def sizeof_NvU64_def take_bit_eq_mask mask_eq_exp_minus_1)
  with nvlink_malloc_free [OF map_libkern.libkern_objects_axioms map_libkern_factories,
      where p = "0x1000" and n = 300 and d = Map.empty, THEN conjunct2]
  show ?thesis by auto
qed

text \<open>
  Copies to and from clients: what \<open>os_memcpy_to_user\<close> copied out,
  \<open>os_memcpy_from_user\<close> copies back unchanged; both agree with \<open>os_mem_copy\<close> and
  \<open>nvlink_memcpy\<close> on every input, faults included.
\<close>

lemma user_copy_roundtrip:
  "(os_memcpy_to_user user kbuf len = Done user' \<longrightarrow>
      os_memcpy_from_user kbuf user' len = Done kbuf) \<and>
   os_memcpy_to_user user kbuf len = os_mem_copy user kbuf len \<and>
   os_memcpy_from_user kbuf user len = os_mem_copy kbuf user len \<and>
   nvlink_memcpy kbuf user (ucast len) = os_mem_copy kbuf user len"
proof -
  have "os_memcpy_from_user d s n = os_memcpy_to_user d s n" for d s n
    by (simp add: os_memcpy_from_user_def os_memcpy_to_user_def)
  then have "os_memcpy_from_user kbuf user' len = Done kbuf"
    if "os_memcpy_to_user user kbuf len = Done user'"
    using to_user.copy_back [of "unat len" user kbuf user'] that unat_less_two_power_32 [of len]
    by simp
  then show ?thesis
    by (simp add: os_memcpy_to_user_def os_memcpy_from_user_def os_mem_copy_def nvlink_memcpy_def)
qed

lemma user_copy_roundtrip_witness:
  "os_memcpy_from_user [1, 2, 3] [1, 2, 9] 2 = Done [1, 2, 3]"
proof -
  have "os_memcpy_to_user [8, 8, 9] [1, 2, 3] 2 = Done [1, 2, 9]"
    by (simp add: os_memcpy_to_user_def c_memcpy_def overwrite_def)
  then show ?thesis using user_copy_roundtrip by blast
qed

end
