(* ===== verification/SpdmPolyfill.thy ===== *)
theory SpdmPolyfill
  imports NvPrelude
begin

text \<open>
  The library \<open>libspdm-polyfill\<close>: the cryptographic entry points NVIDIA's code links
  against, none of which is implemented.  Each file is a datatype of its functions and a
  function that gives their results; none touches its arguments.  What matters to a client is
  which of them report success.
\<close>

section \<open>Results\<close>

datatype spdm_result =
    SBool bool   \<comment> \<open>\<open>true\<close> is success\<close>
  | SPointer ptr
  | SInt int
  | SVoid

text \<open>A number returned from a \<open>bool\<close> function.\<close>

definition c_bool :: "int \<Rightarrow> bool" where
  "c_bool n \<longleftrightarrow> n \<noteq> 0"

section \<open>The files\<close>

datatype rand_call =
    Random_bytes
  | Random_seed

fun libspdm_rand :: "rand_call \<Rightarrow> spdm_result" where
  "libspdm_rand Random_bytes = SBool True"
| "libspdm_rand Random_seed = SBool True"

datatype sha_call =
    Sha256_new
  | Sha256_free
  | Sha256_init
  | Sha256_duplicate
  | Hmac_sha256_update
  | Sha256_update
  | Sha256_final
  | Sha256_hash_all
  | Sha384_new
  | Sha384_free
  | Sha384_init
  | Sha384_duplicate
  | Sha384_update
  | Sha384_final
  | Sha384_hash_all

fun libspdm_sha :: "sha_call \<Rightarrow> spdm_result" where
  "libspdm_sha Sha256_new = SPointer NULL"
| "libspdm_sha Sha256_free = SVoid"
| "libspdm_sha Sha256_init = SBool False"
| "libspdm_sha Sha256_duplicate = SBool False"
| "libspdm_sha Hmac_sha256_update = SBool False"
| "libspdm_sha Sha256_update = SBool False"
| "libspdm_sha Sha256_final = SBool False"
| "libspdm_sha Sha256_hash_all = SBool False"
| "libspdm_sha Sha384_new = SPointer NULL"
| "libspdm_sha Sha384_free = SVoid"
| "libspdm_sha Sha384_init = SBool False"
| "libspdm_sha Sha384_duplicate = SBool False"
| "libspdm_sha Sha384_update = SBool False"
| "libspdm_sha Sha384_final = SBool False"
| "libspdm_sha Sha384_hash_all = SBool False"

datatype hmac_sha_call =
    Hmac_sha256_new
  | Hmac_sha256_free
  | Hmac_sha256_set_key
  | Hmac_sha256_duplicate
  | Hmac_sha256_final
  | Hmac_sha256_all
  | Hmac_sha384_new
  | Hmac_sha384_free
  | Hmac_sha384_set_key
  | Hmac_sha384_duplicate
  | Hmac_sha384_update
  | Hmac_sha384_final
  | Hmac_sha384_all

fun libspdm_hmac_sha :: "hmac_sha_call \<Rightarrow> spdm_result" where
  "libspdm_hmac_sha Hmac_sha256_new = SPointer NULL"
| "libspdm_hmac_sha Hmac_sha256_free = SVoid"
| "libspdm_hmac_sha Hmac_sha256_set_key = SBool False"
| "libspdm_hmac_sha Hmac_sha256_duplicate = SBool False"
| "libspdm_hmac_sha Hmac_sha256_final = SBool False"
| "libspdm_hmac_sha Hmac_sha256_all = SBool False"
| "libspdm_hmac_sha Hmac_sha384_new = SPointer NULL"
| "libspdm_hmac_sha Hmac_sha384_free = SVoid"
| "libspdm_hmac_sha Hmac_sha384_set_key = SBool False"
| "libspdm_hmac_sha Hmac_sha384_duplicate = SBool False"
| "libspdm_hmac_sha Hmac_sha384_update = SBool False"
| "libspdm_hmac_sha Hmac_sha384_final = SBool False"
| "libspdm_hmac_sha Hmac_sha384_all = SBool False"

datatype hkdf_sha_call =
    Hkdf_sha256_extract
  | Hkdf_sha256_expand
  | Hkdf_sha384_extract
  | Hkdf_sha384_expand
  | Hkdf_sha512_extract
  | Hkdf_sha512_expand

fun libspdm_hkdf_sha :: "hkdf_sha_call \<Rightarrow> spdm_result" where
  "libspdm_hkdf_sha Hkdf_sha256_extract = SBool False"
| "libspdm_hkdf_sha Hkdf_sha256_expand = SBool False"
| "libspdm_hkdf_sha Hkdf_sha384_extract = SBool False"
| "libspdm_hkdf_sha Hkdf_sha384_expand = SBool False"
| "libspdm_hkdf_sha Hkdf_sha512_extract = SBool False"
| "libspdm_hkdf_sha Hkdf_sha512_expand = SBool False"

datatype aead_call =
    Aead_free
  | Aead_gcm_prealloc
  | Aead_aes_gcm_encrypt_prealloc
  | Aead_aes_gcm_decrypt_prealloc

fun libspdm_aead :: "aead_call \<Rightarrow> spdm_result" where
  "libspdm_aead Aead_free = SVoid"
| "libspdm_aead Aead_gcm_prealloc = SBool (c_bool (- 19))"
| "libspdm_aead Aead_aes_gcm_encrypt_prealloc = SBool False"
| "libspdm_aead Aead_aes_gcm_decrypt_prealloc = SBool False"

datatype aead_aes_gcm_call =
    Aead_aes_gcm_encrypt
  | Aead_aes_gcm_decrypt

fun libspdm_aead_aes_gcm :: "aead_aes_gcm_call \<Rightarrow> spdm_result" where
  "libspdm_aead_aes_gcm Aead_aes_gcm_encrypt = SBool False"
| "libspdm_aead_aes_gcm Aead_aes_gcm_decrypt = SBool False"

datatype ec_call =
    Ec_compute_key
  | Ec_generate_key
  | Ec_free
  | Ecdsa_sign
  | Ecdsa_verify

fun libspdm_ec :: "ec_call \<Rightarrow> spdm_result" where
  "libspdm_ec Ec_compute_key = SBool False"
| "libspdm_ec Ec_generate_key = SBool False"
| "libspdm_ec Ec_free = SVoid"
| "libspdm_ec Ecdsa_sign = SBool False"
| "libspdm_ec Ecdsa_verify = SBool False"

datatype ecc_call =
    Ec_new_by_nid

fun libspdm_ecc :: "ecc_call \<Rightarrow> spdm_result" where
  "libspdm_ecc Ec_new_by_nid = SPointer NULL"

datatype rsa_call =
    Rsa_new
  | Rsa_free
  | Rsa_set_key

fun libspdm_rsa :: "rsa_call \<Rightarrow> spdm_result" where
  "libspdm_rsa Rsa_new = SPointer NULL"
| "libspdm_rsa Rsa_free = SVoid"
| "libspdm_rsa Rsa_set_key = SBool False"

datatype rsa_ext_call =
    Rsa_pss_sign
  | Rsa_pss_verify

fun libspdm_rsa_ext :: "rsa_ext_call \<Rightarrow> spdm_result" where
  "libspdm_rsa_ext Rsa_pss_sign = SBool False"
| "libspdm_rsa_ext Rsa_pss_verify = SBool False"

text \<open>\<open>libspdm_x509.c\<close> in two parts, from \<open>libspdm_x509_get_tbs_cert\<close> on the second.\<close>

datatype x509_call =
    X509_construct_certificate
  | X509_construct_certificate_stack
  | X509_free
  | X509_stack_free
  | Asn1_get_tag
  | X509_get_subject_name
  | X509_get_common_name
  | X509_get_organization_name
  | Rsa_get_public_key_from_x509
  | Ec_get_public_key_from_x509
  | Ecd_get_public_key_from_x509
  | Sm2_get_public_key_from_x509
  | X509_verify_cert
  | X509_verify_cert_chain
  | X509_get_cert_from_cert_chain

fun libspdm_x509 :: "x509_call \<Rightarrow> spdm_result" where
  "libspdm_x509 X509_construct_certificate = SBool False"
| "libspdm_x509 X509_construct_certificate_stack = SBool False"
| "libspdm_x509 X509_free = SVoid"
| "libspdm_x509 X509_stack_free = SVoid"
| "libspdm_x509 Asn1_get_tag = SBool False"
| "libspdm_x509 X509_get_subject_name = SBool False"
| "libspdm_x509 X509_get_common_name = SBool False"
| "libspdm_x509 X509_get_organization_name = SBool False"
| "libspdm_x509 Rsa_get_public_key_from_x509 = SBool False"
| "libspdm_x509 Ec_get_public_key_from_x509 = SBool False"
| "libspdm_x509 Ecd_get_public_key_from_x509 = SBool False"
| "libspdm_x509 Sm2_get_public_key_from_x509 = SBool False"
| "libspdm_x509 X509_verify_cert = SBool False"
| "libspdm_x509 X509_verify_cert_chain = SBool False"
| "libspdm_x509 X509_get_cert_from_cert_chain = SBool False"

datatype x509_field_call =
    X509_get_tbs_cert
  | X509_get_version
  | X509_get_serial_number
  | X509_get_issuer_name
  | X509_get_issuer_common_name
  | X509_get_issuer_orgnization_name
  | X509_get_signature_algorithm
  | X509_get_extension_data
  | X509_get_validity
  | X509_get_key_usage
  | X509_get_extended_key_usage
  | X509_get_extended_basic_constraints
  | X509_set_date_time
  | X509_compare_date_time
  | Gen_x509_csr

fun libspdm_x509_fields :: "x509_field_call \<Rightarrow> spdm_result" where
  "libspdm_x509_fields X509_get_tbs_cert = SBool False"
| "libspdm_x509_fields X509_get_version = SBool False"
| "libspdm_x509_fields X509_get_serial_number = SBool False"
| "libspdm_x509_fields X509_get_issuer_name = SBool False"
| "libspdm_x509_fields X509_get_issuer_common_name = SBool False"
| "libspdm_x509_fields X509_get_issuer_orgnization_name = SBool False"
| "libspdm_x509_fields X509_get_signature_algorithm = SBool False"
| "libspdm_x509_fields X509_get_extension_data = SBool False"
| "libspdm_x509_fields X509_get_validity = SBool False"
| "libspdm_x509_fields X509_get_key_usage = SBool False"
| "libspdm_x509_fields X509_get_extended_key_usage = SBool False"
| "libspdm_x509_fields X509_get_extended_basic_constraints = SBool False"
| "libspdm_x509_fields X509_set_date_time = SBool False"
| "libspdm_x509_fields X509_compare_date_time = SInt (- 3)"
| "libspdm_x509_fields Gen_x509_csr = SBool False"

datatype internal_crypt_lib_call =
    Check_crypto_backend

fun libspdm_internal_crypt_lib :: "internal_crypt_lib_call \<Rightarrow> spdm_result" where
  "libspdm_internal_crypt_lib Check_crypto_backend = SBool False"

section \<open>What succeeds\<close>

fun succeeds :: "spdm_result \<Rightarrow> bool" where
  "succeeds (SBool b) = b"
| "succeeds (SPointer p) = (p \<noteq> NULL)"
| "succeeds (SInt n) = (n = 0)"
| "succeeds SVoid = True"

text \<open>
  The polyfill fails closed, with three exceptions: a function reports success exactly when it is
  a free, \<open>libspdm_random_bytes\<close>, \<open>libspdm_random_seed\<close> or \<open>libspdm_aead_gcm_prealloc\<close> (whose
  \<open>-19\<close> is \<open>true\<close> as a \<open>bool\<close>).  No signature, certificate or message authentication check does.
\<close>

lemma polyfill_successes:
  "succeeds (libspdm_rand rand)"
  "succeeds (libspdm_sha sha) \<longleftrightarrow> sha \<in> {Sha256_free, Sha384_free}"
  "succeeds (libspdm_hmac_sha hmac) \<longleftrightarrow> hmac \<in> {Hmac_sha256_free, Hmac_sha384_free}"
  "\<not> succeeds (libspdm_hkdf_sha hkdf)"
  "succeeds (libspdm_aead aead) \<longleftrightarrow> aead \<in> {Aead_free, Aead_gcm_prealloc}"
  "\<not> succeeds (libspdm_aead_aes_gcm gcm)"
  "succeeds (libspdm_ec ec) \<longleftrightarrow> ec = Ec_free"
  "\<not> succeeds (libspdm_ecc ecc)"
  "succeeds (libspdm_rsa rsa) \<longleftrightarrow> rsa = Rsa_free"
  "\<not> succeeds (libspdm_rsa_ext ext)"
  "succeeds (libspdm_x509 x509) \<longleftrightarrow> x509 \<in> {X509_free, X509_stack_free}"
  "\<not> succeeds (libspdm_x509_fields field)"
  "\<not> succeeds (libspdm_internal_crypt_lib lib)"
proof -
  show "succeeds (libspdm_rand rand)"
    by (cases rand) (simp_all add: c_bool_def)
  show "succeeds (libspdm_sha sha) \<longleftrightarrow> sha \<in> {Sha256_free, Sha384_free}"
    by (cases sha) (simp_all add: c_bool_def)
  show "succeeds (libspdm_hmac_sha hmac) \<longleftrightarrow> hmac \<in> {Hmac_sha256_free, Hmac_sha384_free}"
    by (cases hmac) (simp_all add: c_bool_def)
  show "\<not> succeeds (libspdm_hkdf_sha hkdf)"
    by (cases hkdf) (simp_all add: c_bool_def)
  show "succeeds (libspdm_aead aead) \<longleftrightarrow> aead \<in> {Aead_free, Aead_gcm_prealloc}"
    by (cases aead) (simp_all add: c_bool_def)
  show "\<not> succeeds (libspdm_aead_aes_gcm gcm)"
    by (cases gcm) (simp_all add: c_bool_def)
  show "succeeds (libspdm_ec ec) \<longleftrightarrow> ec = Ec_free"
    by (cases ec) (simp_all add: c_bool_def)
  show "\<not> succeeds (libspdm_ecc ecc)"
    by (cases ecc) (simp_all add: c_bool_def)
  show "succeeds (libspdm_rsa rsa) \<longleftrightarrow> rsa = Rsa_free"
    by (cases rsa) (simp_all add: c_bool_def)
  show "\<not> succeeds (libspdm_rsa_ext ext)"
    by (cases ext) (simp_all add: c_bool_def)
  show "succeeds (libspdm_x509 x509) \<longleftrightarrow> x509 \<in> {X509_free, X509_stack_free}"
    by (cases x509) (simp_all add: c_bool_def)
  show "\<not> succeeds (libspdm_x509_fields field)"
    by (cases field) (simp_all add: c_bool_def)
  show "\<not> succeeds (libspdm_internal_crypt_lib lib)"
    by (cases lib) (simp_all add: c_bool_def)
qed

end
