(* ===== verification/NvStubs.thy ===== *)
theory NvStubs
  imports NvState
begin

text \<open>
  The entry points that only refuse, report absence or log: \<open>acpi.cpp\<close>, \<open>power.cpp\<close>,
  \<open>stubs.c\<close>, and the capability entries of \<open>iokit.cpp\<close>, whose destructor is one of the
  stubs.
\<close>

section \<open>ACPI and power\<close>

datatype entry_result =
    Status nv_status
  | Flag bool
  | NoValue

datatype acpi_call =
    Os_get_acpi_rsdp_from_uefi
  | Nv_acpi_d3cold_dsm_for_upstream_port
  | Nv_acpi_ddc_method
  | Nv_acpi_dod_method
  | Nv_acpi_dsm_method
  | Nv_acpi_is_battery_present
  | Nv_acpi_methods_init
  | Nv_acpi_methods_uninit
  | Nv_acpi_mux_method
  | Nv_acpi_rom_method
  | Nv_acpi_get_powersource
  | Nv_platform_supports_s0ix

fun acpi_entry :: "acpi_call \<Rightarrow> entry_result" where
  "acpi_entry Os_get_acpi_rsdp_from_uefi = Status NV_ERR_NOT_SUPPORTED"
| "acpi_entry Nv_acpi_d3cold_dsm_for_upstream_port = Status NV_ERR_NOT_SUPPORTED"
| "acpi_entry Nv_acpi_ddc_method = Status NV_ERR_NOT_SUPPORTED"
| "acpi_entry Nv_acpi_dod_method = Status NV_ERR_NOT_SUPPORTED"
| "acpi_entry Nv_acpi_dsm_method = Status NV_ERR_NOT_SUPPORTED"
| "acpi_entry Nv_acpi_is_battery_present = Flag False"
| "acpi_entry Nv_acpi_methods_init = NoValue"
| "acpi_entry Nv_acpi_methods_uninit = NoValue"
| "acpi_entry Nv_acpi_mux_method = Status NV_ERR_NOT_SUPPORTED"
| "acpi_entry Nv_acpi_rom_method = Status NV_ERR_NOT_SUPPORTED"
| "acpi_entry Nv_acpi_get_powersource = Status NV_ERR_NOT_SUPPORTED"
| "acpi_entry Nv_platform_supports_s0ix = Flag False"

datatype power_call =
    Nv_idle_holdoff
  | Nv_dynamic_power_available
  | Nv_audio_dynamic_power
  | Nv_allow_runtime_suspend
  | Nv_disallow_runtime_suspend
  | Nv_enable_clk
  | Nv_disable_clk
  | Nv_get_max_freq
  | Nv_set_freq

fun power_entry :: "power_call \<Rightarrow> entry_result" where
  "power_entry Nv_idle_holdoff = NoValue"
| "power_entry Nv_dynamic_power_available = Flag False"
| "power_entry Nv_audio_dynamic_power = NoValue"
| "power_entry Nv_allow_runtime_suspend = NoValue"
| "power_entry Nv_disallow_runtime_suspend = NoValue"
| "power_entry Nv_enable_clk = Status NV_ERR_NOT_SUPPORTED"
| "power_entry Nv_disable_clk = NoValue"
| "power_entry Nv_get_max_freq = Status NV_ERR_NOT_SUPPORTED"
| "power_entry Nv_set_freq = Status NV_ERR_NOT_SUPPORTED"

section \<open>Stubs\<close>

text \<open>The macro \<open>STUBBED\<close>: a function that logs its name; it returns nothing.\<close>

definition STUBBED :: "string \<Rightarrow> string list" where
  "STUBBED name = [''Stubbed function '' @ name]"

definition stubbed_functions :: "string list" where
  "stubbed_functions =
   [
    ''nv_acquire_fabric_mgmt_cap'', ''nv_acquire_mmap_lock'',
    ''nv_add_mapping_context_to_file'', ''nv_cancel_nano_timer'',
    ''nv_check_usermap_access_params'', ''nv_control_soc_irqs'', ''nv_create_nano_timer'',
    ''nv_destroy_nano_timer'', ''nv_flush_coherent_cpu_cache_range'', ''nv_get_adapter_state'',
    ''nv_get_all_mappings_revoked_locked'', ''nv_get_device_memory_config'',
    ''nv_get_egm_info'', ''nv_get_event'', ''nv_get_file_private'', ''nv_get_num_phys_pages'',
    ''nv_get_phys_pages'', ''nv_get_screen_info'', ''nv_get_syncpoint_aperture'',
    ''nv_get_updated_emu_seg'', ''nv_i2c_add_adapter'', ''nv_i2c_del_adapter'',
    ''nv_indicate_idle'', ''nv_indicate_not_idle'', ''nv_match_gpu_os_info'', ''nv_parms'',
    ''nv_post_event'', ''nv_put_file_private'', ''nv_register_peer_io_mem'',
    ''nv_register_phys_pages'', ''nv_register_sgt'', ''nv_register_user_pages'',
    ''nv_release_mmap_lock'', ''nv_revoke_gpu_mappings'', ''nv_s2idle_pm_configured'',
    ''nv_schedule_uvm_drain_p2p'', ''nv_schedule_uvm_isr'', ''nv_schedule_uvm_resume_p2p'',
    ''nv_set_safe_to_mmap_locked'', ''nv_start_nano_timer'', ''nv_start_rc_timer'',
    ''nv_stop_rc_timer'', ''nv_unregister_peer_io_mem'', ''nv_unregister_phys_pages'',
    ''nv_unregister_sgt'', ''nv_unregister_user_pages'', ''nvidia_caps_root'',
    ''os_alloc_pages_node'', ''os_alloc_wait_queue'', ''os_call_vgpu_vfio'', ''os_close_file'',
    ''os_count_tail_pages'', ''os_dump_stack'', ''os_enable_pci_req_atomics'',
    ''os_flush_work_queue'', ''os_free_wait_queue'', ''os_io_read_byte'', ''os_io_read_dword'',
    ''os_io_read_word'', ''os_io_write_byte'', ''os_io_write_dword'', ''os_io_write_word'',
    ''os_is_queue_flush_ongoing'', ''os_lock_user_pages'', ''os_lookup_user_io_memory'',
    ''os_match_mmap_offset'', ''os_numa_add_gpu_memory'', ''os_numa_memblock_size'',
    ''os_numa_remove_gpu_memory'', ''os_nv_cap_close_fd'', ''os_nv_cap_destroy_entry'',
    ''os_nv_cap_validate_and_dup_fd'', ''os_offline_page_at_address'',
    ''os_open_temporary_file'', ''os_queue_work_item'', ''os_read_file'', ''os_schedule'',
    ''os_unlock_user_pages'', ''os_wait_interruptible'', ''os_wait_uninterruptible'',
    ''os_wake_up'', ''os_write_file'']"

section \<open>Capability entries\<close>

text \<open>
  An entry is a block with a pointer to an empty dictionary; \<open>entry->dummy\<close> of a failed
  allocation is a NULL dereference.  A system is the entries that are allocated.
\<close>

type_synonym nv_caps = "(ptr \<times> ptr) list"

definition os_nv_cap_create_file_entry ::
  "nv_caps \<Rightarrow> ptr \<Rightarrow> ptr \<Rightarrow> (nv_caps \<times> ptr) outcome" where
  "os_nv_cap_create_file_entry caps entry dict =
     (if entry = NULL then Fault NullDereference else Done ((entry, dict) # caps, entry))"

definition os_nv_cap_create_dir_entry ::
  "nv_caps \<Rightarrow> ptr \<Rightarrow> ptr \<Rightarrow> (nv_caps \<times> ptr) outcome" where
  "os_nv_cap_create_dir_entry caps entry dict =
     (if entry = NULL then Fault NullDereference else Done ((entry, dict) # caps, entry))"

text \<open>
  A client's calls, each creation with what \<open>IOMalloc\<close> and \<open>withCapacity\<close> returned.  The
  run gives the entries left and the lines the destructor logged.
\<close>

datatype cap_op =
    CreateFile ptr ptr
  | CreateDir ptr ptr
  | DestroyEntry ptr

fun cap_run :: "nv_caps \<Rightarrow> cap_op list \<Rightarrow> (nv_caps \<times> string list) outcome" where
  "cap_run caps [] = Done (caps, [])"
| "cap_run caps (CreateFile e d # ops) =
     (case os_nv_cap_create_file_entry caps e d of Fault f \<Rightarrow> Fault f
      | Done (caps', _) \<Rightarrow> cap_run caps' ops)"
| "cap_run caps (CreateDir e d # ops) =
     (case os_nv_cap_create_dir_entry caps e d of Fault f \<Rightarrow> Fault f
      | Done (caps', _) \<Rightarrow> cap_run caps' ops)"
| "cap_run caps (DestroyEntry e # ops) =
     (case cap_run caps ops of Fault f \<Rightarrow> Fault f
      | Done (caps', lines) \<Rightarrow> Done (caps', STUBBED ''os_nv_cap_destroy_entry'' @ lines))"

fun created :: "cap_op \<Rightarrow> (ptr \<times> ptr) list" where
  "created (CreateFile e d) = [(e, d)]"
| "created (CreateDir e d) = [(e, d)]"
| "created (DestroyEntry _) = []"

section \<open>Properties\<close>

lemma cap_run_created:
  "cap_run caps ops = Done (caps', lines) \<Longrightarrow>
     caps' = rev (concat (map created ops)) @ caps \<and>
     length lines + length (concat (map created ops)) = length ops"
  by (induction caps ops arbitrary: caps' lines rule: cap_run.induct)
    (auto simp: os_nv_cap_create_file_entry_def os_nv_cap_create_dir_entry_def STUBBED_def
      split: outcome.splits if_splits)

text \<open>
  Capability entries are never freed: after any sequence of creations and destructions
  every entry that was created is still allocated, since \<open>os_nv_cap_destroy_entry\<close> is one of
  the stubs, and each destruction only logs one line.
\<close>

lemma caps_never_freed:
  assumes "cap_run [] ops = Done (caps, lines)"
  shows "caps = rev (concat (map created ops)) \<and>
    length lines = length (filter (\<lambda>op. created op = []) ops) \<and>
    ''os_nv_cap_destroy_entry'' \<in> set stubbed_functions"
proof -
  have "length (filter (\<lambda>op. created op = []) ops) + length (concat (map created ops)) = length ops"
  proof (induction ops)
    case (Cons op ops)
    then show ?case by (cases op) simp_all
  qed simp
  with cap_run_created [OF assms] show ?thesis by (simp add: stubbed_functions_def)
qed

lemma caps_never_freed_witness:
  "\<exists>lines. cap_run [] [CreateDir 0x10 0x20, CreateFile 0x30 0x40, DestroyEntry 0x30] =
     Done ([(0x30, 0x40), (0x10, 0x20)], lines)"
proof -
  let ?ops = "[CreateDir 0x10 0x20, CreateFile 0x30 0x40, DestroyEntry 0x30]"
  obtain caps lines where run: "cap_run [] ?ops = Done (caps, lines)"
    by (simp add: os_nv_cap_create_file_entry_def os_nv_cap_create_dir_entry_def)
  from caps_never_freed [OF run] run show ?thesis by auto
qed

end
