(* ===== verification/PciConfig.thy ===== *)
theory PciConfig
  imports NvState
begin

text \<open>
  PCI access for the resource manager: \<open>pci_driverkit.cpp\<close> (suffix \<open>_dk\<close>) and
  \<open>pci_kernel.cpp\<close> (suffix \<open>_k\<close>).  The device class is Apple's: its methods are the
  fields of a parameter, on a state of the device's own, since reading a register may change
  the device.  The locale \<open>guarded_access\<close> is the shape the six reads and writes share;
  \<open>bar_memory\<close> and \<open>port_memory\<close> are memory that keeps its bytes, of the BARs by memory index
  (what DriverKit's calls reach) and of the I/O ports (what the kernel's calls reach).
\<close>

section \<open>The device interface\<close>

record 's pci_device_dk =
  ConfigurationRead16 :: "'s \<Rightarrow> u64 \<Rightarrow> 's \<times> u16"
  MemoryRead8 :: "'s \<Rightarrow> u8 \<Rightarrow> u64 \<Rightarrow> 's \<times> u8"
  MemoryRead16 :: "'s \<Rightarrow> u8 \<Rightarrow> u64 \<Rightarrow> 's \<times> u16"
  MemoryRead32 :: "'s \<Rightarrow> u8 \<Rightarrow> u64 \<Rightarrow> 's \<times> u32"
  MemoryWrite8 :: "'s \<Rightarrow> u8 \<Rightarrow> u64 \<Rightarrow> u8 \<Rightarrow> 's"
  MemoryWrite16 :: "'s \<Rightarrow> u8 \<Rightarrow> u64 \<Rightarrow> u16 \<Rightarrow> 's"
  MemoryWrite32 :: "'s \<Rightarrow> u8 \<Rightarrow> u64 \<Rightarrow> u32 \<Rightarrow> 's"

text \<open>The kernel's \<open>ioRead\<close> and \<open>ioWrite\<close> take a 16-bit offset into I/O space.\<close>

record 's pci_device_k =
  configRead16 :: "'s \<Rightarrow> u8 \<Rightarrow> 's \<times> u16"
  ioRead8 :: "'s \<Rightarrow> u16 \<Rightarrow> 's \<times> u8"
  ioRead16 :: "'s \<Rightarrow> u16 \<Rightarrow> 's \<times> u16"
  ioRead32 :: "'s \<Rightarrow> u16 \<Rightarrow> 's \<times> u32"
  ioWrite8 :: "'s \<Rightarrow> u16 \<Rightarrow> u8 \<Rightarrow> 's"
  ioWrite16 :: "'s \<Rightarrow> u16 \<Rightarrow> u16 \<Rightarrow> 's"
  ioWrite32 :: "'s \<Rightarrow> u16 \<Rightarrow> u32 \<Rightarrow> 's"

definition NV_PCIE_CFG_MAX_OFFSET :: u32 where
  "NV_PCIE_CFG_MAX_OFFSET = 0x1000"

text \<open>The standard configuration header: \<open>kIOPCIConfigurationOffsetVendorID\<close> and \<open>DeviceID\<close>.\<close>

definition kIOPCIConfigurationOffsetVendorID :: nat where
  "kIOPCIConfigurationOffsetVendorID = 0"

definition kIOPCIConfigurationOffsetDeviceID :: nat where
  "kIOPCIConfigurationOffsetDeviceID = 2"

section \<open>The handle\<close>

text \<open>
  The results are the device's state, the returned handle and what is stored through
  \<open>vendor\<close> and \<open>device\<close>.  Domain, bus, slot and function are ignored.
\<close>

definition os_pci_init_handle_dk ::
  "'s pci_device_dk \<Rightarrow> nvd_pointer \<Rightarrow> 's \<Rightarrow> u32 \<Rightarrow> u8 \<Rightarrow> u8 \<Rightarrow> u8
   \<Rightarrow> ('s \<times> ptr \<times> u16 \<times> u16) outcome" where
  "os_pci_init_handle_dk D nvd s domain bus slot func =
     on_device nvd (\<lambda>handle.
       let (s1, vendor) = ConfigurationRead16 D s (of_nat kIOPCIConfigurationOffsetVendorID);
           (s2, dev) = ConfigurationRead16 D s1 (of_nat kIOPCIConfigurationOffsetDeviceID)
       in Done (s2, handle, vendor, dev))"

definition os_pci_init_handle_k ::
  "'s pci_device_k \<Rightarrow> nvd_pointer \<Rightarrow> 's \<Rightarrow> u32 \<Rightarrow> u8 \<Rightarrow> u8 \<Rightarrow> u8
   \<Rightarrow> ('s \<times> ptr \<times> u16 \<times> u16) outcome" where
  "os_pci_init_handle_k D nvd s domain bus slot func =
     on_device nvd (\<lambda>handle.
       let (s1, vendor) = configRead16 D s (of_nat kIOPCIConfigurationOffsetVendorID);
           (s2, dev) = configRead16 D s1 (of_nat kIOPCIConfigurationOffsetDeviceID)
       in Done (s2, handle, vendor, dev))"

definition os_pci_remove_supported_dk :: bool where
  "os_pci_remove_supported_dk = False"

definition os_pci_remove_supported_k :: bool where
  "os_pci_remove_supported_k = False"

definition os_pci_remove_dk :: "'s \<Rightarrow> ptr \<Rightarrow> 's" where
  "os_pci_remove_dk s handle = s"

definition os_pci_remove_k :: "'s \<Rightarrow> ptr \<Rightarrow> 's" where
  "os_pci_remove_k s handle = s"

section \<open>Reads and writes\<close>

text \<open>
  A read returns the device's state, the status and what it stores through
  \<open>pReturnValue\<close>; the global device is used, not the handle.
\<close>

definition os_pci_read_byte_dk ::
  "'s pci_device_dk \<Rightarrow> nvd_pointer \<Rightarrow> 's \<Rightarrow> ptr \<Rightarrow> u32 \<Rightarrow> ('s \<times> nv_status \<times> u8) outcome" where
  "os_pci_read_byte_dk D nvd s handle offset =
     (if NV_PCIE_CFG_MAX_OFFSET \<le> offset then Done (s, NV_ERR_NOT_SUPPORTED, 0xFF)
      else on_device nvd (\<lambda>_. (let (s', v) = MemoryRead8 D s 0 (ucast offset) in Done (s', NV_OK, v))))"

definition os_pci_write_byte_dk ::
  "'s pci_device_dk \<Rightarrow> nvd_pointer \<Rightarrow> 's \<Rightarrow> ptr \<Rightarrow> u32 \<Rightarrow> u8 \<Rightarrow> ('s \<times> nv_status) outcome" where
  "os_pci_write_byte_dk D nvd s handle offset val =
     (if NV_PCIE_CFG_MAX_OFFSET \<le> offset then Done (s, NV_ERR_NOT_SUPPORTED)
      else on_device nvd (\<lambda>_. Done (MemoryWrite8 D s 0 (ucast offset) val, NV_OK)))"

definition os_pci_read_word_dk ::
  "'s pci_device_dk \<Rightarrow> nvd_pointer \<Rightarrow> 's \<Rightarrow> ptr \<Rightarrow> u32 \<Rightarrow> ('s \<times> nv_status \<times> u16) outcome" where
  "os_pci_read_word_dk D nvd s handle offset =
     (if NV_PCIE_CFG_MAX_OFFSET \<le> offset then Done (s, NV_ERR_NOT_SUPPORTED, 0xFF)
      else on_device nvd (\<lambda>_. (let (s', v) = MemoryRead16 D s 0 (ucast offset) in Done (s', NV_OK, v))))"

definition os_pci_write_word_dk ::
  "'s pci_device_dk \<Rightarrow> nvd_pointer \<Rightarrow> 's \<Rightarrow> ptr \<Rightarrow> u32 \<Rightarrow> u16 \<Rightarrow> ('s \<times> nv_status) outcome" where
  "os_pci_write_word_dk D nvd s handle offset val =
     (if NV_PCIE_CFG_MAX_OFFSET \<le> offset then Done (s, NV_ERR_NOT_SUPPORTED)
      else on_device nvd (\<lambda>_. Done (MemoryWrite16 D s 0 (ucast offset) val, NV_OK)))"

definition os_pci_read_dword_dk ::
  "'s pci_device_dk \<Rightarrow> nvd_pointer \<Rightarrow> 's \<Rightarrow> ptr \<Rightarrow> u32 \<Rightarrow> ('s \<times> nv_status \<times> u32) outcome" where
  "os_pci_read_dword_dk D nvd s handle offset =
     (if NV_PCIE_CFG_MAX_OFFSET \<le> offset then Done (s, NV_ERR_NOT_SUPPORTED, 0xFFFFFFFF)
      else on_device nvd (\<lambda>_. (let (s', v) = MemoryRead32 D s 0 (ucast offset) in Done (s', NV_OK, v))))"

definition os_pci_write_dword_dk ::
  "'s pci_device_dk \<Rightarrow> nvd_pointer \<Rightarrow> 's \<Rightarrow> ptr \<Rightarrow> u32 \<Rightarrow> u32 \<Rightarrow> ('s \<times> nv_status) outcome" where
  "os_pci_write_dword_dk D nvd s handle offset val =
     (if NV_PCIE_CFG_MAX_OFFSET \<le> offset then Done (s, NV_ERR_NOT_SUPPORTED)
      else on_device nvd (\<lambda>_. Done (MemoryWrite32 D s 0 (ucast offset) val, NV_OK)))"

definition os_pci_read_byte_k ::
  "'s pci_device_k \<Rightarrow> nvd_pointer \<Rightarrow> 's \<Rightarrow> ptr \<Rightarrow> u32 \<Rightarrow> ('s \<times> nv_status \<times> u8) outcome" where
  "os_pci_read_byte_k D nvd s handle offset =
     (if NV_PCIE_CFG_MAX_OFFSET \<le> offset then Done (s, NV_ERR_NOT_SUPPORTED, 0xFF)
      else on_device nvd (\<lambda>_. (let (s', v) = ioRead8 D s (ucast offset) in Done (s', NV_OK, v))))"

definition os_pci_write_byte_k ::
  "'s pci_device_k \<Rightarrow> nvd_pointer \<Rightarrow> 's \<Rightarrow> ptr \<Rightarrow> u32 \<Rightarrow> u8 \<Rightarrow> ('s \<times> nv_status) outcome" where
  "os_pci_write_byte_k D nvd s handle offset val =
     (if NV_PCIE_CFG_MAX_OFFSET \<le> offset then Done (s, NV_ERR_NOT_SUPPORTED)
      else on_device nvd (\<lambda>_. Done (ioWrite8 D s (ucast offset) val, NV_OK)))"

definition os_pci_read_word_k ::
  "'s pci_device_k \<Rightarrow> nvd_pointer \<Rightarrow> 's \<Rightarrow> ptr \<Rightarrow> u32 \<Rightarrow> ('s \<times> nv_status \<times> u16) outcome" where
  "os_pci_read_word_k D nvd s handle offset =
     (if NV_PCIE_CFG_MAX_OFFSET \<le> offset then Done (s, NV_ERR_NOT_SUPPORTED, 0xFF)
      else on_device nvd (\<lambda>_. (let (s', v) = ioRead16 D s (ucast offset) in Done (s', NV_OK, v))))"

definition os_pci_write_word_k ::
  "'s pci_device_k \<Rightarrow> nvd_pointer \<Rightarrow> 's \<Rightarrow> ptr \<Rightarrow> u32 \<Rightarrow> u16 \<Rightarrow> ('s \<times> nv_status) outcome" where
  "os_pci_write_word_k D nvd s handle offset val =
     (if NV_PCIE_CFG_MAX_OFFSET \<le> offset then Done (s, NV_ERR_NOT_SUPPORTED)
      else on_device nvd (\<lambda>_. Done (ioWrite16 D s (ucast offset) val, NV_OK)))"

definition os_pci_read_dword_k ::
  "'s pci_device_k \<Rightarrow> nvd_pointer \<Rightarrow> 's \<Rightarrow> ptr \<Rightarrow> u32 \<Rightarrow> ('s \<times> nv_status \<times> u32) outcome" where
  "os_pci_read_dword_k D nvd s handle offset =
     (if NV_PCIE_CFG_MAX_OFFSET \<le> offset then Done (s, NV_ERR_NOT_SUPPORTED, 0xFFFFFFFF)
      else on_device nvd (\<lambda>_. (let (s', v) = ioRead32 D s (ucast offset) in Done (s', NV_OK, v))))"

definition os_pci_write_dword_k ::
  "'s pci_device_k \<Rightarrow> nvd_pointer \<Rightarrow> 's \<Rightarrow> ptr \<Rightarrow> u32 \<Rightarrow> u32 \<Rightarrow> ('s \<times> nv_status) outcome" where
  "os_pci_write_dword_k D nvd s handle offset val =
     (if NV_PCIE_CFG_MAX_OFFSET \<le> offset then Done (s, NV_ERR_NOT_SUPPORTED)
      else on_device nvd (\<lambda>_. Done (ioWrite32 D s (ucast offset) val, NV_OK)))"

section \<open>Guarded access\<close>

text \<open>
  What the resource manager relies on: past the configuration space nothing reaches the
  device, and within it an access is the device's own.
\<close>

locale guarded_access =
  fixes rd :: "'s \<Rightarrow> u32 \<Rightarrow> ('s \<times> nv_status \<times> 'v) outcome"
    and wr :: "'s \<Rightarrow> u32 \<Rightarrow> 'v \<Rightarrow> ('s \<times> nv_status) outcome"
    and raw_rd :: "'s \<Rightarrow> u32 \<Rightarrow> 's \<times> 'v"
    and raw_wr :: "'s \<Rightarrow> u32 \<Rightarrow> 'v \<Rightarrow> 's"
    and refused :: 'v
    and present :: bool
  assumes rd_out: "0x1000 \<le> off \<Longrightarrow> rd s off = Done (s, NV_ERR_NOT_SUPPORTED, refused)"
    and rd_in: "off < 0x1000 \<Longrightarrow> present \<Longrightarrow>
      rd s off = Done (fst (raw_rd s off), NV_OK, snd (raw_rd s off))"
    and rd_absent: "off < 0x1000 \<Longrightarrow> \<not> present \<Longrightarrow> rd s off = Fault NullDereference"
    and wr_out: "0x1000 \<le> off \<Longrightarrow> wr s off v = Done (s, NV_ERR_NOT_SUPPORTED)"
    and wr_in: "off < 0x1000 \<Longrightarrow> present \<Longrightarrow> wr s off v = Done (raw_wr s off v, NV_OK)"
    and wr_absent: "off < 0x1000 \<Longrightarrow> \<not> present \<Longrightarrow> wr s off v = Fault NullDereference"
begin

lemma wr_ok_iff: "(\<exists>s'. wr s off v = Done (s', NV_OK)) \<longleftrightarrow> off < 0x1000 \<and> present"
  by (cases "off < 0x1000"; cases present) (auto simp: wr_in wr_out wr_absent not_less)

lemma rd_ok_iff: "(\<exists>s' v. rd s off = Done (s', NV_OK, v)) \<longleftrightarrow> off < 0x1000 \<and> present"
  by (cases "off < 0x1000"; cases present) (auto simp: rd_in rd_out rd_absent not_less)

lemma refused_keeps_device:
  "rd s off = Done (s', NV_ERR_NOT_SUPPORTED, v) \<Longrightarrow> s' = s \<and> v = refused \<and> 0x1000 \<le> off"
  by (cases "off < 0x1000"; cases present) (auto simp: rd_in rd_out rd_absent not_less)

end

interpretation byte_dk: guarded_access
  "\<lambda>s. os_pci_read_byte_dk D nvd s h" "\<lambda>s. os_pci_write_byte_dk D nvd s h"
  "\<lambda>s off. MemoryRead8 D s 0 (ucast off)" "\<lambda>s off. MemoryWrite8 D s 0 (ucast off)"
  "0xFF" "device_present nvd" for D nvd h
  by unfold_locales (simp_all add: os_pci_read_byte_dk_def os_pci_write_byte_dk_def
      NV_PCIE_CFG_MAX_OFFSET_def on_device_const split_def Let_def not_le)

interpretation word_dk: guarded_access
  "\<lambda>s. os_pci_read_word_dk D nvd s h" "\<lambda>s. os_pci_write_word_dk D nvd s h"
  "\<lambda>s off. MemoryRead16 D s 0 (ucast off)" "\<lambda>s off. MemoryWrite16 D s 0 (ucast off)"
  "0xFF" "device_present nvd" for D nvd h
  by unfold_locales (simp_all add: os_pci_read_word_dk_def os_pci_write_word_dk_def
      NV_PCIE_CFG_MAX_OFFSET_def on_device_const split_def Let_def not_le)

interpretation dword_dk: guarded_access
  "\<lambda>s. os_pci_read_dword_dk D nvd s h" "\<lambda>s. os_pci_write_dword_dk D nvd s h"
  "\<lambda>s off. MemoryRead32 D s 0 (ucast off)" "\<lambda>s off. MemoryWrite32 D s 0 (ucast off)"
  "0xFFFFFFFF" "device_present nvd" for D nvd h
  by unfold_locales (simp_all add: os_pci_read_dword_dk_def os_pci_write_dword_dk_def
      NV_PCIE_CFG_MAX_OFFSET_def on_device_const split_def Let_def not_le)

interpretation byte_k: guarded_access
  "\<lambda>s. os_pci_read_byte_k D nvd s h" "\<lambda>s. os_pci_write_byte_k D nvd s h"
  "\<lambda>s off. ioRead8 D s (ucast off)" "\<lambda>s off. ioWrite8 D s (ucast off)"
  "0xFF" "device_present nvd" for D nvd h
  by unfold_locales (simp_all add: os_pci_read_byte_k_def os_pci_write_byte_k_def
      NV_PCIE_CFG_MAX_OFFSET_def on_device_const split_def Let_def not_le)

interpretation word_k: guarded_access
  "\<lambda>s. os_pci_read_word_k D nvd s h" "\<lambda>s. os_pci_write_word_k D nvd s h"
  "\<lambda>s off. ioRead16 D s (ucast off)" "\<lambda>s off. ioWrite16 D s (ucast off)"
  "0xFF" "device_present nvd" for D nvd h
  by unfold_locales (simp_all add: os_pci_read_word_k_def os_pci_write_word_k_def
      NV_PCIE_CFG_MAX_OFFSET_def on_device_const split_def Let_def not_le)

interpretation dword_k: guarded_access
  "\<lambda>s. os_pci_read_dword_k D nvd s h" "\<lambda>s. os_pci_write_dword_k D nvd s h"
  "\<lambda>s off. ioRead32 D s (ucast off)" "\<lambda>s off. ioWrite32 D s (ucast off)"
  "0xFFFFFFFF" "device_present nvd" for D nvd h
  by unfold_locales (simp_all add: os_pci_read_dword_k_def os_pci_write_dword_k_def
      NV_PCIE_CFG_MAX_OFFSET_def on_device_const split_def Let_def not_le)

section \<open>Memory in bytes\<close>

text \<open>A number from its bytes, least significant first, and back.\<close>

fun of_bytes :: "u8 list \<Rightarrow> u32" where
  "of_bytes [] = 0"
| "of_bytes (b # bs) = ucast b OR push_bit 8 (of_bytes bs)"

fun to_bytes :: "nat \<Rightarrow> u32 \<Rightarrow> u8 list" where
  "to_bytes 0 v = []"
| "to_bytes (Suc n) v = ucast v # to_bytes n (drop_bit 8 v)"

fun load :: "('a :: len word \<Rightarrow> u8) \<Rightarrow> 'a word \<Rightarrow> nat \<Rightarrow> u8 list" where
  "load m a 0 = []"
| "load m a (Suc n) = m a # load m (a + 1) n"

fun store :: "('a :: len word \<Rightarrow> u8) \<Rightarrow> 'a word \<Rightarrow> u8 list \<Rightarrow> 'a word \<Rightarrow> u8" where
  "store m a [] = m"
| "store m a (b # bs) = (store m (a + 1) bs)(a := b)"

lemma bit_of_bytes: "bit (of_bytes bs) n \<Longrightarrow> n < 8 * length bs"
proof (induction bs arbitrary: n)
  case (Cons b bs)
  show ?case
  proof (cases "n < 8")
    case False
    with Cons.prems have "bit (of_bytes bs) (n - 8)" by (auto simp: bit_simps dest: bit_imp_le_length)
    from Cons.IH [OF this] False show ?thesis by simp
  qed simp
qed simp

lemma of_bytes_narrow:
  "length bs = 1 \<Longrightarrow> ucast (ucast (of_bytes bs) :: u8) = of_bytes bs"
  "length bs = 2 \<Longrightarrow> ucast (ucast (of_bytes bs) :: u16) = of_bytes bs"
  by (rule bit_word_eqI, auto simp: bit_simps dest: bit_of_bytes)+

lemma length_load [simp]: "length (load m a n) = n"
  by (induction n arbitrary: a) auto

lemma length_to_bytes [simp]: "length (to_bytes n v) = n"
  by (induction n arbitrary: v) auto

lemma to_bytes_nth: "k < n \<Longrightarrow> to_bytes n v ! k = ucast (drop_bit (8 * k) v)"
proof (induction n arbitrary: v k)
  case (Suc n)
  then show ?case by (cases k) (auto simp: drop_bit_drop_bit add.commute)
qed simp

text \<open>
  The documented behaviour of BAR memory that keeps what is written to it: the accesses of the
  device class by memory index and offset, in the little-endian order of PCI, on the bytes
  \<open>view s i\<close> of each memory.  An access of one memory leaves the others as they are.
\<close>

locale bar_memory =
  fixes D :: "'s pci_device_dk"
    and view :: "'s \<Rightarrow> u8 \<Rightarrow> u64 \<Rightarrow> u8"
  assumes read8: "\<exists>s'. MemoryRead8 D s i a = (s', ucast (of_bytes (load (view s i) a 1))) \<and> view s' = view s"
    and read16: "\<exists>s'. MemoryRead16 D s i a = (s', ucast (of_bytes (load (view s i) a 2))) \<and> view s' = view s"
    and read32: "\<exists>s'. MemoryRead32 D s i a = (s', of_bytes (load (view s i) a 4)) \<and> view s' = view s"
    and write8: "view (MemoryWrite8 D s i a b) = (view s)(i := store (view s i) a (to_bytes 1 (ucast b)))"
    and write16: "view (MemoryWrite16 D s i a w) = (view s)(i := store (view s i) a (to_bytes 2 (ucast w)))"
    and write32: "view (MemoryWrite32 D s i a d) = (view s)(i := store (view s i) a (to_bytes 4 d))"

text \<open>The same of the I/O ports the kernel's calls reach: a space of its own, of \<open>2 ^ 16\<close> bytes.\<close>

locale port_memory =
  fixes E :: "'s pci_device_k"
    and ports :: "'s \<Rightarrow> u16 \<Rightarrow> u8"
  assumes read8: "\<exists>s'. ioRead8 E s a = (s', ucast (of_bytes (load (ports s) a 1))) \<and> ports s' = ports s"
    and read16: "\<exists>s'. ioRead16 E s a = (s', ucast (of_bytes (load (ports s) a 2))) \<and> ports s' = ports s"
    and read32: "\<exists>s'. ioRead32 E s a = (s', of_bytes (load (ports s) a 4)) \<and> ports s' = ports s"
    and write8: "ports (ioWrite8 E s a b) = store (ports s) a (to_bytes 1 (ucast b))"
    and write16: "ports (ioWrite16 E s a w) = store (ports s) a (to_bytes 2 (ucast w))"
    and write32: "ports (ioWrite32 E s a d) = store (ports s) a (to_bytes 4 d)"

text \<open>Devices that satisfy these laws, for the witnesses.\<close>

definition example_pci_dk :: "(nat \<Rightarrow> u16) \<Rightarrow> (u8 \<Rightarrow> u64 \<Rightarrow> u8) pci_device_dk" where
  "example_pci_dk cfg =
     \<lparr>ConfigurationRead16 = (\<lambda>m a. (m, cfg (unat a))),
      MemoryRead8 = (\<lambda>m i a. (m, ucast (of_bytes (load (m i) a 1)))),
      MemoryRead16 = (\<lambda>m i a. (m, ucast (of_bytes (load (m i) a 2)))),
      MemoryRead32 = (\<lambda>m i a. (m, of_bytes (load (m i) a 4))),
      MemoryWrite8 = (\<lambda>m i a v. m(i := store (m i) a (to_bytes 1 (ucast v)))),
      MemoryWrite16 = (\<lambda>m i a v. m(i := store (m i) a (to_bytes 2 (ucast v)))),
      MemoryWrite32 = (\<lambda>m i a v. m(i := store (m i) a (to_bytes 4 v)))\<rparr>"

definition example_pci_k :: "(nat \<Rightarrow> u16) \<Rightarrow> (u16 \<Rightarrow> u8) pci_device_k" where
  "example_pci_k cfg =
     \<lparr>configRead16 = (\<lambda>m a. (m, cfg (unat a))),
      ioRead8 = (\<lambda>m a. (m, ucast (of_bytes (load m a 1)))),
      ioRead16 = (\<lambda>m a. (m, ucast (of_bytes (load m a 2)))),
      ioRead32 = (\<lambda>m a. (m, of_bytes (load m a 4))),
      ioWrite8 = (\<lambda>m a v. store m a (to_bytes 1 (ucast v))),
      ioWrite16 = (\<lambda>m a v. store m a (to_bytes 2 (ucast v))),
      ioWrite32 = (\<lambda>m a v. store m a (to_bytes 4 v))\<rparr>"

interpretation example_dk: bar_memory "example_pci_dk cfg" "\<lambda>m. m" for cfg
  by unfold_locales (simp_all add: example_pci_dk_def)

interpretation example_k: port_memory "example_pci_k cfg" "\<lambda>m. m" for cfg
  by unfold_locales (simp_all add: example_pci_k_def)

section \<open>Properties\<close>

text \<open>
  An access past the configuration space is refused on both targets, whether or not there
  is a device, and the device is not touched.  A refused byte or double word reads as all
  ones, the value absent hardware gives; a refused word reads as \<open>0x00FF\<close>.
\<close>

lemma pci_access_refused:
  assumes "0x1000 \<le> off"
  shows "os_pci_read_byte_dk D nvd s h off = Done (s, NV_ERR_NOT_SUPPORTED, - 1) \<and>
    os_pci_read_word_dk D nvd s h off = Done (s, NV_ERR_NOT_SUPPORTED, 0x00FF) \<and>
    os_pci_read_dword_dk D nvd s h off = Done (s, NV_ERR_NOT_SUPPORTED, - 1) \<and>
    os_pci_read_byte_k E nvd t h off = Done (t, NV_ERR_NOT_SUPPORTED, - 1) \<and>
    os_pci_read_word_k E nvd t h off = Done (t, NV_ERR_NOT_SUPPORTED, 0x00FF) \<and>
    os_pci_read_dword_k E nvd t h off = Done (t, NV_ERR_NOT_SUPPORTED, - 1) \<and>
    os_pci_write_byte_dk D nvd s h off b = Done (s, NV_ERR_NOT_SUPPORTED) \<and>
    os_pci_write_word_dk D nvd s h off w = Done (s, NV_ERR_NOT_SUPPORTED) \<and>
    os_pci_write_dword_dk D nvd s h off d = Done (s, NV_ERR_NOT_SUPPORTED) \<and>
    os_pci_write_byte_k E nvd t h off b = Done (t, NV_ERR_NOT_SUPPORTED) \<and>
    os_pci_write_word_k E nvd t h off w = Done (t, NV_ERR_NOT_SUPPORTED) \<and>
    os_pci_write_dword_k E nvd t h off d = Done (t, NV_ERR_NOT_SUPPORTED)"
  by (simp add: byte_dk.rd_out [OF assms] word_dk.rd_out [OF assms] dword_dk.rd_out [OF assms]
      byte_k.rd_out [OF assms] word_k.rd_out [OF assms] dword_k.rd_out [OF assms]
      byte_dk.wr_out [OF assms] word_dk.wr_out [OF assms] dword_dk.wr_out [OF assms]
      byte_k.wr_out [OF assms] word_k.wr_out [OF assms] dword_k.wr_out [OF assms])

definition example_nvd :: "ptr \<Rightarrow> nvd_pointer" where
  "example_nvd dev =
     Some (0x100, \<lparr>nv_state_of = \<lparr>pci_info_of = \<lparr>vendor_id = 0, device_id = 0, domain_nr = 0, bus_nr = 0,
        slot_nr = 0, function_nr = 0\<rparr>, subsystem_id = 0, subsystem_vendor = 0, os_state = 0,
        nv_flags = 0, dma_dev = 0, handle_of = 0, bars = [], regs = 0, fb = 0\<rparr>,
      service = 0, device = dev, dma_mask = 0\<rparr>)"

definition example_cfg :: "nat \<Rightarrow> u16" where
  "example_cfg a = (if a = 0 then 0x10DE else 0x2204)"

lemma pci_access_refused_witness:
  "os_pci_read_word_dk (example_pci_dk example_cfg) (example_nvd 0) (\<lambda>_ _. 0) 0 0x1000 =
     Done (\<lambda>_ _. 0, NV_ERR_NOT_SUPPORTED, 0x00FF) \<and>
   os_pci_read_word_dk (example_pci_dk example_cfg) (example_nvd 0) (\<lambda>_ _. 0) 0 0x1000 \<noteq>
     Done (\<lambda>_ _. 0, NV_ERR_NOT_SUPPORTED, - 1)"
proof -
  have "(0x1000 :: u32) \<le> 0x1000" by simp
  from pci_access_refused [OF this, THEN conjunct2, THEN conjunct1,
      of "example_pci_dk example_cfg" "example_nvd 0" "\<lambda>_ _. 0" 0]
  show ?thesis by simp
qed

end
