(* ===== verification/PciClients.thy ===== *)
theory PciClients
  imports PciConfig
begin

text \<open>
  Runs of PCI accesses of mixed widths: the reads and writes of \<open>pci_driverkit.cpp\<close> and
  \<open>pci_kernel.cpp\<close> in sequence.  The reference is \<open>pci_spec\<close>: an access of \<open>n\<close> bytes is \<open>n\<close> byte
  accesses in little-endian order.  Each target implements it on a space of its own: the memory
  with index 0 of a device that satisfies \<open>bar_memory\<close>, the I/O ports under \<open>port_memory\<close>.
\<close>

section \<open>The reference\<close>

datatype width = W8 | W16 | W32

fun bytes :: "width \<Rightarrow> nat" where
  "bytes W8 = 1"
| "bytes W16 = 2"
| "bytes W32 = 4"

datatype pci_op = PciRead width u32 | PciWrite width u32 u32

text \<open>
  Each access gives its status and the value read (0 for a write); past the guarded range it
  is refused, and a refused word reads as \<open>0xFF\<close>.
\<close>

fun refused_value :: "width \<Rightarrow> u32" where
  "refused_value W8 = 0xFF"
| "refused_value W16 = 0xFF"
| "refused_value W32 = 0xFFFFFFFF"

fun pci_access ::
  "('a :: len word \<Rightarrow> u8) \<Rightarrow> pci_op \<Rightarrow> ('a word \<Rightarrow> u8) \<times> nv_status \<times> u32" where
  "pci_access m (PciRead w off) =
     (if NV_PCIE_CFG_MAX_OFFSET \<le> off then (m, NV_ERR_NOT_SUPPORTED, refused_value w)
      else (m, NV_OK, of_bytes (load m (ucast off) (bytes w))))"
| "pci_access m (PciWrite w off v) =
     (if NV_PCIE_CFG_MAX_OFFSET \<le> off then (m, NV_ERR_NOT_SUPPORTED, 0)
      else (store m (ucast off) (to_bytes (bytes w) v), NV_OK, 0))"

fun pci_spec ::
  "('a :: len word \<Rightarrow> u8) \<Rightarrow> pci_op list \<Rightarrow> ('a word \<Rightarrow> u8) \<times> (nv_status \<times> u32) list" where
  "pci_spec m [] = (m, [])"
| "pci_spec m (op # ops) =
     (case pci_access m op of (m1, r) \<Rightarrow>
        (case pci_spec m1 ops of (m2, rs) \<Rightarrow> (m2, r # rs)))"

section \<open>Runs on the targets\<close>

fun pci_run ::
  "('s \<Rightarrow> pci_op \<Rightarrow> ('s \<times> nv_status \<times> u32) outcome) \<Rightarrow> 's \<Rightarrow> pci_op list
   \<Rightarrow> ('s \<times> (nv_status \<times> u32) list) outcome" where
  "pci_run access s [] = Done (s, [])"
| "pci_run access s (op # ops) =
     (case access s op of Fault f \<Rightarrow> Fault f
      | Done (s1, r) \<Rightarrow>
          (case pci_run access s1 ops of Fault f \<Rightarrow> Fault f
           | Done (s2, rs) \<Rightarrow> Done (s2, r # rs)))"

text \<open>A value of any width as 32 bits, and the status of a write with no value.\<close>

definition widened :: "('s \<times> nv_status \<times> 'w :: len word) outcome \<Rightarrow> ('s \<times> nv_status \<times> u32) outcome" where
  "widened r = (case r of Fault f \<Rightarrow> Fault f | Done (s, st, v) \<Rightarrow> Done (s, st, ucast v))"

definition no_value :: "('s \<times> nv_status) outcome \<Rightarrow> ('s \<times> nv_status \<times> u32) outcome" where
  "no_value r = (case r of Fault f \<Rightarrow> Fault f | Done (s, st) \<Rightarrow> Done (s, st, 0))"

text \<open>The call for each access; \<open>val\<close> is narrowed to the parameter's type.\<close>

fun access_dk ::
  "'s pci_device_dk \<Rightarrow> nvd_pointer \<Rightarrow> ptr \<Rightarrow> 's \<Rightarrow> pci_op \<Rightarrow> ('s \<times> nv_status \<times> u32) outcome" where
  "access_dk D nvd h s (PciRead W8 off) = widened (os_pci_read_byte_dk D nvd s h off)"
| "access_dk D nvd h s (PciRead W16 off) = widened (os_pci_read_word_dk D nvd s h off)"
| "access_dk D nvd h s (PciRead W32 off) = widened (os_pci_read_dword_dk D nvd s h off)"
| "access_dk D nvd h s (PciWrite W8 off v) = no_value (os_pci_write_byte_dk D nvd s h off (ucast v))"
| "access_dk D nvd h s (PciWrite W16 off v) = no_value (os_pci_write_word_dk D nvd s h off (ucast v))"
| "access_dk D nvd h s (PciWrite W32 off v) = no_value (os_pci_write_dword_dk D nvd s h off v)"

fun access_k ::
  "'s pci_device_k \<Rightarrow> nvd_pointer \<Rightarrow> ptr \<Rightarrow> 's \<Rightarrow> pci_op \<Rightarrow> ('s \<times> nv_status \<times> u32) outcome" where
  "access_k D nvd h s (PciRead W8 off) = widened (os_pci_read_byte_k D nvd s h off)"
| "access_k D nvd h s (PciRead W16 off) = widened (os_pci_read_word_k D nvd s h off)"
| "access_k D nvd h s (PciRead W32 off) = widened (os_pci_read_dword_k D nvd s h off)"
| "access_k D nvd h s (PciWrite W8 off v) = no_value (os_pci_write_byte_k D nvd s h off (ucast v))"
| "access_k D nvd h s (PciWrite W16 off v) = no_value (os_pci_write_word_k D nvd s h off (ucast v))"
| "access_k D nvd h s (PciWrite W32 off v) = no_value (os_pci_write_dword_k D nvd s h off v)"

section \<open>Widths and bytes\<close>

lemma to_bytes_narrow:
  "to_bytes (Suc 0) (ucast (ucast v :: u8)) = to_bytes (Suc 0) v"
  "to_bytes 2 (ucast (ucast v :: u16)) = to_bytes 2 v"
proof -
  have "(ucast (ucast (ucast v :: u8) :: u32) :: u8) = ucast v"
    "(ucast (ucast (ucast v :: u16) :: u32) :: u8) = ucast v"
    "(ucast (drop_bit 8 (ucast (ucast v :: u16) :: u32)) :: u8) = ucast (drop_bit 8 v)"
    by (rule bit_word_eqI, auto simp: bit_simps)+
  then show "to_bytes (Suc 0) (ucast (ucast v :: u8)) = to_bytes (Suc 0) v"
    and "to_bytes 2 (ucast (ucast v :: u16)) = to_bytes 2 v"
    by (simp_all add: numeral_2_eq_2)
qed

lemma byte_widened: "(ucast (ucast (ucast b :: u32) :: u8) :: u32) = ucast b" for b :: u8
  by (rule bit_word_eqI) (auto simp: bit_simps dest: bit_imp_le_length)

lemma byte_narrowed: "(ucast (ucast (ucast v :: u8) :: u32) :: u8) = ucast v" for v :: u32
  by (rule bit_word_eqI) (auto simp: bit_simps)

lemmas of_bytes_narrow' = of_bytes_narrow [unfolded One_nat_def]

text \<open>A guarded offset in either address width.\<close>

lemma guarded_offset: "off < 0x1000 \<Longrightarrow> unat (ucast off :: u16) = unat off"
    "off < 0x1000 \<Longrightarrow> unat (ucast off :: u64) = unat off" for off :: u32
proof -
  assume "off < 0x1000"
  then have "unat off < 0x1000" by (simp add: word_less_nat_alt)
  then show "unat (ucast off :: u16) = unat off" "unat (ucast off :: u64) = unat off"
    by (simp_all add: unsigned_ucast_eq unsigned_take_bit_eq take_bit_nat_eq_self)
qed

lemma store_at:
  fixes a :: "'a :: len word"
  assumes "unat a + length bs \<le> 2 ^ LENGTH('a)"
  shows "store m a bs x =
    (if unat a \<le> unat x \<and> unat x < unat a + length bs then bs ! (unat x - unat a) else m x)"
  using assms
proof (induction bs arbitrary: a)
  case (Cons b bs)
  show ?case
  proof (cases "x = a")
    case False
    then have ne: "unat x \<noteq> unat a" by (simp add: word_unat_eq_iff)
    show ?thesis
    proof (cases bs)
      case Nil
      with False ne show ?thesis by auto
    next
      case (Cons c cs)
      with Cons.prems have "unat a + 1 < 2 ^ LENGTH('a)" by simp
      then have next_a: "unat (a + 1) = unat a + 1" by (simp add: unat_word_ariths)
      with Cons.IH [of "a + 1"] Cons.prems False ne show ?thesis by (auto simp: nth_Cons')
    qed
  qed simp
qed auto

lemma to_bytes_differ:
  assumes "0 < n" and "n \<le> 4"
  shows "\<exists>v. to_bytes n v ! (n - 1) \<noteq> b"
proof -
  let ?v = "push_bit (8 * (n - 1)) (ucast (NOT b)) :: u32"
  have "to_bytes n ?v ! (n - 1) = NOT b"
    using assms by (simp add: to_bytes_nth)
      (rule bit_word_eqI, auto simp: bit_simps)
  moreover have "NOT b \<noteq> b"
  proof
    assume "NOT b = b"
    then have "bit (NOT b) 0 = bit b 0" by simp
    then show False by (simp add: bit_simps)
  qed
  ultimately show ?thesis by metis
qed

section \<open>The contract of a target\<close>

fun op_offset :: "pci_op \<Rightarrow> u32" where
  "op_offset (PciRead _ off) = off"
| "op_offset (PciWrite _ off _) = off"

definition out_of_range :: "pci_op \<Rightarrow> bool" where
  "out_of_range op \<longleftrightarrow> NV_PCIE_CFG_MAX_OFFSET \<le> op_offset op"

text \<open>The accesses work on one space of the device, \<open>space\<close>, and leave the rest of it alone.\<close>

locale register_target =
  fixes access :: "'s \<Rightarrow> pci_op \<Rightarrow> ('s \<times> nv_status \<times> u32) outcome"
    and space :: "'s \<Rightarrow> 'a :: len word \<Rightarrow> u8"
    and rest :: "'s \<Rightarrow> 'r"
    and present :: bool
  assumes returns: "present \<or> out_of_range op \<Longrightarrow> \<exists>s'.
      access s op = Done (s', snd (pci_access (space s) op)) \<and>
      space s' = fst (pci_access (space s) op) \<and> rest s' = rest s"
    and faults: "\<not> (present \<or> out_of_range op) \<Longrightarrow> access s op = Fault NullDereference"
begin

lemma run_returns:
  "present \<or> (\<forall>op \<in> set ops. out_of_range op) \<Longrightarrow> \<exists>s'.
     pci_run access s ops = Done (s', snd (pci_spec (space s) ops)) \<and>
     space s' = fst (pci_spec (space s) ops) \<and> rest s' = rest s"
proof (induction ops arbitrary: s)
  case (Cons op ops)
  then have "present \<or> out_of_range op" by auto
  from returns [OF this, of s] obtain s1 where s1: "access s op = Done (s1, snd (pci_access (space s) op))"
    "space s1 = fst (pci_access (space s) op)" "rest s1 = rest s" by blast
  from Cons obtain s2 where "pci_run access s1 ops = Done (s2, snd (pci_spec (space s1) ops))"
    "space s2 = fst (pci_spec (space s1) ops)" "rest s2 = rest s1" by auto
  with s1 show ?case by (auto simp: split_def)
qed simp

lemma run_faults:
  "\<not> (present \<or> (\<forall>op \<in> set ops. out_of_range op)) \<Longrightarrow> pci_run access s ops = Fault NullDereference"
proof (induction ops arbitrary: s)
  case (Cons op ops)
  show ?case
  proof (cases "out_of_range op")
    case True
    with returns [of op s] obtain s1 r where "access s op = Done (s1, r)" by blast
    with Cons True show ?thesis by simp
  qed (use Cons.prems faults [of op s] in simp)
qed simp

end

lemma widened_fault [simp]: "widened (Fault f) = Fault f"
  by (simp add: widened_def)

lemma widened_done [simp]: "widened (Done (s, st, v)) = Done (s, st, ucast v)"
  by (simp add: widened_def)

lemma no_value_simps [simp]: "no_value (Fault f) = Fault f" "no_value (Done (s, st)) = Done (s, st, 0)"
  by (simp_all add: no_value_def)

lemmas access_defs = out_of_range_def on_device_const Let_def
  os_pci_read_byte_dk_def os_pci_read_word_dk_def os_pci_read_dword_dk_def
  os_pci_write_byte_dk_def os_pci_write_word_dk_def os_pci_write_dword_dk_def
  os_pci_read_byte_k_def os_pci_read_word_k_def os_pci_read_dword_k_def
  os_pci_write_byte_k_def os_pci_write_word_k_def os_pci_write_dword_k_def
  of_bytes_narrow' to_bytes_narrow byte_widened byte_narrowed

text \<open>DriverKit: the space is the memory with index 0, the rest are the other memories.\<close>

sublocale bar_memory \<subseteq> registers: register_target
  "access_dk D nvd h" "\<lambda>s. view s 0" "\<lambda>s. (view s)(0 := \<lambda>_. 0)" "device_present nvd" for nvd h
proof
  fix op s assume ok: "device_present nvd \<or> out_of_range op"
  show "\<exists>s'. access_dk D nvd h s op = Done (s', snd (pci_access (view s 0) op)) \<and>
      view s' 0 = fst (pci_access (view s 0) op) \<and> (view s')(0 := \<lambda>_. 0) = (view s)(0 := \<lambda>_. 0)"
  proof (cases op)
    case (PciRead w off)
    with ok read8 [of s 0 "ucast off"] read16 [of s 0 "ucast off"] read32 [of s 0 "ucast off"]
    show ?thesis by (cases w) (auto simp: access_defs)
  next
    case (PciWrite w off v)
    with ok show ?thesis by (cases w) (auto simp: access_defs write8 write16 write32)
  qed
next
  fix op s assume "\<not> (device_present nvd \<or> out_of_range op)"
  then show "access_dk D nvd h s op = Fault NullDereference"
    by (cases "(D, nvd, h, s, op)" rule: access_dk.cases) (auto simp: access_defs)
qed

text \<open>The kernel: the space is that of the I/O ports.\<close>

sublocale port_memory \<subseteq> registers: register_target
  "access_k E nvd h" ports "\<lambda>_. ()" "device_present nvd" for nvd h
proof
  fix op s assume ok: "device_present nvd \<or> out_of_range op"
  show "\<exists>s'. access_k E nvd h s op = Done (s', snd (pci_access (ports s) op)) \<and>
      ports s' = fst (pci_access (ports s) op) \<and> () = ()"
  proof (cases op)
    case (PciRead w off)
    with ok read8 [of s "ucast off"] read16 [of s "ucast off"] read32 [of s "ucast off"]
    show ?thesis by (cases w) (auto simp: access_defs)
  next
    case (PciWrite w off v)
    with ok show ?thesis by (cases w) (auto simp: access_defs write8 write16 write32)
  qed
next
  fix op s assume "\<not> (device_present nvd \<or> out_of_range op)"
  then show "access_k E nvd h s op = Fault NullDereference"
    by (cases "(E, nvd, h, s, op)" rule: access_k.cases) (auto simp: access_defs)
qed

section \<open>Where a write reaches\<close>

context register_target
begin

lemma write_effect:
  assumes "present" and "access s (PciWrite w off v) = Done (s', NV_OK, r)"
    and "\<And>off :: u32. off < 0x1000 \<Longrightarrow> unat (ucast off :: 'a word) = unat off"
    and "0x1003 < (2 :: nat) ^ LENGTH('a)"
  shows "space s' x = (if unat off \<le> unat x \<and> unat x < unat off + bytes w 
    then ucast (drop_bit (8 * (unat x - unat off)) v) else space s x)"
proof -
  from returns [of "PciWrite w off v" s] assms(1,2) have res:
    "snd (pci_access (space s) (PciWrite w off v)) = (NV_OK, r)"
    "space s' = fst (pci_access (space s) (PciWrite w off v))" by auto
  then have off: "off < 0x1000" by (auto simp: NV_PCIE_CFG_MAX_OFFSET_def not_le split: if_splits)
  then have "unat off < 0x1000" by (simp add: word_less_nat_alt)
  moreover have "bytes w \<le> 4" by (cases w) simp_all
  ultimately have room: "unat (ucast off :: 'a word) + length (to_bytes (bytes w) v) \<le> 2 ^ LENGTH('a)"
    using assms(3) [OF off] assms(4) by simp
  from off res(2) have "space s' = store (space s) (ucast off) (to_bytes (bytes w) v)"
    by (simp add: NV_PCIE_CFG_MAX_OFFSET_def not_le [symmetric])
  with store_at [OF room, of "space s" x] assms(3) [OF off] show ?thesis
    by (auto simp: to_bytes_nth less_diff_conv2)
qed

lemma write_ok_iff:
  assumes "present"
  shows "(\<exists>s'. access s (PciWrite w off v) = Done (s', NV_OK, 0)) \<longleftrightarrow> off < 0x1000"
proof -
  from returns [of "PciWrite w off v" s] assms obtain s' where
    "access s (PciWrite w off v) = Done (s', snd (pci_access (space s) (PciWrite w off v)))" by auto
  then show ?thesis
    by (auto simp: NV_PCIE_CFG_MAX_OFFSET_def not_le split: if_splits)
qed

lemma write_past_end_iff:
  assumes "present"
    and fit: "\<And>off :: u32. off < 0x1000 \<Longrightarrow> unat (ucast off :: 'a word) = unat off"
    and len: "0x1003 < (2 :: nat) ^ LENGTH('a)"
  shows "(\<exists>v s' x. access s (PciWrite w off v) = Done (s', NV_OK, 0) \<and>
      0x1000 \<le> unat x \<and> space s' x \<noteq> space s x) \<longleftrightarrow>
    off < 0x1000 \<and> 0x1000 < unat off + bytes w" (is "?past \<longleftrightarrow> _")
proof
  assume ?past
  then obtain v s' x where st: "access s (PciWrite w off v) = Done (s', NV_OK, 0)"
    "0x1000 \<le> unat x" "space s' x \<noteq> space s x" by blast
  with write_effect [OF assms(1) st(1) fit len, of x] have "unat x < unat off + bytes w"
    by (simp split: if_splits)
  with st write_ok_iff [OF assms(1)] show "off < 0x1000 \<and> 0x1000 < unat off + bytes w" by fastforce
next
  assume off: "off < 0x1000 \<and> 0x1000 < unat off + bytes w"
  have n: "0 < bytes w" "bytes w \<le> 4" by (cases w; simp)+
  define k where "k = unat off + bytes w - 1"
  have "unat off < 0x1000" using off by (simp add: word_less_nat_alt)
  with n len have "k < 2 ^ LENGTH('a)" by (simp add: k_def)
  then have "unat (of_nat k :: 'a word) = k" by (simp add: unat_of_nat take_bit_nat_eq_self)
  then obtain x :: "'a word" where "unat x = k" by blast
  then have x: "unat x = unat off + bytes w - 1" by (simp add: k_def)
  from to_bytes_differ [OF n, of "space s x"] obtain v
    where v: "to_bytes (bytes w) v ! (bytes w - 1) \<noteq> space s x" by blast
  from write_ok_iff [OF assms(1)] off obtain s'
    where st: "access s (PciWrite w off v) = Done (s', NV_OK, 0)" by blast
  have "unat x - unat off = bytes w - 1" using x n by linarith
  moreover have "unat off \<le> unat x \<and> unat x < unat off + bytes w" using x n by linarith
  then have "space s' x = ucast (drop_bit (8 * (unat x - unat off)) v)"
    using write_effect [OF assms(1) st fit len, of x] by simp
  ultimately have "space s' x \<noteq> space s x" using v n by (simp add: to_bytes_nth)
  moreover have "0x1000 \<le> unat x" using off x by linarith
  ultimately show ?past using st by blast
qed

end

context bar_memory
begin

lemmas run_returns_dk = registers.run_returns
lemmas run_faults_dk = registers.run_faults
lemmas write_ok_iff_dk = registers.write_ok_iff
lemmas write_effect_dk = registers.write_effect
lemmas write_past_end_iff_dk = registers.write_past_end_iff

end

context port_memory
begin

lemmas run_returns_k = registers.run_returns
lemmas run_faults_k = registers.run_faults
lemmas write_ok_iff_k = registers.write_ok_iff
lemmas write_effect_k = registers.write_effect
lemmas write_past_end_iff_k = registers.write_past_end_iff

end

section \<open>Properties\<close>

text \<open>
  C30. The accesses are of BAR memory and of I/O ports: on memory that keeps its bytes,
  any sequence of reads and writes of mixed widths gives the statuses, the values and the final bytes of the
  byte-wise little-endian reference, refusals included, on the memory with index 0 (DriverKit),
  all other memories being left as they are, and on the I/O ports (kernel).  Without a device it
  faults when an access is within the guarded range, and only then.  The handles play no part.
\<close>

theorem pci_accesses_bytewise:
  assumes "bar_memory D view" and "port_memory E ports"
  shows "if device_present nvd \<or> (\<forall>op \<in> set ops. 0x1000 \<le> op_offset op)
    then (\<exists>s'. pci_run (access_dk D nvd h) s ops = Done (s', snd (pci_spec (view s 0) ops)) \<and>
        view s' = (view s)(0 := fst (pci_spec (view s 0) ops))) \<and>
      (\<exists>t'. pci_run (access_k E nvd h) t ops = Done (t', snd (pci_spec (ports t) ops)) \<and>
        ports t' = fst (pci_spec (ports t) ops))
    else pci_run (access_dk D nvd h) s ops = Fault NullDereference \<and>
      pci_run (access_k E nvd h) t ops = Fault NullDereference"
proof (cases "device_present nvd \<or> (\<forall>op \<in> set ops. 0x1000 \<le> op_offset op)")
  case True
  then have ok: "device_present nvd \<or> (\<forall>op \<in> set ops. out_of_range op)"
    by (simp add: out_of_range_def NV_PCIE_CFG_MAX_OFFSET_def)
  from bar_memory.run_returns_dk [OF assms(1) ok, of h s] obtain s' where
    s': "pci_run (access_dk D nvd h) s ops = Done (s', snd (pci_spec (view s 0) ops))"
      "view s' 0 = fst (pci_spec (view s 0) ops)" "(view s')(0 := \<lambda>_. 0) = (view s)(0 := \<lambda>_. 0)" by blast
  have "view s' i = ((view s)(0 := fst (pci_spec (view s 0) ops))) i" for i
    using s'(2) fun_cong [OF s'(3), of i] by (cases "i = 0") simp_all
  then have "view s' = (view s)(0 := fst (pci_spec (view s 0) ops))" by blast
  with s'(1) True port_memory.run_returns_k [OF assms(2) ok, of h t] show ?thesis by auto
next
  case False
  then have "\<not> (device_present nvd \<or> (\<forall>op \<in> set ops. out_of_range op))"
    by (simp add: out_of_range_def NV_PCIE_CFG_MAX_OFFSET_def)
  with False bar_memory.run_faults_dk [OF assms(1) this, of h s]
    port_memory.run_faults_k [OF assms(2) this, of h t] show ?thesis by simp
qed

lemma load_4: "load m a 4 = [m a, m (a + 1), m (a + 1 + 1), m (a + 1 + 1 + 1)]"
  by (simp add: numeral_eq_Suc)

lemma to_bytes_2: "to_bytes 2 v = [ucast v, ucast (drop_bit 8 v)]"
  by (simp add: numeral_2_eq_2)

text \<open>
  A word written to the first register and read back; the second memory, and what configuration
  space says of the device, play no part.
\<close>

theorem pci_accesses_bytewise_witness:
  "\<exists>s'. pci_run (access_dk (example_pci_dk example_cfg) (example_nvd 0x500) 0) (\<lambda>i _. if i = 0 then 7 else 9)
      [PciWrite W16 0 0xABCD, PciRead W32 0, PciRead W16 0x1000] =
      Done (s', [(NV_OK, 0), (NV_OK, 0x0707ABCD), (NV_ERR_NOT_SUPPORTED, 0xFF)]) \<and> s' 1 = (\<lambda>_. 9)"
proof -
  let ?ops = "[PciWrite W16 0 0xABCD, PciRead W32 0, PciRead W16 0x1000]"
  have "device_present (example_nvd 0x500)" by (simp add: example_nvd_def)
  with pci_accesses_bytewise [OF example_dk.bar_memory_axioms [of example_cfg]
      example_k.port_memory_axioms [of example_cfg], of "example_nvd 0x500" ?ops 0
      "\<lambda>i _. if i = 0 then 7 else 9" "\<lambda>_. 0"]
  obtain s' where s': "pci_run (access_dk (example_pci_dk example_cfg) (example_nvd 0x500) 0)
      (\<lambda>i _. if i = 0 then 7 else 9) ?ops = Done (s', snd (pci_spec (\<lambda>_ :: u64. 7) ?ops))"
    "s' = (\<lambda>i _. if i = 0 then 7 else 9)(0 := fst (pci_spec (\<lambda>_ :: u64. 7) ?ops))"
    by (simp only: if_P simp_thms if_True) blast
  have "snd (pci_spec (\<lambda>_ :: u64. 7) ?ops) =
      [(NV_OK, 0), (NV_OK, 0x0707ABCD), (NV_ERR_NOT_SUPPORTED, 0xFF)]"
    by (simp add: NV_PCIE_CFG_MAX_OFFSET_def load_4 to_bytes_2)
  moreover have "s' 1 = (\<lambda>_. 9)" using s'(2) by simp
  ultimately show ?thesis using s'(1) by (intro exI [of _ s']) (simp only: simp_thms)
qed

text \<open>
  C31. What a write changes, on both targets and for every width: with a device it is accepted
  exactly when its first byte is below \<open>0x1000\<close>, and then sets its bytes, in little-endian order,
  and nothing else.  The guard checks only the first byte: whether a write can change a byte at
  or past \<open>NV_PCIE_CFG_MAX_OFFSET\<close> is exactly whether it starts below it and ends behind it.
\<close>

theorem pci_write_footprint:
  assumes "bar_memory D view" and "port_memory E ports" and "device_present nvd"
  shows "((\<exists>s'. access_dk D nvd h s (PciWrite w off v) = Done (s', NV_OK, 0)) \<longleftrightarrow> off < 0x1000) \<and>
    ((\<exists>t'. access_k E nvd h t (PciWrite w off v) = Done (t', NV_OK, 0)) \<longleftrightarrow> off < 0x1000) \<and>
    (\<forall>s' x. access_dk D nvd h s (PciWrite w off v) = Done (s', NV_OK, 0) \<longrightarrow>
      view s' 0 x = (if unat off \<le> unat x \<and> unat x < unat off + bytes w
        then ucast (drop_bit (8 * (unat x - unat off)) v) else view s 0 x)) \<and>
    (\<forall>t' x. access_k E nvd h t (PciWrite w off v) = Done (t', NV_OK, 0) \<longrightarrow>
      ports t' x = (if unat off \<le> unat x \<and> unat x < unat off + bytes w
        then ucast (drop_bit (8 * (unat x - unat off)) v) else ports t x)) \<and>
    ((\<exists>u s' x. access_dk D nvd h s (PciWrite w off u) = Done (s', NV_OK, 0) \<and>
        0x1000 \<le> unat x \<and> view s' 0 x \<noteq> view s 0 x) \<longleftrightarrow>
      off < 0x1000 \<and> 0x1000 < unat off + bytes w) \<and>
    ((\<exists>u t' x. access_k E nvd h t (PciWrite w off u) = Done (t', NV_OK, 0) \<and>
        0x1000 \<le> unat x \<and> ports t' x \<noteq> ports t x) \<longleftrightarrow>
      off < 0x1000 \<and> 0x1000 < unat off + bytes w)"
proof -
  have len: "0x1003 < (2 :: nat) ^ LENGTH(64)" "0x1003 < (2 :: nat) ^ LENGTH(16)" by simp_all
  show ?thesis
    by (intro conjI allI impI
        bar_memory.write_ok_iff_dk [OF assms(1,3)] port_memory.write_ok_iff_k [OF assms(2,3)]
        bar_memory.write_past_end_iff_dk [OF assms(1,3) guarded_offset(2) len(1)]
        port_memory.write_past_end_iff_k [OF assms(2,3) guarded_offset(1) len(2)])
      (rule bar_memory.write_effect_dk [OF assms(1,3) _ guarded_offset(2) len(1)]
        port_memory.write_effect_k [OF assms(2,3) _ guarded_offset(1) len(2)], assumption+)+
qed

theorem pci_write_footprint_witness:
  "\<exists>u s' x. access_dk (example_pci_dk example_cfg) (example_nvd 0x500) 0 (\<lambda>_ _. 0) (PciWrite W16 0xFFF u) =
     Done (s', NV_OK, 0) \<and> 0x1000 \<le> unat x \<and> s' 0 x \<noteq> 0"
proof -
  have "device_present (example_nvd 0x500)" by (simp add: example_nvd_def)
  from pci_write_footprint [OF example_dk.bar_memory_axioms [of example_cfg]
      example_k.port_memory_axioms [of example_cfg] this, of 0 "\<lambda>_ _. 0" W16 "0xFFF" 0 "\<lambda>_. 0"]
  show ?thesis by simp
qed

end
