(* ===== verification/LockBlocks.thy ===== *)
theory LockBlocks
  imports Semaphores
begin

text \<open>
  The memory of locks and semaphores: clients that make and free them, on both targets, against
  what the allocators have handed out.  The locale \<open>lock_objects\<close> is what the functions that
  make and free a lock have to do with the allocators; it is interpreted on those of each target.
\<close>

section \<open>The allocators\<close>

text \<open>What a live block is; a block of bytes has a size, which \<open>IOFree\<close> has to be given.\<close>

datatype pool_block =
    Bytes nat
  | SimpleLockBlock
  | LockBlock
  | RWLockBlock

type_synonym pool = "ptr \<Rightarrow> pool_block option"

definition pool_take :: "pool \<Rightarrow> ptr \<Rightarrow> pool_block \<Rightarrow> pool option" where
  "pool_take h p b = (if p = NULL then Some h else if h p = None then Some (h(p \<mapsto> b)) else None)"

definition pool_give :: "pool \<Rightarrow> ptr \<Rightarrow> pool_block \<Rightarrow> pool option" where
  "pool_give h p b = (if h p = Some b then Some (h(p := None)) else None)"

text \<open>\<open>None\<close>: a call that a correct client does not make.\<close>

fun pool_step :: "pool \<Rightarrow> lock_call \<Rightarrow> pool option" where
  "pool_step h (AllocBytes n p) = pool_take h p (Bytes n)"
| "pool_step h (AllocSimpleLock p) = pool_take h p SimpleLockBlock"
| "pool_step h (AllocLock p) = pool_take h p LockBlock"
| "pool_step h (AllocRWLock p) = pool_take h p RWLockBlock"
| "pool_step h (FreeBytes p n) = pool_give h p (Bytes n)"
| "pool_step h (FreeSimpleLock p) = pool_give h p SimpleLockBlock"
| "pool_step h (FreeLock p) = pool_give h p LockBlock"
| "pool_step h (FreeRWLock p) = pool_give h p RWLockBlock"

section \<open>Making and freeing\<close>

datatype target = DriverKit | Kernel

text \<open>A semaphore comes with its initial value.\<close>

datatype lock_kind =
    Spinlock
  | Mutex
  | RWLock
  | Semaphore u32

text \<open>What the client gets is what was stored or returned.\<close>

definition make_lock :: "target \<Rightarrow> 's mach_semaphores \<Rightarrow> task \<Rightarrow> lock_kind \<Rightarrow> ptr \<Rightarrow> 's \<times> cells \<Rightarrow>
    (('s \<times> cells) \<times> lock_call \<times> ptr option) outcome" where
  "make_lock t M task k p x =
     (case k of
        Spinlock \<Rightarrow>
          (case (if t = DriverKit then os_alloc_spinlock_dk p else os_alloc_spinlock_k p) of
             (c, _, got) \<Rightarrow> Done (x, c, got))
      | Mutex \<Rightarrow>
          (case (if t = DriverKit then os_alloc_mutex_dk p else os_alloc_mutex_k p) of
             (c, _, got) \<Rightarrow> Done (x, c, got))
      | RWLock \<Rightarrow>
          (case (if t = DriverKit then os_alloc_rwlock_dk p else Done (os_alloc_rwlock_k p)) of
             Fault f \<Rightarrow> Fault f
           | Done (c, q) \<Rightarrow> Done (x, c, Some q))
      | Semaphore v \<Rightarrow>
          (case os_alloc_semaphore M task (fst x) (snd x) p v of
             Fault f \<Rightarrow> Fault f
           | Done (s, cells, c, q) \<Rightarrow> Done ((s, cells), c, Some q)))"

definition free_lock :: "target \<Rightarrow> 's mach_semaphores \<Rightarrow> task \<Rightarrow> lock_kind \<Rightarrow> ptr \<Rightarrow> 's \<times> cells \<Rightarrow>
    ('s \<times> cells) \<times> lock_call" where
  "free_lock t M task k p x =
     (case k of
        Spinlock \<Rightarrow> (x, if t = DriverKit then os_free_spinlock_dk p else os_free_spinlock_k p)
      | Mutex \<Rightarrow> (x, if t = DriverKit then os_free_mutex_dk p else os_free_mutex_k p)
      | RWLock \<Rightarrow> (x, if t = DriverKit then os_free_rwlock_dk p else os_free_rwlock_k p)
      | Semaphore v \<Rightarrow>
          (case os_free_semaphore M task (fst x) (snd x) p of (s, cells, c) \<Rightarrow> ((s, cells), c)))"

text \<open>The block each kind of lock is.\<close>

fun block_of :: "target \<Rightarrow> lock_kind \<Rightarrow> pool_block" where
  "block_of DriverKit Spinlock = Bytes (size_of os_unfair_lock_s)"
| "block_of Kernel Spinlock = SimpleLockBlock"
| "block_of _ Mutex = LockBlock"
| "block_of DriverKit RWLock = Bytes (size_of pthread_rwlock_s)"
| "block_of Kernel RWLock = RWLockBlock"
| "block_of _ (Semaphore v) = Bytes (size_of semaphore_t)"

section \<open>Clients\<close>

text \<open>
  The locks the client has, by their pointers; the allocators' view, \<open>None\<close> once a call was
  wrong; the calls made.
\<close>

record 'x lock_client =
  inside :: 'x
  has_locks :: "ptr \<Rightarrow> lock_kind option"
  pool_now :: "pool option"
  pool_calls :: "lock_call list"

text \<open>\<open>NULL\<close> is not a lock.\<close>

fun keep_lock :: "ptr option \<Rightarrow> lock_kind \<Rightarrow> (ptr \<Rightarrow> lock_kind option) \<Rightarrow> ptr \<Rightarrow> lock_kind option" where
  "keep_lock None k m = m"
| "keep_lock (Some p) k m = (if p = NULL then m else m(p \<mapsto> k))"

text \<open>The allocators hand out blocks that are not live; the client frees the locks it has.\<close>

inductive lock_life ::
    "(lock_kind \<Rightarrow> ptr \<Rightarrow> 'x \<Rightarrow> ('x \<times> lock_call \<times> ptr option) outcome) \<Rightarrow>
     (lock_kind \<Rightarrow> ptr \<Rightarrow> 'x \<Rightarrow> 'x \<times> lock_call) \<Rightarrow> 'x lock_client \<Rightarrow> bool" for make give where
  none_yet: "has_locks y = Map.empty \<Longrightarrow> pool_now y = Some Map.empty \<Longrightarrow> pool_calls y = [] \<Longrightarrow>
    lock_life make give y"
| make: "lock_life make give y \<Longrightarrow> make k p (inside y) = Done (x, c, got) \<Longrightarrow>
    \<forall>h. pool_now y = Some h \<longrightarrow> h p = None \<Longrightarrow>
    lock_life make give \<lparr>inside = x, has_locks = keep_lock got k (has_locks y),
      pool_now = Option.bind (pool_now y) (\<lambda>h. pool_step h c), pool_calls = pool_calls y @ [c]\<rparr>"
| give: "lock_life make give y \<Longrightarrow> has_locks y p = Some k \<Longrightarrow> give k p (inside y) = (x, c) \<Longrightarrow>
    lock_life make give \<lparr>inside = x, has_locks = (has_locks y)(p := None),
      pool_now = Option.bind (pool_now y) (\<lambda>h. pool_step h c), pool_calls = pool_calls y @ [c]\<rparr>"

section \<open>The contract\<close>

text \<open>
  A lock is a block of its kind, which the client gets, and which a free gives back; of a mutex
  the client gets nothing.
\<close>

locale lock_objects =
  fixes make :: "lock_kind \<Rightarrow> ptr \<Rightarrow> 'x \<Rightarrow> ('x \<times> lock_call \<times> ptr option) outcome"
    and give :: "lock_kind \<Rightarrow> ptr \<Rightarrow> 'x \<Rightarrow> 'x \<times> lock_call"
    and block :: "lock_kind \<Rightarrow> pool_block"
  assumes make_takes: "make k p x = Done (x', c, got) \<Longrightarrow> pool_step h c = pool_take h p (block k)"
    and make_gets: "make k p x = Done (x', c, got) \<Longrightarrow> got = (if k = Mutex then None else Some p)"
    and make_mutex: "make k p x = Done (x', c, got) \<Longrightarrow> c = AllocLock q \<longleftrightarrow> k = Mutex \<and> q = p"
    and give_gives: "give k p x = (x', c) \<Longrightarrow> pool_step h c = pool_give h p (block k)"
    and give_mutex: "give k p x = (x', c) \<Longrightarrow> c \<noteq> AllocLock q"
    and mutex_block: "block Mutex = LockBlock"
begin

text \<open>What the pool holds: the locks the client has, and the mutexes nobody has.\<close>

definition pool_of :: "(ptr \<Rightarrow> lock_kind option) \<Rightarrow> lock_call list \<Rightarrow> pool" where
  "pool_of m cs p =
     (case m p of Some k \<Rightarrow> Some (block k)
      | None \<Rightarrow> if p \<noteq> NULL \<and> AllocLock p \<in> set cs then Some LockBlock else None)"

lemma pool_of_put: "pool_of (m(p \<mapsto> k)) cs = (pool_of m cs)(p \<mapsto> block k)"
  by (rule ext) (simp add: pool_of_def)

lemma pool_of_del: "AllocLock p \<notin> set cs \<Longrightarrow> pool_of (m(p := None)) cs = (pool_of m cs)(p := None)"
  by (rule ext) (simp add: pool_of_def)

lemma pool_of_call: "\<forall>q. q \<noteq> NULL \<longrightarrow> c \<noteq> AllocLock q \<Longrightarrow> pool_of m (cs @ [c]) = pool_of m cs"
  by (rule ext) (auto simp: pool_of_def split: option.split)

lemma pool_of_mutex:
  "m p = None \<Longrightarrow> p \<noteq> NULL \<Longrightarrow> pool_of m (cs @ [AllocLock p]) = (pool_of m cs)(p \<mapsto> block Mutex)"
  by (rule ext) (auto simp: pool_of_def mutex_block split: option.split)

definition life_inv :: "'x lock_client \<Rightarrow> bool" where
  "life_inv y \<longleftrightarrow> pool_now y = Some (pool_of (has_locks y) (pool_calls y)) \<and>
     has_locks y NULL = None \<and>
     (\<forall>p k. has_locks y p = Some k \<longrightarrow> k \<noteq> Mutex \<and> AllocLock p \<notin> set (pool_calls y))"

lemma life_inv_make:
  assumes inv: "life_inv y" and make: "make k p (inside y) = Done (x, c, got)"
    and fresh: "\<forall>h. pool_now y = Some h \<longrightarrow> h p = None"
  shows "life_inv \<lparr>inside = x, has_locks = keep_lock got k (has_locks y),
    pool_now = Option.bind (pool_now y) (\<lambda>h. pool_step h c), pool_calls = pool_calls y @ [c]\<rparr>"
proof -
  let ?h = "pool_of (has_locks y) (pool_calls y)"
  from inv have pool: "pool_now y = Some ?h" and null: "has_locks y NULL = None"
    and locks: "\<And>q k. has_locks y q = Some k \<Longrightarrow> k \<noteq> Mutex \<and> AllocLock q \<notin> set (pool_calls y)"
    by (simp_all add: life_inv_def)
  from fresh pool have "?h p = None" by simp
  then have free: "has_locks y p = None" "p \<noteq> NULL \<Longrightarrow> AllocLock p \<notin> set (pool_calls y)"
    by (auto simp: pool_of_def split: option.splits if_splits)
  note takes = make_takes [OF make] and gets = make_gets [OF make] and mutex = make_mutex [OF make]
  show ?thesis
  proof (cases "p = NULL")
    case True
    then have "keep_lock got k (has_locks y) = has_locks y" using gets by simp
    moreover have "pool_of (has_locks y) (pool_calls y @ [c]) = ?h"
      using mutex True by (intro pool_of_call) auto
    moreover have "pool_step ?h c = Some ?h" using takes True by (simp add: pool_take_def)
    moreover have "has_locks y q = Some k' \<Longrightarrow> AllocLock q \<notin> set (pool_calls y @ [c])" for q k'
      using locks [of q k'] mutex [of q] null True by auto
    ultimately show ?thesis using pool null locks by (simp add: life_inv_def)
  next
    case False
    then have step: "pool_step ?h c = Some (?h(p \<mapsto> block k))"
      using takes \<open>?h p = None\<close> by (simp add: pool_take_def)
    show ?thesis
    proof (cases "k = Mutex")
      case True
      then have "c = AllocLock p" "got = None" using mutex [of p] gets by simp_all
      moreover have "has_locks y q = Some k' \<Longrightarrow> q \<noteq> p" for q k' using free(1) by auto
      ultimately show ?thesis
        using pool null locks step pool_of_mutex [of "has_locks y" p, OF free(1) False] True
        by (auto simp: life_inv_def)
    next
      case other: False
      then have call: "\<forall>q. c \<noteq> AllocLock q" and "got = Some p" using mutex gets by simp_all
      then have "pool_of ((has_locks y)(p \<mapsto> k)) (pool_calls y @ [c]) = ?h(p \<mapsto> block k)"
        using pool_of_call [of c] pool_of_put by simp
      with \<open>got = Some p\<close> False other call pool null locks step free(2) show ?thesis
        by (auto simp: life_inv_def)
    qed
  qed
qed

lemma life_inv_give:
  assumes "life_inv y" and "has_locks y p = Some k" and "give k p (inside y) = (x, c)"
  shows "life_inv \<lparr>inside = x, has_locks = (has_locks y)(p := None),
    pool_now = Option.bind (pool_now y) (\<lambda>h. pool_step h c), pool_calls = pool_calls y @ [c]\<rparr>"
proof -
  let ?h = "pool_of (has_locks y) (pool_calls y)"
  from assms(1,2) have p: "AllocLock p \<notin> set (pool_calls y)" by (simp add: life_inv_def)
  from assms(1) have pool: "pool_now y = Some ?h" by (simp add: life_inv_def)
  have call: "\<forall>q. c \<noteq> AllocLock q" using give_mutex [OF assms(3)] by blast
  have "?h p = Some (block k)" using assms(2) by (simp add: pool_of_def)
  then have "pool_step ?h c = Some (?h(p := None))"
    using give_gives [OF assms(3)] by (simp add: pool_give_def)
  moreover have "pool_of ((has_locks y)(p := None)) (pool_calls y @ [c]) = ?h(p := None)"
    using pool_of_call [of c] pool_of_del [OF p] call by simp
  ultimately show ?thesis using assms(1) pool call by (auto simp: life_inv_def)
qed

lemma life_inv: "lock_life make give y \<Longrightarrow> life_inv y"
proof (induction rule: lock_life.induct)
  case (none_yet y)
  then show ?case by (auto simp: life_inv_def pool_of_def fun_eq_iff)
next
  case (make y k p x c got)
  from life_inv_make [OF make.IH make.hyps(2,3)] show ?case .
next
  case (give y p k x c)
  from life_inv_give [OF give.IH give.hyps(2,3)] show ?case .
qed

lemma life_pool: "lock_life make give y \<Longrightarrow> pool_now y = Some (pool_of (has_locks y) (pool_calls y))"
  using life_inv by (simp add: life_inv_def)

lemma life_no_mutex: "lock_life make give y \<Longrightarrow> has_locks y p \<noteq> Some Mutex"
  using life_inv by (auto simp: life_inv_def)

end

section \<open>The two targets\<close>

lemmas make_defs = os_alloc_spinlock_dk_def os_alloc_spinlock_k_def os_alloc_mutex_dk_def
  os_alloc_mutex_k_def os_alloc_rwlock_dk_def os_alloc_rwlock_k_def os_alloc_semaphore_def

lemmas free_defs = os_free_spinlock_dk_def os_free_spinlock_k_def os_free_mutex_dk_def
  os_free_mutex_k_def os_free_rwlock_dk_def os_free_rwlock_k_def os_free_semaphore_def

lemmas lock_size_defs = sizeof_os_unfair_lock_def sizeof_pthread_rwlock_t_def sizeof_semaphore_t_def

lemma make_lock_call:
  assumes "make_lock t M task k p x = Done (x', c, got)"
  shows "pool_step h c = pool_take h p (block_of t k)"
    and "got = (if k = Mutex then None else Some p)"
    and "c = AllocLock q \<longleftrightarrow> k = Mutex \<and> q = p"
  using assms by (cases t; cases k; auto simp: make_lock_def make_defs lock_size_defs
      split: if_splits prod.splits)+

lemma free_lock_call:
  assumes "free_lock t M task k p x = (x', c)"
  shows "pool_step h c = pool_give h p (block_of t k)" and "c \<noteq> AllocLock q"
  using assms by (cases t; cases k; auto simp: free_lock_def free_defs lock_size_defs)+

interpretation lock_target: lock_objects "make_lock t M task" "free_lock t M task" "block_of t"
proof
  show "block_of t Mutex = LockBlock" by (cases t) simp_all
qed (fact make_lock_call free_lock_call)+

lemma make_lock_returns:
  "is_done (make_lock t M task k p x) \<longleftrightarrow>
     p \<noteq> NULL \<or> k = Spinlock \<or> k = Mutex \<or> k = RWLock \<and> t = Kernel"
  by (cases t; cases k) (auto simp: make_lock_def make_defs split: prod.split)

section \<open>Properties\<close>

text \<open>
  C37. The memory of locks and semaphores, on both targets: whatever a client makes and frees, in
  whatever order, every call to the allocators is right (each free names a live block of the kind
  it expects, with the size it was allocated with), and what is live is exactly the locks the
  client has, and every mutex ever made: \<open>os_alloc_mutex\<close> drops the lock it allocates, so no
  client ever has one and nothing frees it.  Making a lock returns unless there is no memory for
  a DriverKit read/write lock or a semaphore.
\<close>

theorem lock_blocks_balance:
  assumes "lock_life (make_lock t M task) (free_lock t M task) y"
  shows "pool_now y = Some (\<lambda>p. case has_locks y p of Some k \<Rightarrow> Some (block_of t k)
      | None \<Rightarrow> if p \<noteq> NULL \<and> AllocLock p \<in> set (pool_calls y) then Some LockBlock else None) \<and>
    (\<forall>p. has_locks y p \<noteq> Some Mutex) \<and>
    (\<forall>k p. is_done (make_lock t M task k p (inside y)) \<longleftrightarrow>
      p \<noteq> NULL \<or> k = Spinlock \<or> k = Mutex \<or> k = RWLock \<and> t = Kernel)"
proof -
  have "lock_target.pool_of t (has_locks y) (pool_calls y) =
      (\<lambda>p. case has_locks y p of Some k \<Rightarrow> Some (block_of t k)
        | None \<Rightarrow> if p \<noteq> NULL \<and> AllocLock p \<in> set (pool_calls y) then Some LockBlock else None)"
    by (rule ext) (simp add: lock_target.pool_of_def)
  with lock_target.life_pool [OF assms] have "pool_now y = Some (\<lambda>p. case has_locks y p of
      Some k \<Rightarrow> Some (block_of t k)
    | None \<Rightarrow> if p \<noteq> NULL \<and> AllocLock p \<in> set (pool_calls y) then Some LockBlock else None)"
    by simp
  moreover have "has_locks y p \<noteq> Some Mutex" for p by (rule lock_target.life_no_mutex [OF assms])
  ultimately show ?thesis using make_lock_returns by blast
qed

text \<open>A read/write lock made and freed, and a mutex: the mutex is left.\<close>

theorem lock_blocks_balance_witness:
  "\<exists>y. lock_life (make_lock DriverKit count_semaphores 9) (free_lock DriverKit count_semaphores 9) y \<and>
     pool_calls y = [AllocBytes 200 0x1000, AllocLock 0x2000, FreeBytes 0x1000 200] \<and>
     has_locks y = Map.empty \<and> pool_now y = Some [0x2000 \<mapsto> LockBlock]"
proof -
  let ?make = "make_lock DriverKit count_semaphores 9" and ?give = "free_lock DriverKit count_semaphores 9"
  let ?x = "(Map.empty, Map.empty)"
  let ?y0 = "\<lparr>inside = ?x, has_locks = Map.empty, pool_now = Some Map.empty, pool_calls = []\<rparr>"
  have "lock_life ?make ?give ?y0" by (rule lock_life.none_yet) simp_all
  from lock_life.make [OF this, where k = RWLock and p = "0x1000" and x = ?x and c = "AllocBytes 200 0x1000"
      and got = "Some 0x1000"]
  have "lock_life ?make ?give \<lparr>inside = ?x, has_locks = [0x1000 \<mapsto> RWLock],
      pool_now = Some [0x1000 \<mapsto> Bytes 200], pool_calls = [AllocBytes 200 0x1000]\<rparr>"
    by (simp add: make_lock_def make_defs lock_size_defs struct_sizes pool_take_def)
  from lock_life.make [OF this, where k = Mutex and p = "0x2000" and x = ?x and c = "AllocLock 0x2000"
      and got = None]
  have "lock_life ?make ?give \<lparr>inside = ?x, has_locks = [0x1000 \<mapsto> RWLock],
      pool_now = Some [0x1000 \<mapsto> Bytes 200, 0x2000 \<mapsto> LockBlock],
      pool_calls = [AllocBytes 200 0x1000, AllocLock 0x2000]\<rparr>"
    by (simp add: make_lock_def make_defs pool_take_def)
  from lock_life.give [OF this, where p = "0x1000" and k = RWLock and x = ?x and c = "FreeBytes 0x1000 200"]
  obtain y where y: "lock_life ?make ?give y"
    "pool_calls y = [AllocBytes 200 0x1000, AllocLock 0x2000, FreeBytes 0x1000 200]"
    "has_locks y = Map.empty"
    by (auto simp: free_lock_def free_defs lock_size_defs struct_sizes pool_give_def)
  have "(\<lambda>p. if p \<noteq> NULL \<and> AllocLock p \<in> set (pool_calls y) then Some LockBlock else None) =
      [0x2000 \<mapsto> LockBlock]"
    by (rule ext) (simp add: y(2))
  with lock_blocks_balance [OF y(1)] y show ?thesis by (intro exI [of _ y]) simp
qed

end
