(* ===== verification/Services.thy ===== *)
theory Services
  imports KernelMap PciConfig
begin

text \<open>
  The two drivers: \<open>PCIHorrorKit\<close> (DriverKit) and \<open>NVMacRMService\<close> (kernel), which create
  the global state, start the resource manager on the PCI device and tear it down.  The
  superclass, the device and the resource manager are arguments; the state is the global
  pointer, the device's command register, whether the device is open, the references taken
  and the calls made.  The locale \<open>service_lifecycle\<close> is the contract the I/O framework
  relies on.
\<close>

section \<open>Constants and environment\<close>

definition kIOPCICommandMemorySpace :: u16 where
  "kIOPCICommandMemorySpace = 2"

definition kIOPCICommandBusLead :: u16 where
  "kIOPCICommandBusLead = 4"

definition kIOReturnNoDevice :: kern_return where
  "kIOReturnNoDevice = - 0x1FFFFD40"

text \<open>The numbers of \<open>nv.h\<close> and the entry points of the resource manager.\<close>

record rm_library =
  NV_GPU_NUM_BARS :: nat
  NVRM_PCICFG_NUM_BARS :: nat
  NV_GPU_BAR_INDEX_REGS :: nat
  NV_GPU_BAR_INDEX_FB :: nat
  NVRM_PCICFG_BAR_OFFSET :: "nat \<Rightarrow> u32"
  rm_init_private_state :: "nv_state \<Rightarrow> nv_state"
  rm_set_rm_firmware_requested :: "nv_state \<Rightarrow> nv_state"
  rm_notify_gpu_addition :: "nv_state \<Rightarrow> nv_state"
  rm_init_adapter :: "nv_state \<Rightarrow> nv_status \<times> nv_state"

text \<open>What the framework and the device answer a driver.\<close>

record service_env =
  super_init_ok :: bool
  state_block :: ptr               \<comment> \<open>\<open>IONewZero(nv_darwin_state_s, 1)\<close>\<close>
  this_service :: ptr
  provider_device :: ptr           \<comment> \<open>the provider cast to \<open>IOPCIDevice\<close>, \<open>NULL\<close> when it is none\<close>
  cfg16 :: "nat \<Rightarrow> u16"
  bus_number :: u8
  slot_number :: u8
  function_number :: u8

record kit_env = service_env +
  super_start :: kern_return
  super_stop :: kern_return
  open_result :: kern_return
  cfg32 :: "nat \<Rightarrow> u32"
  bar_size :: "nat \<Rightarrow> u64"

record kext_env = service_env +
  super_start_ok :: bool
  super_probe :: ptr
  open_ok :: bool
  device_memory :: "nat \<Rightarrow> (u64 \<times> u64) option"  \<comment> \<open>length and physical address\<close>

datatype service_call =
    Sleep u32 | SuperStart | CallStop | SuperStop | SuperFree
  | Register | RmInitRm | OpenDevice | CloseDevice
  | ProbedBars "nat option"
  | RmStart nv_state              \<comment> \<open>the state handed to the resource manager\<close>

record service_state =
  nvd_state :: "(ptr \<times> nv_darwin_state) option"  \<comment> \<open>\<open>None\<close>: the global pointer is \<open>NULL\<close>\<close>
  command :: u16
  opened :: bool
  held :: "ref_event list"
  calls_made :: "service_call list"

definition note_calls :: "service_call list \<Rightarrow> service_state \<Rightarrow> service_state" where
  "note_calls cs s = s\<lparr>calls_made := calls_made s @ cs\<rparr>"

definition note_refs :: "ref_event list \<Rightarrow> service_state \<Rightarrow> service_state" where
  "note_refs es s = s\<lparr>held := held s @ es\<rparr>"

section \<open>Creation\<close>

definition zero_aperture :: nv_aperture where
  "zero_aperture = \<lparr>cpu_address = 0, aperture_size = 0, cfg_offset = 0\<rparr>"

definition zero_state :: "rm_library \<Rightarrow> nv_darwin_state" where
  "zero_state R =
     \<lparr>nv_state_of =
        \<lparr>pci_info_of = \<lparr>vendor_id = 0, device_id = 0, domain_nr = 0, bus_nr = 0, slot_nr = 0,
           function_nr = 0\<rparr>,
         subsystem_id = 0, subsystem_vendor = 0, os_state = 0, nv_flags = 0, dma_dev = 0,
         handle_of = 0, bars = replicate (NV_GPU_NUM_BARS R) zero_aperture, regs = 0, fb = 0\<rparr>,
      service = 0, device = 0, dma_mask = 0\<rparr>"

definition PCIHorrorKit_init ::
  "rm_library \<Rightarrow> kit_env \<Rightarrow> service_state \<Rightarrow> bool \<times> service_state" where
  "PCIHorrorKit_init R E s =
     (if \<not> super_init_ok E then (False, s)
      else if state_block E = NULL then (False, s\<lparr>nvd_state := None\<rparr>)
      else (True, note_refs [Obtain (state_block E)]
                    (s\<lparr>nvd_state := Some (state_block E, zero_state R)\<rparr>)))"

definition NVMacRMService_init ::
  "rm_library \<Rightarrow> kext_env \<Rightarrow> service_state \<Rightarrow> bool \<times> service_state" where
  "NVMacRMService_init R E s =
     (if \<not> super_init_ok E then (False, s)
      else if state_block E = NULL then (False, s\<lparr>nvd_state := None\<rparr>)
      else (True, note_refs [Obtain (state_block E)]
                    (s\<lparr>nvd_state := Some (state_block E, zero_state R)\<rparr>)))"

text \<open>\<open>free\<close> reads the device through the global pointer before it checks anything.\<close>

definition PCIHorrorKit_free :: "service_state \<Rightarrow> service_state outcome" where
  "PCIHorrorKit_free s =
     (case nvd_state s of None \<Rightarrow> Fault NullDereference
      | Some (a, st) \<Rightarrow>
          Done (note_calls [SuperFree]
            (note_refs ((if device st \<noteq> NULL then [Release (device st)] else []) @ [Release a])
              (s\<lparr>nvd_state := None\<rparr>))))"

definition NVMacRMService_free :: "service_state \<Rightarrow> service_state outcome" where
  "NVMacRMService_free s =
     (case nvd_state s of None \<Rightarrow> Fault NullDereference
      | Some (a, st) \<Rightarrow>
          Done (note_calls [SuperFree]
            (note_refs ((if device st \<noteq> NULL then [Release (device st)] else []) @ [Release a])
              (s\<lparr>nvd_state := None\<rparr>))))"

definition NVMacRMService_probe :: "kext_env \<Rightarrow> ptr" where
  "NVMacRMService_probe E = (if super_probe E = NULL then NULL else this_service E)"

section \<open>Stopping\<close>

definition PCIHorrorKit_Stop_Impl ::
  "kit_env \<Rightarrow> service_state \<Rightarrow> (kern_return \<times> service_state) outcome" where
  "PCIHorrorKit_Stop_Impl E s =
     (case nvd_state s of None \<Rightarrow> Fault NullDereference
      | Some (a, st) \<Rightarrow>
          (let s' =
             (if device st \<noteq> NULL then
                note_calls [CloseDevice]
                  (s\<lparr>opened := False,
                     command := command s OR (kIOPCICommandBusLead OR kIOPCICommandMemorySpace),
                     nvd_state := Some (a, st\<lparr>device := NULL\<rparr>)\<rparr>)
              else s)
           in Done (super_stop E, note_calls [SuperStop] s')))"

definition NVMacRMService_stop :: "service_state \<Rightarrow> service_state outcome" where
  "NVMacRMService_stop s =
     (case nvd_state s of None \<Rightarrow> Fault NullDereference
      | Some (a, st) \<Rightarrow>
          (let s' =
             (if device st \<noteq> NULL then
                note_calls [CloseDevice]
                  (s\<lparr>opened := False,
                     command := command s AND NOT kIOPCICommandBusLead
                                          AND NOT kIOPCICommandMemorySpace,
                     nvd_state := Some (a, st\<lparr>device := NULL\<rparr>)\<rparr>)
              else s)
           in Done (note_calls [SuperStop] s')))"

section \<open>The BARs\<close>

text \<open>The first loop: the first BAR with a size, among the \<open>n\<close> from \<open>i\<close> on.\<close>

fun first_bar_dk :: "(nat \<Rightarrow> u64) \<Rightarrow> nat \<Rightarrow> nat \<Rightarrow> nat option" where
  "first_bar_dk sizes i 0 = None"
| "first_bar_dk sizes i (Suc n) = (if sizes i = 0 then first_bar_dk sizes (Suc i) n else Some i)"

text \<open>
  The same loop with its counter kept at the \<open>uint8_t\<close> of the code, which wraps: \<open>None\<close> when
  it does not end.
\<close>

partial_function (option) probe_bars_dk :: "nat \<Rightarrow> (nat \<Rightarrow> u64) \<Rightarrow> u8 \<Rightarrow> nat option option" where
  "probe_bars_dk num_bars sizes currentBAR =
     (if unat currentBAR < num_bars then
        (if sizes (unat currentBAR) = 0 then probe_bars_dk num_bars sizes (currentBAR + 1)
         else Some (Some (unat currentBAR)))
      else Some None)"

text \<open>In the kernel a BAR without memory is a \<open>NULL\<close> object, whose length is asked for.\<close>

fun first_bar_k :: "(nat \<Rightarrow> (u64 \<times> u64) option) \<Rightarrow> nat \<Rightarrow> nat \<Rightarrow> nat option outcome" where
  "first_bar_k mem i 0 = Done None"
| "first_bar_k mem i (Suc n) =
     (case mem i of None \<Rightarrow> Fault NullDereference
      | Some (len, _) \<Rightarrow> if len = 0 then first_bar_k mem (Suc i) n else Done (Some i))"

text \<open>\<open>kIOPCIConfigurationOffsetBaseAddress0\<close> to \<open>2\<close>, and the default branch.\<close>

definition bar_register :: "nat \<Rightarrow> nat" where
  "bar_register currentBAR =
     (if currentBAR = 0 then 0x10 else if currentBAR = 1 then 0x14
      else if currentBAR = 2 then 0x18 else 0x10)"

definition bar_entry_dk :: "rm_library \<Rightarrow> kit_env \<Rightarrow> nat \<Rightarrow> nv_aperture outcome" where
  "bar_entry_dk R E currentBAR =
     Done \<lparr>cpu_address = ucast (cfg32 E (bar_register currentBAR)),
           aperture_size = bar_size E currentBAR,
           cfg_offset = NVRM_PCICFG_BAR_OFFSET R currentBAR\<rparr>"

definition bar_entry_k :: "rm_library \<Rightarrow> kext_env \<Rightarrow> nat \<Rightarrow> nv_aperture outcome" where
  "bar_entry_k R E currentBAR =
     (case device_memory E currentBAR of None \<Rightarrow> Fault NullDereference
      | Some (barSize, barAddress) \<Rightarrow>
          Done \<lparr>cpu_address = barAddress, aperture_size = barSize,
                cfg_offset = NVRM_PCICFG_BAR_OFFSET R currentBAR\<rparr>)"

text \<open>The second loop, with its two counters.\<close>

function fill_bars ::
  "rm_library \<Rightarrow> (nat \<Rightarrow> nv_aperture outcome) \<Rightarrow> nat \<Rightarrow> nat \<Rightarrow> nv_aperture list
   \<Rightarrow> nv_aperture list outcome" where
  "fill_bars R entry currentBAR j bs =
     (if currentBAR < NVRM_PCICFG_NUM_BARS R \<and> j < NV_GPU_NUM_BARS R then
        (case entry currentBAR of Fault f \<Rightarrow> Fault f
         | Done b \<Rightarrow>
             (case store_at j b bs of Fault f \<Rightarrow> Fault f
              | Done bs' \<Rightarrow> fill_bars R entry (currentBAR + 1) (j + 1) bs'))
      else Done bs)"
  by pat_completeness auto
termination
  by (relation "measure (\<lambda>(R, _, currentBAR, _, _). NVRM_PCICFG_NUM_BARS R - currentBAR)") auto

declare fill_bars.simps [simp del]

section \<open>Starting\<close>

text \<open>The fields of \<open>nv_state_t\<close> the two drivers set before the BARs.\<close>

definition describe_device :: "ptr \<Rightarrow> ptr \<Rightarrow> 'e service_env_scheme \<Rightarrow> nv_state \<Rightarrow> nv_state" where
  "describe_device nvd dev E nv =
     nv\<lparr>pci_info_of := \<lparr>vendor_id = cfg16 E 0x00, device_id = cfg16 E 0x02, domain_nr = 2,
          bus_nr = bus_number E, slot_nr = slot_number E, function_nr = function_number E\<rparr>,
        subsystem_id := cfg16 E 0x2E, subsystem_vendor := cfg16 E 0x2C,
        os_state := nvd, nv_flags := 0, dma_dev := 0, handle_of := dev\<rparr>"

definition rm_start :: "rm_library \<Rightarrow> nv_state \<Rightarrow> nv_status \<times> nv_state" where
  "rm_start R nv =
     rm_init_adapter R (rm_notify_gpu_addition R
       (rm_set_rm_firmware_requested R (rm_init_private_state R nv)))"

text \<open>
  From the open device on: the command register is enabled first, then the state is filled,
  the device retained and the resource manager started; its status is only logged.
\<close>

definition attach_device ::
  "rm_library \<Rightarrow> 'e service_env_scheme \<Rightarrow> (nat \<Rightarrow> nv_aperture outcome) \<Rightarrow> nat option
   \<Rightarrow> ptr \<Rightarrow> nv_darwin_state \<Rightarrow> service_state \<Rightarrow> service_state outcome" where
  "attach_device R E entry probed a st s =
     (let dev = provider_device E;
          s1 = s\<lparr>command := command s OR (kIOPCICommandBusLead OR kIOPCICommandMemorySpace)\<rparr>;
          nv = describe_device a dev E (nv_state_of st)
      in
      case fill_bars R entry 0 0 (bars nv) of Fault f \<Rightarrow> Fault f
      | Done bs \<Rightarrow>
          (let nv' = nv\<lparr>bars := bs, regs := NV_GPU_BAR_INDEX_REGS R, fb := NV_GPU_BAR_INDEX_FB R\<rparr>;
               (status, nv'') = rm_start R nv'
           in Done (note_calls [ProbedBars probed, RmStart nv']
                (note_refs [Retain dev]
                  (s1\<lparr>nvd_state := Some (a, st\<lparr>nv_state_of := nv'', device := dev\<rparr>)\<rparr>)))))"

definition give_up ::
  "kern_return \<Rightarrow> (kern_return \<times> service_state) outcome \<Rightarrow> (kern_return \<times> service_state) outcome" where
  "give_up ret stopped = (case stopped of Fault f \<Rightarrow> Fault f | Done (_, s) \<Rightarrow> Done (ret, s))"

definition PCIHorrorKit_Start_Impl ::
  "rm_library \<Rightarrow> kit_env \<Rightarrow> service_state \<Rightarrow> (kern_return \<times> service_state) outcome" where
  "PCIHorrorKit_Start_Impl R E s =
     (let s0 = note_calls [Sleep 500, SuperStart] s in
      if super_start E \<noteq> KERN_SUCCESS then
        give_up (super_start E) (PCIHorrorKit_Stop_Impl E s0)
      else
      (case nvd_state s0 of None \<Rightarrow> Fault NullDereference
       | Some (a, st) \<Rightarrow>
           (let st1 = st\<lparr>service := this_service E\<rparr>;
                s1 = note_calls [Register, RmInitRm] (s0\<lparr>nvd_state := Some (a, st1)\<rparr>)
            in
            if provider_device E = NULL then
              give_up kIOReturnNoDevice (PCIHorrorKit_Stop_Impl E s1)
            else if open_result E \<noteq> KERN_SUCCESS then
              give_up kIOReturnNoDevice (PCIHorrorKit_Stop_Impl E (note_calls [OpenDevice] s1))
            else
              (case attach_device R E (bar_entry_dk R E)
                      (first_bar_dk (bar_size E) 0 (NV_GPU_NUM_BARS R)) a st1
                      (note_calls [OpenDevice] (s1\<lparr>opened := True\<rparr>)) of
                 Fault f \<Rightarrow> Fault f
               | Done s2 \<Rightarrow> Done (open_result E, s2)))))"

text \<open>A \<open>bool\<close> stored in a \<open>kern_return_t\<close>, and a \<open>kern_return_t\<close> returned as a \<open>bool\<close>.\<close>

definition bool_kern :: "bool \<Rightarrow> kern_return" where
  "bool_kern b = (if b then 1 else 0)"

definition kern_bool :: "kern_return \<Rightarrow> bool" where
  "kern_bool r \<longleftrightarrow> r \<noteq> 0"

text \<open>
  \<open>Stop(provider)\<close> is the superclass's asynchronous termination: it is recorded, and the
  \<open>stop\<close> and \<open>free\<close> it may lead to are later calls.
\<close>

definition NVMacRMService_start ::
  "rm_library \<Rightarrow> kext_env \<Rightarrow> service_state \<Rightarrow> (bool \<times> service_state) outcome" where
  "NVMacRMService_start R E s =
     (let s0 = note_calls [SuperStart] s; ret = bool_kern (super_start_ok E) in
      if ret \<noteq> KERN_SUCCESS then Done (kern_bool ret, note_calls [CallStop] s0)
      else
      (case nvd_state s0 of None \<Rightarrow> Fault NullDereference
       | Some (a, st) \<Rightarrow>
           (let st1 = st\<lparr>service := this_service E\<rparr>;
                s1 = note_calls [Register, RmInitRm] (s0\<lparr>nvd_state := Some (a, st1)\<rparr>);
                ret' = bool_kern (open_ok E)
            in
            if provider_device E = NULL then
              Done (kern_bool kIOReturnNoDevice, note_calls [CallStop] s1)
            else if ret' \<noteq> KERN_SUCCESS then
              Done (kern_bool kIOReturnNoDevice,
                note_calls [OpenDevice, CallStop] (s1\<lparr>opened := open_ok E\<rparr>))
            else
              (case first_bar_k (device_memory E) 0 (NV_GPU_NUM_BARS R) of Fault f \<Rightarrow> Fault f
               | Done probed \<Rightarrow>
                   (case attach_device R E (bar_entry_k R E) probed a st1
                           (note_calls [OpenDevice] (s1\<lparr>opened := open_ok E\<rparr>)) of
                      Fault f \<Rightarrow> Fault f
                    | Done s2 \<Rightarrow> Done (kern_bool ret', s2))))))"

section \<open>The life-cycle contract\<close>

text \<open>
  What the I/O framework relies on: \<open>init\<close> decides whether there is a state, \<open>start\<close> and
  \<open>stop\<close> keep it, \<open>free\<close> ends it.
\<close>

locale service_lifecycle =
  fixes init :: "'e \<Rightarrow> 's \<Rightarrow> bool \<times> 's"
    and start :: "'e \<Rightarrow> 's \<Rightarrow> ('r \<times> 's) outcome"
    and stop :: "'e \<Rightarrow> 's \<Rightarrow> 's outcome"
    and free :: "'s \<Rightarrow> 's outcome"
    and live :: "'s \<Rightarrow> bool"
  assumes init_live: "init e s = (True, s') \<Longrightarrow> live s'"
    and init_dead: "init e s = (False, s') \<Longrightarrow> \<not> live s \<Longrightarrow> \<not> live s'"
    and start_live: "start e s = Done (r, s') \<Longrightarrow> live s \<Longrightarrow> live s'"
    and stop_total: "live s \<Longrightarrow> \<exists>s'. stop e s = Done s' \<and> live s'"
    and free_live: "live s \<Longrightarrow> \<exists>s'. free s = Done s' \<and> \<not> live s'"
    and free_dead: "\<not> live s \<Longrightarrow> free s = Fault NullDereference"
begin

text \<open>Any starts and stops, each with the answers it gets.\<close>

fun session :: "(bool \<times> 'e) list \<Rightarrow> 's \<Rightarrow> 's outcome" where
  "session [] s = Done s"
| "session ((starting, e) # ops) s =
     (case (if starting then (case start e s of Fault f \<Rightarrow> Fault f | Done (r, s') \<Rightarrow> Done s')
            else stop e s) of
        Fault f \<Rightarrow> Fault f
      | Done s' \<Rightarrow> session ops s')"

lemma session_live: "live s \<Longrightarrow> session ops s = Done s' \<Longrightarrow> live s'"
proof (induction ops s rule: session.induct)
  case (2 starting e ops s)
  then show ?case
    using stop_total [of s e] start_live [of e s]
    by (auto split: outcome.splits if_splits)
qed simp

lemma session_then_free:
  assumes "init e s = (True, s1)" and "session ops s1 = Done s2"
  shows "\<exists>s3. free s2 = Done s3 \<and> free s3 = Fault NullDereference"
proof -
  have "live s2" using session_live [OF init_live [OF assms(1)] assms(2)] .
  then obtain s3 where "free s2 = Done s3" "\<not> live s3" using free_live by blast
  with free_dead show ?thesis by blast
qed

lemma stops_only: "live s \<Longrightarrow> \<exists>s'. session (map (\<lambda>e. (False, e)) es) s = Done s'"
proof (induction es arbitrary: s)
  case (Cons e es)
  with stop_total [of s e] show ?case by auto
qed simp

lemma failed_init_free:
  "init e s = (False, s') \<Longrightarrow> \<not> live s \<Longrightarrow> free s' = Fault NullDereference"
  using init_dead free_dead by blast

end

lemmas service_defs = note_calls_def note_refs_def Let_def

definition kit_stop :: "kit_env \<Rightarrow> service_state \<Rightarrow> service_state outcome" where
  "kit_stop E s = (case PCIHorrorKit_Stop_Impl E s of Fault f \<Rightarrow> Fault f | Done (_, s') \<Rightarrow> Done s')"

definition has_state :: "service_state \<Rightarrow> bool" where
  "has_state s \<longleftrightarrow> nvd_state s \<noteq> None"

text \<open>The states handed to the resource manager so far.\<close>

definition rm_starts :: "service_state \<Rightarrow> nv_state set" where
  "rm_starts s = {nv. RmStart nv \<in> set (calls_made s)}"

lemma attach_device_state:
  "attach_device R E entry probed a st s = Done s' \<Longrightarrow>
     \<exists>nv. nvd_state s' = Some (a, st\<lparr>nv_state_of := nv, device := provider_device E\<rparr>) \<and>
       held s' = held s @ [Retain (provider_device E)] \<and> opened s' = opened s \<and>
       command s' = command s OR (kIOPCICommandBusLead OR kIOPCICommandMemorySpace)"
  by (auto simp: attach_device_def service_defs split: outcome.splits prod.splits)

lemma Stop_Impl_state:
  "nvd_state s = Some (a, st) \<Longrightarrow> \<exists>s'. PCIHorrorKit_Stop_Impl E s = Done (super_stop E, s') \<and>
     nvd_state s' = Some (a, st\<lparr>device := NULL\<rparr>) \<and> held s' = held s \<and>
     (if device st = NULL then command s' = command s \<and> opened s' = opened s
      else command s' = command s OR (kIOPCICommandBusLead OR kIOPCICommandMemorySpace) \<and>
        \<not> opened s')"
  by (cases st) (auto simp: PCIHorrorKit_Stop_Impl_def service_defs)

lemma NVMac_stop_state:
  "nvd_state s = Some (a, st) \<Longrightarrow> \<exists>s'. NVMacRMService_stop s = Done s' \<and>
     nvd_state s' = Some (a, st\<lparr>device := NULL\<rparr>) \<and> held s' = held s \<and>
     (if device st = NULL then command s' = command s \<and> opened s' = opened s
      else command s' = command s AND NOT kIOPCICommandBusLead AND NOT kIOPCICommandMemorySpace \<and>
        \<not> opened s')"
  by (cases st) (auto simp: NVMacRMService_stop_def service_defs)

interpretation kit: service_lifecycle
  "PCIHorrorKit_init R" "PCIHorrorKit_Start_Impl R" kit_stop PCIHorrorKit_free has_state for R
proof
  fix e s r s'
  show "has_state s'" if "PCIHorrorKit_Start_Impl R e s = Done (r, s')" "has_state s"
    using that
    by (auto simp: PCIHorrorKit_Start_Impl_def PCIHorrorKit_Stop_Impl_def give_up_def
        has_state_def service_defs dest!: attach_device_state
        split: outcome.splits if_splits option.splits)
  show "\<exists>s'. kit_stop e s = Done s' \<and> has_state s'" if "has_state s"
    using that Stop_Impl_state [of s _ _ e] by (auto simp: has_state_def kit_stop_def)
qed (auto simp: PCIHorrorKit_init_def PCIHorrorKit_free_def has_state_def service_defs
    split: if_splits option.splits)

interpretation kext: service_lifecycle
  "NVMacRMService_init R" "NVMacRMService_start R" "\<lambda>_. NVMacRMService_stop"
  NVMacRMService_free has_state for R
proof
  fix e s r s'
  show "has_state s'" if "NVMacRMService_start R e s = Done (r, s')" "has_state s"
    using that
    by (auto simp: NVMacRMService_start_def has_state_def service_defs
        dest!: attach_device_state split: outcome.splits if_splits option.splits)
  show "\<exists>s'. NVMacRMService_stop s = Done s' \<and> has_state s'" if "has_state s"
    using that NVMac_stop_state [of s] by (auto simp: has_state_def)
qed (auto simp: NVMacRMService_init_def NVMacRMService_free_def has_state_def service_defs
    split: if_splits option.splits)

section \<open>Lemmas on the BARs\<close>

lemma fill_bars_ok:
  assumes "n = min (NVRM_PCICFG_NUM_BARS R) (NV_GPU_NUM_BARS R)"
    and "\<forall>k < n. entry k = Done (f k)"
  shows "n \<le> length bs \<Longrightarrow> \<exists>bs'. fill_bars R entry i i bs = Done bs' \<and> length bs' = length bs \<and>
    (\<forall>k < length bs. bs' ! k = (if i \<le> k \<and> k < n then f k else bs ! k))"
proof (induction "n - i" arbitrary: i bs)
  case 0
  then show ?case using assms(1) by (auto simp: fill_bars.simps [of R entry i i bs])
next
  case (Suc d)
  then have i: "i < n" "i < length bs" by auto
  have "d = n - (i + 1)" "n \<le> length (bs[i := f i])" using Suc.hyps(2) Suc.prems by simp_all
  from Suc.hyps(1) [OF this] obtain bs' where "fill_bars R entry (i + 1) (i + 1) (bs[i := f i]) = Done bs'"
    "length bs' = length bs"
    "\<forall>k < length bs. bs' ! k = (if i + 1 \<le> k \<and> k < n then f k else bs[i := f i] ! k)" by auto
  moreover have "fill_bars R entry i i bs = fill_bars R entry (i + 1) (i + 1) (bs[i := f i])"
    using i assms by (simp add: fill_bars.simps [of R entry i i bs])
  ultimately show ?case
    using i by (intro exI [of _ bs']) (auto simp: nth_list_update not_less_eq_eq dest: le_antisym)
qed

lemma fill_bars_missing:
  assumes "entry k = Fault x" and "k < NVRM_PCICFG_NUM_BARS R" and "k < NV_GPU_NUM_BARS R"
    and "\<forall>j < k. \<exists>b. entry j = Done b"
  shows "i \<le> k \<Longrightarrow> NV_GPU_NUM_BARS R \<le> length bs \<Longrightarrow> fill_bars R entry i i bs = Fault x"
proof (induction "k - i" arbitrary: i bs)
  case 0
  with assms(1-3) show ?case by (simp add: fill_bars.simps [of R entry i i bs])
next
  case (Suc d)
  then have i: "i < k" "i < length bs" using assms(3) by auto
  with assms(4) obtain b where "entry i = Done b" by blast
  moreover have "fill_bars R entry (i + 1) (i + 1) (bs[i := b]) = Fault x"
    using Suc.prems i Suc.hyps(2) by (intro Suc.hyps(1)) simp_all
  ultimately show ?case using i assms(2,3) by (simp add: fill_bars.simps [of R entry i i bs])
qed

lemma probe_bars_small:
  "num_bars < 256 \<Longrightarrow> unat c + n = num_bars \<Longrightarrow>
   probe_bars_dk num_bars sizes c = Some (first_bar_dk sizes (unat c) n)"
proof (induction n arbitrary: c)
  case 0
  then show ?case by (simp add: probe_bars_dk.simps [of num_bars sizes c])
next
  case (Suc n)
  then have "unat (c + 1) = Suc (unat c)" by (intro unat_u8_Suc) simp
  with Suc.prems Suc.IH [of "c + 1"] show ?case
    by (simp add: probe_bars_dk.simps [of num_bars sizes c])
qed

lemma probe_bars_finds:
  "sizes k \<noteq> 0 \<Longrightarrow> k < num_bars \<Longrightarrow> k < 256 \<Longrightarrow> unat c \<le> k \<Longrightarrow> probe_bars_dk num_bars sizes c \<noteq> None"
proof (induction "k - unat c" arbitrary: c)
  case 0
  then have "unat c = k" by simp
  with 0 show ?case by (simp add: probe_bars_dk.simps [of num_bars sizes c])
next
  case (Suc d)
  then have "unat (c + 1) = Suc (unat c)" by (intro unat_u8_Suc) simp
  with Suc.hyps(2) Suc.prems Suc.hyps(1) [of "c + 1"] show ?case
    by (simp add: probe_bars_dk.simps [of num_bars sizes c])
qed

lemma probe_bars_diverges:
  assumes "256 \<le> num_bars" and "\<forall>k < 256. sizes k = 0"
  shows "probe_bars_dk num_bars sizes c = None"
proof -
  have "False" if "probe_bars_dk num_bars sizes c = Some r" for r
    using that assms
  proof (induction num_bars sizes c r rule: probe_bars_dk.raw_induct [rotated 1, consumes 1, case_names step])
    case (step rec num_bars sizes c r)
    have "unat c < 256" by (rule unat_u8_less)
    with step.prems have "unat c < num_bars" "sizes (unat c) = 0" by simp_all
    with step.hyps have "rec num_bars sizes (c + 1) = Some r" by simp
    from step.IH [OF this step.prems] show ?case .
  qed
  then show ?thesis by (metis not_None_eq)
qed

lemma probe_bars_returns_iff:
  "probe_bars_dk num_bars sizes 0 \<noteq> None \<longleftrightarrow> num_bars < 256 \<or> (\<exists>k < 256. sizes k \<noteq> 0)"
proof (cases "num_bars < 256")
  case True
  with probe_bars_small [of num_bars 0 num_bars sizes] show ?thesis by simp
next
  case False
  show ?thesis
  proof (cases "\<exists>k < 256. sizes k \<noteq> 0")
    case True
    then obtain k where "k < 256" "sizes k \<noteq> 0" by blast
    with False probe_bars_finds [of sizes k num_bars 0] show ?thesis by auto
  next
    case none: False
    with False probe_bars_diverges [of num_bars sizes 0] show ?thesis by simp
  qed
qed

lemma first_bar_dk_None_iff: "first_bar_dk sizes i n = None \<longleftrightarrow> (\<forall>k. i \<le> k \<and> k < i + n \<longrightarrow> sizes k = 0)"
proof (induction n arbitrary: i)
  case (Suc n)
  show ?case
  proof (cases "sizes i = 0")
    case True
    then have "(\<forall>k. i \<le> k \<and> k < i + Suc n \<longrightarrow> sizes k = 0) \<longleftrightarrow>
        (\<forall>k. Suc i \<le> k \<and> k < Suc i + n \<longrightarrow> sizes k = 0)"
      by (auto simp: Suc_le_eq dest: le_neq_implies_less)
    with True Suc [of "Suc i"] show ?thesis by simp
  qed auto
qed auto

lemma first_bar_dk_Some:
  "first_bar_dk sizes i n = Some k \<Longrightarrow>
   i \<le> k \<and> k < i + n \<and> sizes k \<noteq> 0 \<and> (\<forall>j. i \<le> j \<and> j < k \<longrightarrow> sizes j = 0)"
proof (induction n arbitrary: i)
  case (Suc n)
  show ?case
  proof (cases "sizes i = 0")
    case True
    with Suc.prems Suc.IH [of "Suc i"] show ?thesis
      by (auto simp: less_Suc_eq_le) (metis Suc_leI le_neq_implies_less)
  next
    case False
    with Suc.prems show ?thesis by auto
  qed
qed simp

lemma command_bits:
  "bit (c OR (kIOPCICommandBusLead OR kIOPCICommandMemorySpace)) 1"
  "bit (c OR (kIOPCICommandBusLead OR kIOPCICommandMemorySpace)) 2"
  "\<not> bit (c AND NOT kIOPCICommandBusLead AND NOT kIOPCICommandMemorySpace) 1"
  "\<not> bit (c AND NOT kIOPCICommandBusLead AND NOT kIOPCICommandMemorySpace) 2"
proof -
  have b: "bit kIOPCICommandMemorySpace 1" "bit kIOPCICommandBusLead 2"
    by (simp_all add: kIOPCICommandBusLead_def kIOPCICommandMemorySpace_def)
  then show "bit (c OR (kIOPCICommandBusLead OR kIOPCICommandMemorySpace)) 1"
    "bit (c OR (kIOPCICommandBusLead OR kIOPCICommandMemorySpace)) 2"
    "\<not> bit (c AND NOT kIOPCICommandBusLead AND NOT kIOPCICommandMemorySpace) 1"
    "\<not> bit (c AND NOT kIOPCICommandBusLead AND NOT kIOPCICommandMemorySpace) 2"
    by (auto simp only: bit_or_iff bit_and_iff bit_not_iff)
qed

lemma attach_device_done:
  assumes "attach_device R E entry probed a st s = Done s'"
    and "fill_bars R entry 0 0 (bars (nv_state_of st)) = Done bs"
  defines "nv \<equiv> (describe_device a (provider_device E) E (nv_state_of st))
      \<lparr>bars := bs, regs := NV_GPU_BAR_INDEX_REGS R, fb := NV_GPU_BAR_INDEX_FB R\<rparr>"
  shows "nvd_state s' = Some (a, st\<lparr>nv_state_of := snd (rm_start R nv), device := provider_device E\<rparr>)"
    and "calls_made s' = (calls_made s @ [ProbedBars probed]) @ [RmStart nv]"
    and "held s' = held s @ [Retain (provider_device E)]" and "opened s' = opened s"
    and "command s' = command s OR (kIOPCICommandBusLead OR kIOPCICommandMemorySpace)"
proof -
  have "bars (describe_device a (provider_device E) E (nv_state_of st)) = bars (nv_state_of st)"
    by (simp add: describe_device_def)
  with assms have "s' = note_calls [ProbedBars probed, RmStart nv]
      (note_refs [Retain (provider_device E)]
        (s\<lparr>command := command s OR (kIOPCICommandBusLead OR kIOPCICommandMemorySpace),
           nvd_state := Some (a, st\<lparr>nv_state_of := snd (rm_start R nv),
                                    device := provider_device E\<rparr>)\<rparr>))"
    by (simp add: attach_device_def Let_def split_def)
  then show "nvd_state s' = Some (a, st\<lparr>nv_state_of := snd (rm_start R nv),
                                           device := provider_device E\<rparr>)"
    "calls_made s' = (calls_made s @ [ProbedBars probed]) @ [RmStart nv]"
    "held s' = held s @ [Retain (provider_device E)]" "opened s' = opened s"
    "command s' = command s OR (kIOPCICommandBusLead OR kIOPCICommandMemorySpace)"
    by (simp_all add: service_defs)
qed

lemma start_success:
  assumes "PCIHorrorKit_Start_Impl R E s = Done (ret, s')" and "ret = KERN_SUCCESS"
    and "nvd_state s = Some (a, st)"
  shows "\<exists>s1. attach_device R E (bar_entry_dk R E)
      (first_bar_dk (bar_size E) 0 (NV_GPU_NUM_BARS R)) a (st\<lparr>service := this_service E\<rparr>) s1 = Done s' \<and>
    opened s1 \<and> command s1 = command s \<and> held s1 = held s \<and> rm_starts s1 = rm_starts s \<and>
    provider_device E \<noteq> NULL"
proof -
  have "super_start E = KERN_SUCCESS" "provider_device E \<noteq> NULL" "open_result E = KERN_SUCCESS"
    using assms by (auto simp: PCIHorrorKit_Start_Impl_def PCIHorrorKit_Stop_Impl_def give_up_def
        kIOReturnNoDevice_def KERN_SUCCESS_def service_defs split: if_splits)
  with assms show ?thesis
    by (auto simp: PCIHorrorKit_Start_Impl_def rm_starts_def service_defs split: outcome.splits)
qed

lemma attach_device_rm_starts:
  assumes "attach_device R E entry probed a st s = Done s'"
  shows "\<exists>nv. handle_of nv = provider_device E \<and> rm_starts s' = insert nv (rm_starts s)"
proof -
  have "bars (describe_device a (provider_device E) E (nv_state_of st)) = bars (nv_state_of st)"
    by (simp add: describe_device_def)
  with assms obtain bs where bs: "fill_bars R entry 0 0 (bars (nv_state_of st)) = Done bs"
    by (auto simp: attach_device_def Let_def split: outcome.splits)
  let ?nv = "(describe_device a (provider_device E) E (nv_state_of st))
      \<lparr>bars := bs, regs := NV_GPU_BAR_INDEX_REGS R, fb := NV_GPU_BAR_INDEX_FB R\<rparr>"
  have "handle_of ?nv = provider_device E" by (simp add: describe_device_def)
  moreover have "rm_starts s' = insert ?nv (rm_starts s)"
    unfolding rm_starts_def attach_device_done(2) [OF assms bs] by auto
  ultimately show ?thesis by blast
qed

lemma start_failure:
  assumes "PCIHorrorKit_Start_Impl R E s = Done (ret, s')" and "ret \<noteq> KERN_SUCCESS"
    and "nvd_state s = Some (a, zero_state R)" and "\<not> opened s"
  shows "(\<exists>st'. nvd_state s' = Some (a, st') \<and> device st' = NULL) \<and> \<not> opened s' \<and>
    held s' = held s \<and> command s' = command s \<and>
    rm_starts s' = rm_starts s \<and>
    (super_start E = KERN_SUCCESS \<longrightarrow> Register \<in> set (calls_made s') \<and> RmInitRm \<in> set (calls_made s'))"
proof -
  have "super_start E \<noteq> KERN_SUCCESS \<or> provider_device E = NULL \<or> open_result E \<noteq> KERN_SUCCESS"
    using assms(1,2,3) by (auto simp: PCIHorrorKit_Start_Impl_def service_defs
        split: if_splits outcome.splits)
  then consider "super_start E \<noteq> KERN_SUCCESS" | "super_start E = KERN_SUCCESS" "provider_device E = NULL"
    | "super_start E = KERN_SUCCESS" "provider_device E \<noteq> NULL" "open_result E \<noteq> KERN_SUCCESS"
    by blast
  then show ?thesis
    by cases (use assms in \<open>simp_all add: PCIHorrorKit_Start_Impl_def PCIHorrorKit_Stop_Impl_def
        give_up_def zero_state_def rm_starts_def service_defs\<close>, auto)
qed

lemma device_zero_state [simp]: "device (zero_state R) = NULL"
  by (simp add: zero_state_def)

lemma Stop_Impl_rm_starts:
  "PCIHorrorKit_Stop_Impl E s = Done (r, s') \<Longrightarrow> rm_starts s' = rm_starts s"
  by (auto simp: PCIHorrorKit_Stop_Impl_def rm_starts_def service_defs split: option.splits if_splits)

lemma start_succeeds:
  assumes "super_start E = KERN_SUCCESS" and "provider_device E \<noteq> NULL"
    and "open_result E = KERN_SUCCESS" and "nvd_state s = Some (a, zero_state R)"
  shows "\<exists>s'. PCIHorrorKit_Start_Impl R E s = Done (KERN_SUCCESS, s')"
proof -
  have "\<forall>k < min (NVRM_PCICFG_NUM_BARS R) (NV_GPU_NUM_BARS R). bar_entry_dk R E k =
      Done (case bar_entry_dk R E k of Done b \<Rightarrow> b | Fault _ \<Rightarrow> zero_aperture)"
    by (simp add: bar_entry_dk_def)
  from fill_bars_ok [OF refl this, of "replicate (NV_GPU_NUM_BARS R) zero_aperture" 0]
  obtain bs where "fill_bars R (bar_entry_dk R E) 0 0
      (replicate (NV_GPU_NUM_BARS R) zero_aperture) = Done bs" by auto
  with assms show ?thesis
    by (simp add: PCIHorrorKit_Start_Impl_def attach_device_def describe_device_def zero_state_def
        Let_def split_def note_calls_def)
qed

lemma start_effect:
  assumes "PCIHorrorKit_Start_Impl R E s = Done (ret, s')" and "ret = KERN_SUCCESS"
    and "nvd_state s = Some (a, zero_state R)"
  shows "\<exists>nv cs st'. calls_made s' = cs @ [RmStart nv] \<and>
    pci_info_of nv = \<lparr>vendor_id = cfg16 E 0x00, device_id = cfg16 E 0x02, domain_nr = 2,
      bus_nr = bus_number E, slot_nr = slot_number E, function_nr = function_number E\<rparr> \<and>
    subsystem_id nv = cfg16 E 0x2E \<and> subsystem_vendor nv = cfg16 E 0x2C \<and>
    nv_flags nv = 0 \<and> dma_dev nv = 0 \<and>
    handle_of nv = provider_device E \<and> os_state nv = a \<and>
    regs nv = NV_GPU_BAR_INDEX_REGS R \<and> fb nv = NV_GPU_BAR_INDEX_FB R \<and>
    length (bars nv) = NV_GPU_NUM_BARS R \<and>
    (\<forall>k < min (NVRM_PCICFG_NUM_BARS R) (NV_GPU_NUM_BARS R).
       cpu_address (bars nv ! k) = ucast (cfg32 E (bar_register k)) \<and>
       aperture_size (bars nv ! k) = bar_size E k \<and>
       cfg_offset (bars nv ! k) = NVRM_PCICFG_BAR_OFFSET R k) \<and>
    nvd_state s' = Some (a, st') \<and> device st' = provider_device E \<and>
    device st' \<noteq> NULL \<and> service st' = this_service E \<and>
    nv_state_of st' = snd (rm_start R nv) \<and> opened s' \<and>
    command s' = command s OR (kIOPCICommandBusLead OR kIOPCICommandMemorySpace) \<and>
    held s' = held s @ [Retain (provider_device E)]"
proof -
  define st where "st = (zero_state R)\<lparr>service := this_service E\<rparr>"
  obtain s1 where attached: "attach_device R E (bar_entry_dk R E)
        (first_bar_dk (bar_size E) 0 (NV_GPU_NUM_BARS R)) a st s1 = Done s'"
    and s1: "opened s1" "command s1 = command s" "held s1 = held s" "provider_device E \<noteq> NULL"
    using start_success [OF assms(1,2,3)] by (auto simp: st_def)
  have "\<forall>k < min (NVRM_PCICFG_NUM_BARS R) (NV_GPU_NUM_BARS R). bar_entry_dk R E k =
      Done \<lparr>cpu_address = ucast (cfg32 E (bar_register k)), aperture_size = bar_size E k,
            cfg_offset = NVRM_PCICFG_BAR_OFFSET R k\<rparr>"
    by (simp add: bar_entry_dk_def)
  from fill_bars_ok [OF refl this, of "bars (nv_state_of (zero_state R))" 0]
  obtain bs where bs: "fill_bars R (bar_entry_dk R E) 0 0 (bars (nv_state_of st)) = Done bs"
    "length bs = NV_GPU_NUM_BARS R"
    "\<forall>k < min (NVRM_PCICFG_NUM_BARS R) (NV_GPU_NUM_BARS R). bs ! k =
      \<lparr>cpu_address = ucast (cfg32 E (bar_register k)), aperture_size = bar_size E k,
       cfg_offset = NVRM_PCICFG_BAR_OFFSET R k\<rparr>"
    by (auto simp: zero_state_def st_def)
  let ?nv = "(describe_device a (provider_device E) E (nv_state_of st))
      \<lparr>bars := bs, regs := NV_GPU_BAR_INDEX_REGS R, fb := NV_GPU_BAR_INDEX_FB R\<rparr>"
  have described: "pci_info_of ?nv = \<lparr>vendor_id = cfg16 E 0x00, device_id = cfg16 E 0x02,
      domain_nr = 2, bus_nr = bus_number E, slot_nr = slot_number E,
      function_nr = function_number E\<rparr>"
    "subsystem_id ?nv = cfg16 E 0x2E" "subsystem_vendor ?nv = cfg16 E 0x2C"
    "nv_flags ?nv = 0" "dma_dev ?nv = 0" "handle_of ?nv = provider_device E" "os_state ?nv = a"
    by (simp_all add: describe_device_def)
  have "service st = this_service E" by (simp add: st_def)
  with attach_device_done [OF attached bs(1)] s1 bs(2,3) described
  show ?thesis by (intro exI [of _ ?nv]) auto
qed

lemma first_bar_k_present:
  assumes "\<And>k. mem k \<noteq> None"
  shows "\<exists>r. first_bar_k mem i n = Done r"
proof (induction n arbitrary: i)
  case (Suc n)
  obtain len addr where "mem i = Some (len, addr)" using assms [of i] by auto
  with Suc [of "Suc i"] show ?case by simp
qed simp

lemma start_k_attaches:
  assumes "\<not> super_start_ok E" and "provider_device E \<noteq> NULL" and "\<not> open_ok E"
    and "nvd_state s = Some (a, zero_state R)" and "\<forall>k. device_memory E k \<noteq> None"
  shows "\<exists>s'. NVMacRMService_start R E s = Done (False, s')"
proof -
  from first_bar_k_present [of "device_memory E" 0 "NV_GPU_NUM_BARS R"] assms(5)
  obtain probed where probed: "first_bar_k (device_memory E) 0 (NV_GPU_NUM_BARS R) = Done probed" by auto
  have "\<forall>k < min (NVRM_PCICFG_NUM_BARS R) (NV_GPU_NUM_BARS R). bar_entry_k R E k =
      Done (case bar_entry_k R E k of Done b \<Rightarrow> b | Fault _ \<Rightarrow> zero_aperture)"
    using assms(5) by (fastforce simp: bar_entry_k_def split: option.split)
  from fill_bars_ok [OF refl this, of "replicate (NV_GPU_NUM_BARS R) zero_aperture" 0]
  obtain bs where "fill_bars R (bar_entry_k R E) 0 0
      (replicate (NV_GPU_NUM_BARS R) zero_aperture) = Done bs" by auto
  with assms probed show ?thesis
    by (simp add: NVMacRMService_start_def attach_device_def describe_device_def zero_state_def
        bool_kern_def kern_bool_def KERN_SUCCESS_def Let_def split_def note_calls_def)
qed

definition example_rm :: rm_library where
  "example_rm = \<lparr>NV_GPU_NUM_BARS = 3, NVRM_PCICFG_NUM_BARS = 6, NV_GPU_BAR_INDEX_REGS = 0,
     NV_GPU_BAR_INDEX_FB = 1, NVRM_PCICFG_BAR_OFFSET = (\<lambda>k. of_nat (0x10 + 4 * k)),
     rm_init_private_state = (\<lambda>nv. nv), rm_set_rm_firmware_requested = (\<lambda>nv. nv),
     rm_notify_gpu_addition = (\<lambda>nv. nv), rm_init_adapter = (\<lambda>nv. (NV_OK, nv))\<rparr>"

definition example_kit :: kit_env where
  "example_kit = \<lparr>super_init_ok = True, state_block = 0x100, this_service = 0x200,
     provider_device = 0x300, cfg16 = (\<lambda>r. if r = 0 then 0x10DE else 0x2204), bus_number = 1,
     slot_number = 0, function_number = 0, super_start = KERN_SUCCESS, super_stop = KERN_SUCCESS,
     open_result = KERN_SUCCESS,
     cfg32 = (\<lambda>r. if r = 0x10 then 0xFD000000 else if r = 0x14 then 0xE000000C else 1),
     bar_size = (\<lambda>_. 0x1000000)\<rparr>"

definition example_kext :: kext_env where
  "example_kext = \<lparr>super_init_ok = True, state_block = 0x100, this_service = 0x200,
     provider_device = 0x300, cfg16 = (\<lambda>r. if r = 0 then 0x10DE else 0x2204), bus_number = 1,
     slot_number = 0, function_number = 0, super_start_ok = True, super_probe = 0x200,
     open_ok = True, device_memory = (\<lambda>_. Some (0x1000000, 0xFD000000))\<rparr>"

definition fresh_state :: service_state where
  "fresh_state = \<lparr>nvd_state = None, command = 0, opened = False, held = [], calls_made = []\<rparr>"

definition ready_state :: service_state where
  "ready_state = fresh_state\<lparr>nvd_state := Some (0x100, zero_state example_rm),
     held := [Obtain 0x100]\<rparr>"

lemma example_init: "PCIHorrorKit_init example_rm example_kit fresh_state = (True, ready_state)"
  by (simp add: PCIHorrorKit_init_def example_kit_def fresh_state_def ready_state_def service_defs)

lemma example_start:
  "\<exists>s'. PCIHorrorKit_Start_Impl example_rm example_kit ready_state = Done (KERN_SUCCESS, s')"
  by (rule start_succeeds) (simp_all add: example_kit_def ready_state_def)

section \<open>Properties\<close>

text \<open>
  C1. A successful \<open>Start\<close>, from the state \<open>init\<close> made, hands the resource manager a
  description of the device: the vendor and device identification, the bus, slot and function
  (in domain 2), the subsystem identification, every BAR with the raw value of its base address
  register, its size and its configuration offset, the two distinguished BARs, the handles of
  the driver and no flags; the device is open, its command register enabled, and held by one new reference.
\<close>

theorem start_describes_device:
  assumes "PCIHorrorKit_Start_Impl R E s = Done (ret, s')" and "ret = KERN_SUCCESS"
    and "nvd_state s = Some (a, zero_state R)"
  shows "\<exists>nv cs st'. calls_made s' = cs @ [RmStart nv] \<and>
    pci_info_of nv = \<lparr>vendor_id = cfg16 E 0x00, device_id = cfg16 E 0x02, domain_nr = 2,
      bus_nr = bus_number E, slot_nr = slot_number E, function_nr = function_number E\<rparr> \<and>
    subsystem_id nv = cfg16 E 0x2E \<and> subsystem_vendor nv = cfg16 E 0x2C \<and>
    nv_flags nv = 0 \<and> dma_dev nv = 0 \<and>
    handle_of nv = provider_device E \<and> os_state nv = a \<and>
    regs nv = NV_GPU_BAR_INDEX_REGS R \<and> fb nv = NV_GPU_BAR_INDEX_FB R \<and>
    length (bars nv) = NV_GPU_NUM_BARS R \<and>
    (\<forall>k < min (NVRM_PCICFG_NUM_BARS R) (NV_GPU_NUM_BARS R).
       cpu_address (bars nv ! k) = ucast (cfg32 E (bar_register k)) \<and>
       aperture_size (bars nv ! k) = bar_size E k \<and>
       cfg_offset (bars nv ! k) = NVRM_PCICFG_BAR_OFFSET R k) \<and>
    nvd_state s' = Some (a, st') \<and> device st' = provider_device E \<and>
    device st' \<noteq> NULL \<and> service st' = this_service E \<and>
    nv_state_of st' = snd (rm_start R nv) \<and> opened s' \<and>
    command s' = command s OR (kIOPCICommandBusLead OR kIOPCICommandMemorySpace) \<and>
    held s' = held s @ [Retain (provider_device E)]"
  using assms by (rule start_effect)

theorem start_describes_device_witness:
  "\<exists>s' nv. PCIHorrorKit_Start_Impl example_rm example_kit ready_state = Done (KERN_SUCCESS, s') \<and>
     RmStart nv \<in> set (calls_made s') \<and> vendor_id (pci_info_of nv) = 0x10DE \<and>
     subsystem_vendor nv = cfg16 example_kit 0x2C \<and> bus_nr (pci_info_of nv) = bus_number example_kit \<and>
     cpu_address (bars nv ! 1) = 0xE000000C"
proof -
  obtain s' where run: "PCIHorrorKit_Start_Impl example_rm example_kit ready_state =
      Done (KERN_SUCCESS, s')" using example_start by blast
  have "nvd_state ready_state = Some (0x100, zero_state example_rm)" by (simp add: ready_state_def)
  from start_describes_device [OF run refl this] obtain nv cs where
    "calls_made s' = cs @ [RmStart nv]"
    "pci_info_of nv = \<lparr>vendor_id = cfg16 example_kit 0x00, device_id = cfg16 example_kit 0x02,
      domain_nr = 2, bus_nr = bus_number example_kit, slot_nr = slot_number example_kit,
      function_nr = function_number example_kit\<rparr>"
    "subsystem_vendor nv = cfg16 example_kit 0x2C"
    "\<forall>k < min (NVRM_PCICFG_NUM_BARS example_rm) (NV_GPU_NUM_BARS example_rm).
       cpu_address (bars nv ! k) = ucast (cfg32 example_kit (bar_register k))" by blast
  with run show ?thesis
    by (intro exI [of _ s'] exI [of _ nv])
      (simp add: example_rm_def example_kit_def bar_register_def)
qed

text \<open>
  C29. The loop of \<open>Start\<close> that looks for a BAR counts in a \<open>uint8_t\<close>.  It ends exactly when
  there are fewer than 256 BARs or one of the first 256 has a size; with fewer than 256 (the
  resource manager has three) it finds the first BAR with a size, or none when none has one.
\<close>

theorem bar_loop_ends:
  "(probe_bars_dk num_bars sizes 0 \<noteq> None \<longleftrightarrow> num_bars < 256 \<or> (\<exists>k < 256. sizes k \<noteq> 0)) \<and>
   (num_bars < 256 \<longrightarrow>
      (probe_bars_dk num_bars sizes 0 = Some None \<longleftrightarrow> (\<forall>k < num_bars. sizes k = 0)) \<and>
      (\<forall>k. probe_bars_dk num_bars sizes 0 = Some (Some k) \<longrightarrow>
        k < num_bars \<and> sizes k \<noteq> 0 \<and> (\<forall>j < k. sizes j = 0)))"
proof (intro conjI impI)
  show "probe_bars_dk num_bars sizes 0 \<noteq> None \<longleftrightarrow> num_bars < 256 \<or> (\<exists>k < 256. sizes k \<noteq> 0)"
    by (rule probe_bars_returns_iff)
next
  assume "num_bars < 256"
  with probe_bars_small [of num_bars 0 num_bars sizes]
  have run: "probe_bars_dk num_bars sizes 0 = Some (first_bar_dk sizes 0 num_bars)" by simp
  show "probe_bars_dk num_bars sizes 0 = Some None \<longleftrightarrow> (\<forall>k < num_bars. sizes k = 0)"
    by (simp add: run first_bar_dk_None_iff)
  show "\<forall>k. probe_bars_dk num_bars sizes 0 = Some (Some k) \<longrightarrow>
      k < num_bars \<and> sizes k \<noteq> 0 \<and> (\<forall>j < k. sizes j = 0)"
    using first_bar_dk_Some [of sizes 0 num_bars] by (auto simp: run)
qed

theorem bar_loop_ends_witness:
  "probe_bars_dk 256 (\<lambda>_. 0) 0 = None \<and>
   probe_bars_dk 3 (\<lambda>_. 0) 0 = Some None"
  using bar_loop_ends [of 256 "\<lambda>_. 0"] bar_loop_ends [of 3 "\<lambda>_. 0"] by auto

text \<open>
  C32. A \<open>Start\<close> that returns an error leaves the device closed, unreferenced and out of the
  global state, and hands nothing to the resource manager; but one that fails after the
  superclass started has registered the service and initialised the resource manager.
\<close>

theorem failed_start_releases_device:
  assumes "PCIHorrorKit_Start_Impl R E s = Done (ret, s')" and "ret \<noteq> KERN_SUCCESS"
    and "nvd_state s = Some (a, zero_state R)" and "\<not> opened s"
  shows "(\<exists>st'. nvd_state s' = Some (a, st') \<and> device st' = NULL) \<and> \<not> opened s' \<and>
    held s' = held s \<and> command s' = command s \<and>
    rm_starts s' = rm_starts s \<and>
    (super_start E = KERN_SUCCESS \<longrightarrow> Register \<in> set (calls_made s') \<and> RmInitRm \<in> set (calls_made s'))"
  using assms by (rule start_failure)

theorem failed_start_releases_device_witness:
  "\<exists>s'. PCIHorrorKit_Start_Impl example_rm (example_kit\<lparr>open_result := - 1\<rparr>) ready_state =
     Done (kIOReturnNoDevice, s') \<and> held s' = [Obtain 0x100] \<and> Register \<in> set (calls_made s')"
proof -
  let ?E = "example_kit\<lparr>open_result := - 1\<rparr>"
  obtain s' where run: "PCIHorrorKit_Start_Impl example_rm ?E ready_state = Done (kIOReturnNoDevice, s')"
    by (simp add: PCIHorrorKit_Start_Impl_def PCIHorrorKit_Stop_Impl_def give_up_def Let_def
        note_calls_def ready_state_def example_kit_def KERN_SUCCESS_def)
  have "kIOReturnNoDevice \<noteq> KERN_SUCCESS" "super_start ?E = KERN_SUCCESS"
    "nvd_state ready_state = Some (0x100, zero_state example_rm)" "\<not> opened ready_state"
    by (simp_all add: kIOReturnNoDevice_def KERN_SUCCESS_def ready_state_def fresh_state_def
        example_kit_def)
  with failed_start_releases_device [OF run this(1,3,4)] run show ?thesis
    by (auto simp: ready_state_def)
qed

text \<open>
  Disabling the device: the kernel's \<open>stop\<close> clears bus mastering and memory space in
  the command register; DriverKit's \<open>Stop\<close>, whose comment says \<open>Disable operation\<close>, sets
  both.
\<close>

lemma stop_command_register:
  assumes "nvd_state s = Some (a, st)" and "device st \<noteq> NULL"
  shows "(\<exists>s'. PCIHorrorKit_Stop_Impl E s = Done (super_stop E, s') \<and> \<not> opened s' \<and>
      bit (command s') 1 \<and> bit (command s') 2) \<and>
    (\<exists>s'. NVMacRMService_stop s = Done s' \<and> \<not> opened s' \<and>
      \<not> bit (command s') 1 \<and> \<not> bit (command s') 2)"
proof
  from Stop_Impl_state [OF assms(1), of E] assms(2) obtain s1 where
    "PCIHorrorKit_Stop_Impl E s = Done (super_stop E, s1)" "\<not> opened s1"
    "command s1 = command s OR (kIOPCICommandBusLead OR kIOPCICommandMemorySpace)" by auto
  then show "\<exists>s'. PCIHorrorKit_Stop_Impl E s = Done (super_stop E, s') \<and> \<not> opened s' \<and>
      bit (command s') 1 \<and> bit (command s') 2"
    by (intro exI [of _ s1]) (simp only: command_bits simp_thms)
  from NVMac_stop_state [OF assms(1)] assms(2) obtain s2 where
    "NVMacRMService_stop s = Done s2" "\<not> opened s2"
    "command s2 = command s AND NOT kIOPCICommandBusLead AND NOT kIOPCICommandMemorySpace" by auto
  then show "\<exists>s'. NVMacRMService_stop s = Done s' \<and> \<not> opened s' \<and>
      \<not> bit (command s') 1 \<and> \<not> bit (command s') 2"
    by (intro exI [of _ s2]) (simp only: command_bits simp_thms)
qed

lemma stop_command_register_witness:
  "\<exists>s'. PCIHorrorKit_Stop_Impl example_kit
      (ready_state\<lparr>nvd_state := Some (0x100, (zero_state example_rm)\<lparr>device := 0x300\<rparr>)\<rparr>) =
      Done (KERN_SUCCESS, s') \<and> bit (command s') 2"
proof -
  let ?s = "ready_state\<lparr>nvd_state := Some (0x100, (zero_state example_rm)\<lparr>device := 0x300\<rparr>)\<rparr>"
  have "nvd_state ?s = Some (0x100, (zero_state example_rm)\<lparr>device := 0x300\<rparr>)"
    and "device ((zero_state example_rm)\<lparr>device := 0x300\<rparr>) \<noteq> NULL" by simp_all
  from stop_command_register [OF this, THEN conjunct1, of example_kit] show ?thesis
    by (auto simp: example_kit_def)
qed

lemma start_k_inverted_effect:
  assumes "NVMacRMService_start R E s = Done (b, s')" and "nvd_state s = Some (a, st)"
  shows "(b \<longleftrightarrow> super_start_ok E \<or> provider_device E = NULL \<or> open_ok E) \<and>
    (b \<longrightarrow> rm_starts s' = rm_starts s \<and> held s' = held s \<and>
      (\<exists>st'. nvd_state s' = Some (a, st') \<and> device st' = device st)) \<and>
    (\<not> b \<longrightarrow> (\<exists>nv. handle_of nv = provider_device E \<and> rm_starts s' = insert nv (rm_starts s)) \<and> \<not> opened s' \<and>
      (\<exists>st'. nvd_state s' = Some (a, st') \<and> device st' = provider_device E))"
proof (cases "super_start_ok E \<or> provider_device E = NULL \<or> open_ok E")
  case True
  then show ?thesis
    using assms
    by (auto simp: NVMacRMService_start_def bool_kern_def kern_bool_def KERN_SUCCESS_def
        kIOReturnNoDevice_def rm_starts_def service_defs split: if_splits)
next
  case False
  with assms obtain probed s1 where
    att: "attach_device R E (bar_entry_k R E) probed a (st\<lparr>service := this_service E\<rparr>) s1 = Done s'"
    and b: "\<not> b" and s1: "rm_starts s1 = rm_starts s" "\<not> opened s1"
    by (auto simp: NVMacRMService_start_def bool_kern_def kern_bool_def KERN_SUCCESS_def
        rm_starts_def service_defs split: outcome.splits)
  from attach_device_state [OF att] attach_device_rm_starts [OF att] s1 b False show ?thesis by auto
qed

text \<open>
  C14. The kernel driver's \<open>start\<close> compares \<open>bool\<close> results with \<open>KERN_SUCCESS\<close>: it
  attaches the device and starts the resource manager only when both the superclass's
  \<open>start\<close> and the device's \<open>open\<close> report failure, and then it returns false; whenever it
  returns true it has attached nothing.
\<close>

theorem start_k_inverted:
  assumes "NVMacRMService_start R E s = Done (b, s')" and "nvd_state s = Some (a, st)"
  shows "(b \<longleftrightarrow> super_start_ok E \<or> provider_device E = NULL \<or> open_ok E) \<and>
    (b \<longrightarrow> rm_starts s' = rm_starts s \<and> held s' = held s \<and>
      (\<exists>st'. nvd_state s' = Some (a, st') \<and> device st' = device st)) \<and>
    (\<not> b \<longrightarrow> (\<exists>nv. handle_of nv = provider_device E \<and> rm_starts s' = insert nv (rm_starts s)) \<and> \<not> opened s' \<and>
      (\<exists>st'. nvd_state s' = Some (a, st') \<and> device st' = provider_device E))"
  using assms by (rule start_k_inverted_effect)

theorem start_k_inverted_witness:
  "\<exists>s'. NVMacRMService_start example_rm example_kext ready_state = Done (True, s') \<and>
     rm_starts s' = {} \<and> held s' = [Obtain 0x100]"
proof -
  obtain s' where run: "NVMacRMService_start example_rm example_kext ready_state = Done (True, s')"
    by (simp add: NVMacRMService_start_def example_kext_def bool_kern_def KERN_SUCCESS_def kern_bool_def)
  have "nvd_state ready_state = Some (0x100, zero_state example_rm)" by (simp add: ready_state_def)
  from start_k_inverted [OF run this] run show ?thesis
    by (auto simp: ready_state_def fresh_state_def rm_starts_def)
qed

text \<open>
  In the kernel a BAR without memory ends the start: when the device is attached and one
  of the BARs it looks at has no \<open>IODeviceMemory\<close>, asking for its length or address
  dereferences \<open>NULL\<close>.
\<close>

lemma start_k_missing_bar:
  assumes "\<not> super_start_ok E" and "\<not> open_ok E" and "provider_device E \<noteq> NULL"
    and "nvd_state s = Some (a, zero_state R)" and "device_memory E k = None"
    and "k < NVRM_PCICFG_NUM_BARS R" and "k < NV_GPU_NUM_BARS R"
  shows "NVMacRMService_start R E s = Fault NullDereference"
proof -
  define k0 where "k0 = (LEAST j. device_memory E j = None)"
  have k0: "device_memory E k0 = None" "k0 \<le> k" "\<forall>j < k0. device_memory E j \<noteq> None"
    using assms(5) unfolding k0_def by (auto intro: LeastI Least_le dest: not_less_Least)
  have "\<forall>j < k0. \<exists>b. bar_entry_k R E j = Done b"
    using k0(3) by (auto simp: bar_entry_k_def)
  then have "fill_bars R (bar_entry_k R E) 0 0 (replicate (NV_GPU_NUM_BARS R) zero_aperture) =
      Fault NullDereference"
    using k0(1,2) assms(6,7) by (intro fill_bars_missing) (auto simp: bar_entry_k_def)
  then have "attach_device R E (bar_entry_k R E) probed a ((zero_state R)\<lparr>service := this_service E\<rparr>) s1
      = Fault NullDereference" for probed s1
    by (simp add: attach_device_def describe_device_def zero_state_def Let_def)
  moreover have "first_bar_k mem i n = Fault f \<Longrightarrow> f = NullDereference" for mem i n f
    by (induction mem i n rule: first_bar_k.induct) (auto split: option.splits if_splits)
  ultimately show ?thesis
    using assms(1-4)
    by (auto simp: NVMacRMService_start_def bool_kern_def KERN_SUCCESS_def note_calls_def Let_def
        split: outcome.splits)
qed

lemma start_k_missing_bar_witness:
  "NVMacRMService_start example_rm
     (example_kext\<lparr>super_start_ok := False, open_ok := False,
        device_memory := (\<lambda>k. if k = 2 then None else Some (0x1000000, 0xFD000000))\<rparr>) ready_state =
   Fault NullDereference"
  by (rule start_k_missing_bar [where a = "0x100" and k = 2])
    (simp_all add: example_kext_def example_rm_def ready_state_def)

text \<open>
  C33. The life-cycle contract of both drivers: after a successful \<open>init\<close> and any sequence of
  starts and stops that returns, \<open>free\<close> succeeds, once; after an \<open>init\<close> that failed for
  want of a state, \<open>free\<close> dereferences \<open>NULL\<close>.
\<close>

theorem init_free_contract:
  "(PCIHorrorKit_init R E s = (True, s1) \<and> kit.session R ops s1 = Done s2 \<longrightarrow>
      (\<exists>s3. PCIHorrorKit_free s2 = Done s3 \<and> PCIHorrorKit_free s3 = Fault NullDereference)) \<and>
   (NVMacRMService_init R F s = (True, s1) \<and> kext.session R opsk s1 = Done s2 \<longrightarrow>
      (\<exists>s3. NVMacRMService_free s2 = Done s3 \<and> NVMacRMService_free s3 = Fault NullDereference)) \<and>
   (nvd_state s = None \<and> PCIHorrorKit_init R E s = (False, s1) \<longrightarrow>
      PCIHorrorKit_free s1 = Fault NullDereference) \<and>
   (nvd_state s = None \<and> NVMacRMService_init R F s = (False, s1) \<longrightarrow>
      NVMacRMService_free s1 = Fault NullDereference)"
  using kit.session_then_free [of R E s s1 ops s2] kext.session_then_free [of R F s s1 opsk s2]
    kit.failed_init_free [of R E s s1] kext.failed_init_free [of R F s s1]
  by (auto simp: has_state_def)

theorem init_free_contract_witness:
  "\<exists>s2 s3. kit.session example_rm [(True, example_kit), (False, example_kit), (False, example_kit)]
      ready_state = Done s2 \<and> PCIHorrorKit_free s2 = Done s3"
proof -
  obtain s1 where start: "PCIHorrorKit_Start_Impl example_rm example_kit ready_state =
      Done (KERN_SUCCESS, s1)" using example_start by blast
  have "has_state s1"
    using kit.start_live [OF start] by (simp add: has_state_def ready_state_def)
  with kit.stops_only [of s1 example_rm "[example_kit, example_kit]"] start
  obtain s2 where run: "kit.session example_rm
      [(True, example_kit), (False, example_kit), (False, example_kit)] ready_state = Done s2"
    by auto
  from init_free_contract [THEN conjunct1, THEN mp, OF conjI, OF example_init run] run
  show ?thesis by blast
qed

end
