(* ===== verification/ServiceLives.thy ===== *)
theory ServiceLives
  imports Services
begin

text \<open>
  The lives of the two drivers of \<open>Services\<close>: the order in which the I/O framework calls
  \<open>init\<close>, \<open>start\<close>, \<open>stop\<close> and \<open>free\<close>, as step relations with their invariants, and
  what a life leaves behind.
\<close>

section \<open>Lives of the DriverKit driver\<close>

text \<open>
  The order in which the framework calls a driver: \<open>init\<close> once, \<open>start\<close> once, any number
  of \<open>stop\<close>s, \<open>free\<close> once at the end.
\<close>

datatype phase = Fresh | Ready | Running | Halted | Gone

inductive kit_step ::
  "rm_library \<Rightarrow> phase \<Rightarrow> service_state \<Rightarrow> phase \<Rightarrow> service_state \<Rightarrow> bool" for R where
  inited: "PCIHorrorKit_init R E s = (True, s') \<Longrightarrow> kit_step R Fresh s Ready s'"
| started: "PCIHorrorKit_Start_Impl R E s = Done (ret, s') \<Longrightarrow> ret = KERN_SUCCESS \<Longrightarrow>
    kit_step R Ready s Running s'"
| start_failed: "PCIHorrorKit_Start_Impl R E s = Done (ret, s') \<Longrightarrow> ret \<noteq> KERN_SUCCESS \<Longrightarrow>
    kit_step R Ready s Halted s'"
| stopped: "ph \<in> {Ready, Running, Halted} \<Longrightarrow> PCIHorrorKit_Stop_Impl E s = Done (ret, s') \<Longrightarrow>
    kit_step R ph s Halted s'"
| freed: "ph \<in> {Ready, Halted} \<Longrightarrow> PCIHorrorKit_free s = Done s' \<Longrightarrow> kit_step R ph s Gone s'"

definition pristine :: "service_state \<Rightarrow> bool" where
  "pristine s \<longleftrightarrow> nvd_state s = None \<and> \<not> opened s \<and> held s = [] \<and> calls_made s = []"

inductive kit_life :: "rm_library \<Rightarrow> phase \<Rightarrow> service_state \<Rightarrow> bool" for R where
  fresh: "pristine s \<Longrightarrow> kit_life R Fresh s"
| step: "kit_life R ph s \<Longrightarrow> kit_step R ph s ph' s' \<Longrightarrow> kit_life R ph' s'"

text \<open>What each phase holds: the block of the state, and the device once it was started.\<close>

definition started_refs :: "service_state \<Rightarrow> ref_event list \<Rightarrow> bool" where
  "started_refs s rs \<longleftrightarrow>
     rm_starts s = {} \<and> rs = [] \<or>
     (\<exists>nv. rm_starts s = {nv} \<and> handle_of nv \<noteq> NULL \<and> rs = [Retain (handle_of nv)])"

fun kit_inv :: "rm_library \<Rightarrow> phase \<Rightarrow> service_state \<Rightarrow> bool" where
  "kit_inv R Fresh s \<longleftrightarrow> nvd_state s = None \<and> \<not> opened s \<and> held s = [] \<and> rm_starts s = {}"
| "kit_inv R Ready s \<longleftrightarrow> (\<exists>a. nvd_state s = Some (a, zero_state R) \<and> \<not> opened s \<and>
     held s = [Obtain a] \<and> rm_starts s = {})"
| "kit_inv R Running s \<longleftrightarrow> (\<exists>a st nv. nvd_state s = Some (a, st) \<and> device st \<noteq> NULL \<and> opened s \<and>
     held s = [Obtain a, Retain (device st)] \<and> rm_starts s = {nv} \<and> handle_of nv = device st)"
| "kit_inv R Halted s \<longleftrightarrow> (\<exists>a st rs. nvd_state s = Some (a, st) \<and> device st = NULL \<and> \<not> opened s \<and>
     held s = Obtain a # rs \<and> started_refs s rs)"
| "kit_inv R Gone s \<longleftrightarrow> nvd_state s = None \<and> \<not> opened s \<and>
     (\<exists>a rs. held s = Obtain a # rs @ [Release a] \<and> started_refs s rs)"

lemma kit_inv_init:
  "kit_inv R Fresh s \<Longrightarrow> PCIHorrorKit_init R E s = (True, s') \<Longrightarrow> kit_inv R Ready s'"
  by (auto simp: PCIHorrorKit_init_def rm_starts_def service_defs split: if_splits)

lemma kit_inv_stop:
  assumes "kit_inv R ph s" and "ph \<in> {Ready, Running, Halted}"
    and "PCIHorrorKit_Stop_Impl E s = Done (ret, s')"
  shows "kit_inv R Halted s'"
proof -
  from assms(1,2) obtain a st where st: "nvd_state s = Some (a, st)" by auto
  with Stop_Impl_state [OF st, of E] assms(3)
  have s': "nvd_state s' = Some (a, st\<lparr>device := NULL\<rparr>)" "held s' = held s"
    "opened s' = (opened s \<and> device st = NULL)"
    by (auto split: if_splits)
  have "rm_starts s' = rm_starts s" using assms(3) by (rule Stop_Impl_rm_starts)
  with s' st assms(1,2) show ?thesis by (auto simp: started_refs_def)
qed

lemma kit_inv_free:
  "kit_inv R ph s \<Longrightarrow> ph \<in> {Ready, Halted} \<Longrightarrow> PCIHorrorKit_free s = Done s' \<Longrightarrow> kit_inv R Gone s'"
  by (auto simp: PCIHorrorKit_free_def started_refs_def rm_starts_def service_defs)

lemma kit_inv_start:
  assumes "kit_inv R Ready s" and "PCIHorrorKit_Start_Impl R E s = Done (ret, s')"
    and "ret = KERN_SUCCESS"
  shows "kit_inv R Running s'"
proof -
  from assms(1) obtain a where s: "nvd_state s = Some (a, zero_state R)" "held s = [Obtain a]"
    "rm_starts s = {}" by auto
  from start_success [OF assms(2,3) s(1)] obtain s1 where
    att: "attach_device R E (bar_entry_dk R E) (first_bar_dk (bar_size E) 0 (NV_GPU_NUM_BARS R)) a
        ((zero_state R)\<lparr>service := this_service E\<rparr>) s1 = Done s'"
    and s1: "opened s1" "held s1 = held s" "rm_starts s1 = rm_starts s" "provider_device E \<noteq> NULL"
    by blast
  from attach_device_state [OF att] attach_device_rm_starts [OF att] s s1
  show ?thesis by fastforce
qed

lemma kit_inv_step:
  assumes "kit_step R ph s ph' s'" and "kit_inv R ph s"
  shows "kit_inv R ph' s'"
  using assms
proof (cases rule: kit_step.cases)
  case (start_failed E ret)
  with assms(2) obtain a where s: "nvd_state s = Some (a, zero_state R)" "held s = [Obtain a]"
    "rm_starts s = {}" "\<not> opened s" by auto
  from start_failure [OF start_failed(3,4) s(1,4)] s start_failed(2) show ?thesis
    by (auto simp: started_refs_def)
qed (auto intro: kit_inv_init kit_inv_start kit_inv_stop kit_inv_free simp del: kit_inv.simps)

lemma kit_inv_fresh: "pristine s \<Longrightarrow> kit_inv R Fresh s"
  by (simp add: pristine_def rm_starts_def)

lemma kit_life_inv: "kit_life R ph s \<Longrightarrow> kit_inv R ph s"
  by (induction rule: kit_life.induct) (simp_all add: kit_inv_fresh kit_inv_step del: kit_inv.simps)

text \<open>In every phase: a reference to the state's block while it is the global state, and one to
  each device that was started.\<close>

lemma kit_inv_balance:
  assumes "kit_inv R ph s"
  shows "balance (held s) x = (if \<exists>st. nvd_state s = Some (x, st) then 1 else 0) +
    (if \<exists>nv. RmStart nv \<in> set (calls_made s) \<and> handle_of nv = x then 1 else 0)"
proof -
  have starts: "balance rs x = (if \<exists>nv \<in> rm_starts s. handle_of nv = x then 1 else 0)"
    if "started_refs s rs" for rs
    using that by (auto simp: started_refs_def)
  have ex: "(\<exists>nv. RmStart nv \<in> set (calls_made s) \<and> handle_of nv = x) \<longleftrightarrow>
      (\<exists>nv \<in> rm_starts s. handle_of nv = x)" by (auto simp: rm_starts_def)
  show ?thesis unfolding ex using assms starts by (cases ph) auto
qed

section \<open>Lives of the kernel driver\<close>

text \<open>
  Here the phase follows the boolean that \<open>start\<close> returns: true makes the driver running,
  false leaves it to be freed.
\<close>

inductive kext_life :: "rm_library \<Rightarrow> phase \<Rightarrow> service_state \<Rightarrow> bool" for R where
  k_fresh: "nvd_state s = None \<Longrightarrow> \<not> opened s \<Longrightarrow> held s = [] \<Longrightarrow> calls_made s = [] \<Longrightarrow>
    kext_life R Fresh s"
| k_inited: "kext_life R Fresh s \<Longrightarrow> NVMacRMService_init R E s = (True, s') \<Longrightarrow> kext_life R Ready s'"
| k_started: "kext_life R Ready s \<Longrightarrow> NVMacRMService_start R E s = Done (b, s') \<Longrightarrow>
    kext_life R (if b then Running else Halted) s'"
| k_stopped: "kext_life R ph s \<Longrightarrow> ph \<in> {Ready, Running, Halted} \<Longrightarrow>
    NVMacRMService_stop s = Done s' \<Longrightarrow> kext_life R Halted s'"
| k_freed: "kext_life R ph s \<Longrightarrow> ph \<in> {Ready, Halted} \<Longrightarrow> NVMacRMService_free s = Done s' \<Longrightarrow>
    kext_life R Gone s'"

text \<open>
  Before \<open>start\<close> attached a device there is nothing but the state's block; from then on the
  device is referenced, closed, and known to the state until the first \<open>stop\<close>.
\<close>

definition never_attached :: "service_state \<Rightarrow> bool" where
  "never_attached s \<longleftrightarrow> rm_starts s = {} \<and> CloseDevice \<notin> set (calls_made s)"

definition attached_to :: "service_state \<Rightarrow> ptr \<Rightarrow> bool" where
  "attached_to s dev \<longleftrightarrow> (\<exists>nv. rm_starts s = {nv} \<and> handle_of nv = dev) \<and> dev \<noteq> NULL \<and> \<not> opened s"

definition closed_once :: "service_state \<Rightarrow> bool" where
  "closed_once s \<longleftrightarrow> CloseDevice \<in> set (calls_made s)"

fun kext_inv :: "rm_library \<Rightarrow> phase \<Rightarrow> service_state \<Rightarrow> bool" where
  "kext_inv R Fresh s \<longleftrightarrow> nvd_state s = None \<and> \<not> opened s \<and> held s = [] \<and> never_attached s"
| "kext_inv R Ready s \<longleftrightarrow> (\<exists>a. nvd_state s = Some (a, zero_state R) \<and> \<not> opened s \<and>
     held s = [Obtain a] \<and> never_attached s)"
| "kext_inv R Running s \<longleftrightarrow> (\<exists>a st. nvd_state s = Some (a, st) \<and> device st = NULL \<and>
     held s = [Obtain a] \<and> never_attached s)"
| "kext_inv R Halted s \<longleftrightarrow> (\<exists>a st. nvd_state s = Some (a, st) \<and>
     (device st = NULL \<and> held s = [Obtain a] \<and> never_attached s \<or>
      (\<exists>dev. attached_to s dev \<and> held s = [Obtain a, Retain dev] \<and>
        device st = (if closed_once s then NULL else dev))))"
| "kext_inv R Gone s \<longleftrightarrow> nvd_state s = None \<and> (\<exists>a.
     held s = [Obtain a, Release a] \<and> never_attached s \<or>
     (\<exists>dev. attached_to s dev \<and> held s = [Obtain a, Retain dev] @
        (if closed_once s then [] else [Release dev]) @ [Release a]))"

lemma kext_inv_init:
  "kext_inv R Fresh s \<Longrightarrow> NVMacRMService_init R E s = (True, s') \<Longrightarrow> kext_inv R Ready s'"
  by (auto simp: NVMacRMService_init_def rm_starts_def never_attached_def service_defs split: if_splits)

lemma NVMac_stop_calls:
  assumes "NVMacRMService_stop s = Done s'" and "nvd_state s = Some (a, st)"
  shows "rm_starts s' = rm_starts s" and "closed_once s' \<longleftrightarrow> closed_once s \<or> device st \<noteq> NULL"
  using assms by (auto simp: NVMacRMService_stop_def rm_starts_def closed_once_def service_defs
      split: if_splits)

lemma kext_inv_stop:
  assumes "kext_inv R ph s" and "ph \<in> {Ready, Running, Halted}"
    and "NVMacRMService_stop s = Done s'"
  shows "kext_inv R Halted s'"
proof -
  from assms(1,2) obtain a st where st: "nvd_state s = Some (a, st)"
    and cases: "device st = NULL \<and> held s = [Obtain a] \<and> never_attached s \<or>
      (\<exists>dev. attached_to s dev \<and> held s = [Obtain a, Retain dev] \<and>
        device st = (if closed_once s then NULL else dev))"
    by auto
  from NVMac_stop_state [OF st] assms(3)
  have s': "nvd_state s' = Some (a, st\<lparr>device := NULL\<rparr>)" "held s' = held s"
    "opened s' = (opened s \<and> device st = NULL)" by (auto split: if_splits)
  note calls = NVMac_stop_calls [OF assms(3) st]
  from cases show ?thesis
  proof (elim disjE exE)
    assume "device st = NULL \<and> held s = [Obtain a] \<and> never_attached s"
    with s' calls show ?thesis by (simp add: never_attached_def closed_once_def)
  next
    fix dev
    assume "attached_to s dev \<and> held s = [Obtain a, Retain dev] \<and>
        device st = (if closed_once s then NULL else dev)"
    with s' calls have "attached_to s' dev" "held s' = [Obtain a, Retain dev]" "closed_once s'"
      by (auto simp: attached_to_def split: if_splits)
    with s'(1) show ?thesis by auto
  qed
qed

lemma NVMac_free_state:
  assumes "NVMacRMService_free s = Done s'" and "nvd_state s = Some (a, st)"
  shows "nvd_state s' = None" and "rm_starts s' = rm_starts s" and "opened s' = opened s"
    and "closed_once s' = closed_once s"
    and "held s' = held s @ (if device st \<noteq> NULL then [Release (device st)] else []) @ [Release a]"
  using assms by (auto simp: NVMacRMService_free_def rm_starts_def closed_once_def service_defs)

lemma kext_inv_free:
  assumes "kext_inv R ph s" and "ph \<in> {Ready, Halted}" and "NVMacRMService_free s = Done s'"
  shows "kext_inv R Gone s'"
proof -
  from assms(1,2) obtain a st where st: "nvd_state s = Some (a, st)"
    and cases: "device st = NULL \<and> held s = [Obtain a] \<and> never_attached s \<or>
      (\<exists>dev. attached_to s dev \<and> held s = [Obtain a, Retain dev] \<and>
        device st = (if closed_once s then NULL else dev))"
    by auto
  note s' = NVMac_free_state [OF assms(3) st]
  from cases show ?thesis
    by (elim disjE exE) (use s' in \<open>auto simp: never_attached_def attached_to_def closed_once_def\<close>)
qed

lemma kext_inv_start:
  assumes "kext_inv R Ready s" and "NVMacRMService_start R E s = Done (b, s')"
  shows "kext_inv R (if b then Running else Halted) s'"
proof -
  from assms(1) obtain a where s: "nvd_state s = Some (a, zero_state R)" "held s = [Obtain a]"
    "never_attached s" by auto
  show ?thesis
  proof (cases "super_start_ok E \<or> provider_device E = NULL \<or> open_ok E")
    case True
    with assms(2) s show ?thesis
      by (auto simp: NVMacRMService_start_def bool_kern_def kern_bool_def KERN_SUCCESS_def
          kIOReturnNoDevice_def rm_starts_def never_attached_def service_defs split: if_splits)
  next
    case False
    with assms(2) s(1) obtain probed s1 where
      att: "attach_device R E (bar_entry_k R E) probed a ((zero_state R)\<lparr>service := this_service E\<rparr>) s1
        = Done s'" and b: "\<not> b"
      and s1: "rm_starts s1 = rm_starts s" "\<not> opened s1" "held s1 = held s"
        "closed_once s1 = closed_once s"
      by (auto simp: NVMacRMService_start_def bool_kern_def kern_bool_def KERN_SUCCESS_def
          rm_starts_def closed_once_def service_defs split: outcome.splits)
    from attach_device_state [OF att] obtain nv where
      st: "nvd_state s' = Some (a, (zero_state R)\<lparr>service := this_service E, nv_state_of := nv,
        device := provider_device E\<rparr>)" "held s' = [Obtain a, Retain (provider_device E)]" "\<not> opened s'"
      using s s1 by auto
    have "closed_once s' = closed_once s1"
      using att by (auto simp: attach_device_def closed_once_def service_defs
          split: outcome.splits prod.splits)
    moreover have "attached_to s' (provider_device E)"
      using attach_device_rm_starts [OF att] s1(1) s(3) st(3) False
      by (auto simp: attached_to_def never_attached_def)
    moreover have "\<not> closed_once s" using s(3) by (simp add: never_attached_def closed_once_def)
    ultimately show ?thesis using st(1,2) s1(4) b by simp
  qed
qed

lemma kext_life_inv: "kext_life R ph s \<Longrightarrow> kext_inv R ph s"
proof (induction rule: kext_life.induct)
  case (k_fresh s)
  then show ?case by (simp add: never_attached_def rm_starts_def)
qed (simp_all add: kext_inv_init kext_inv_start kext_inv_stop kext_inv_free del: kext_inv.simps)

section \<open>What a life leaves behind\<close>

text \<open>
  The device is leaked by every life of the DriverKit driver in which it was started: when
  the driver is gone, the global state is freed and the device is closed, but each device
  handed to the resource manager still has the reference \<open>Start\<close> took, because \<open>Stop\<close>
  clears the pointer that \<open>free\<close> would release.  A life without a successful start leaks
  nothing.
\<close>

lemma life_leaks_started_device:
  assumes "kit_life R Gone s"
  shows "nvd_state s = None \<and> \<not> opened s \<and>
    (\<forall>x. balance (held s) x =
      (if \<exists>nv. RmStart nv \<in> set (calls_made s) \<and> handle_of nv = x then 1 else 0))"
proof -
  from kit_life_inv [OF assms] obtain a rs where
    held: "held s = Obtain a # rs @ [Release a]" and refs: "started_refs s rs"
    and "nvd_state s = None" "\<not> opened s" by auto
  have "balance rs x = (if \<exists>nv \<in> rm_starts s. handle_of nv = x then 1 else 0)" for x
    using refs by (auto simp: started_refs_def)
  then show ?thesis
    using held \<open>nvd_state s = None\<close> \<open>\<not> opened s\<close> by (auto simp: rm_starts_def)
qed

lemma life_leaks_started_device_witness:
  "\<exists>s. kit_life example_rm Gone s \<and> balance (held s) 0x300 = 1 \<and> balance (held s) 0x100 = 0"
proof -
  have "kit_life example_rm Fresh fresh_state" by (rule kit_life.fresh) (simp add: pristine_def fresh_state_def)
  then have ready: "kit_life example_rm Ready ready_state"
    by (rule kit_life.step [OF _ kit_step.inited [OF example_init]])
  obtain s1 where start: "PCIHorrorKit_Start_Impl example_rm example_kit ready_state =
      Done (KERN_SUCCESS, s1)" using example_start by blast
  from kit_life.step [OF ready kit_step.started [OF start refl]]
  have running: "kit_life example_rm Running s1" .
  from kit_life_inv [OF running] obtain a st nv where
    s1: "nvd_state s1 = Some (a, st)" "rm_starts s1 = {nv}" "handle_of nv = device st" by auto
  have dev: "device st = 0x300"
  proof -
    have "nvd_state ready_state = Some (0x100, zero_state example_rm)" by (simp add: ready_state_def)
    from start_success [OF start refl this] attach_device_state s1(1) show ?thesis
      by (fastforce simp: example_kit_def)
  qed
  from Stop_Impl_state [OF s1(1), of example_kit] obtain r s2 where
    stop: "PCIHorrorKit_Stop_Impl example_kit s1 = Done (r, s2)" "nvd_state s2 \<noteq> None" by auto
  have halted: "kit_life example_rm Halted s2"
    by (rule kit_life.step [OF running kit_step.stopped [OF _ stop(1)]]) simp
  from stop(2) obtain s3 where free: "PCIHorrorKit_free s2 = Done s3"
    by (auto simp: PCIHorrorKit_free_def)
  have gone: "kit_life example_rm Gone s3"
    by (rule kit_life.step [OF halted kit_step.freed [OF _ free]]) simp
  have "calls_made s3 = calls_made s2 @ [SuperFree]"
    using free by (auto simp: PCIHorrorKit_free_def service_defs split: option.splits)
  then have "RmStart nv' \<in> set (calls_made s3) \<longleftrightarrow> nv' = nv" for nv'
    using Stop_Impl_rm_starts [OF stop(1)] s1(2) by (auto simp: rm_starts_def)
  with life_leaks_started_device [OF gone] gone s1(3) dev show ?thesis by auto
qed

text \<open>
  The lives of the kernel driver.  While it runs, as far as the framework can tell, it
  has no device and no adapter was started with the resource manager (which it may have
  initialised, when the superclass failed and the open did not); a device it left open is never one it
  attached, and it never closes it.  When it is gone the block of the state is freed, and the device it
  attached keeps a reference exactly when \<open>stop\<close> was called before \<open>free\<close>: \<open>stop\<close> clears
  the pointer that \<open>free\<close> releases.
\<close>

lemma kext_life_devices:
  assumes "kext_life R ph s"
  shows "(ph = Running \<longrightarrow> (\<forall>nv. RmStart nv \<notin> set (calls_made s)) \<and>
      (\<exists>a st. nvd_state s = Some (a, st) \<and> device st = NULL)) \<and>
    (opened s \<longrightarrow> (\<forall>nv. RmStart nv \<notin> set (calls_made s)) \<and> CloseDevice \<notin> set (calls_made s)) \<and>
    (ph = Gone \<longrightarrow> nvd_state s = None \<and>
      (\<forall>x. balance (held s) x =
        (if CloseDevice \<in> set (calls_made s) \<and>
            (\<exists>nv. RmStart nv \<in> set (calls_made s) \<and> handle_of nv = x) then 1 else 0)))"
proof -
  note inv = kext_life_inv [OF assms]
  have starts: "RmStart nv \<in> set (calls_made s) \<longleftrightarrow> nv \<in> rm_starts s" for nv
    by (simp add: rm_starts_def)
  have "never_attached s \<or> (\<exists>dev. attached_to s dev)" using inv by (cases ph) auto
  then have opened: "opened s \<Longrightarrow> never_attached s" by (auto simp: attached_to_def)
  have gone: "balance (held s) x = (if closed_once s \<and> (\<exists>nv \<in> rm_starts s. handle_of nv = x) then 1 else 0)"
    if "ph = Gone" for x
    using inv that by (auto simp: never_attached_def attached_to_def closed_once_def)
  show ?thesis
  proof (intro conjI impI)
    assume "ph = Running"
    with inv show "\<forall>nv. RmStart nv \<notin> set (calls_made s)"
      and "\<exists>a st. nvd_state s = Some (a, st) \<and> device st = NULL"
      by (auto simp: never_attached_def rm_starts_def)
  next
    assume "opened s"
    from opened [OF this] show "\<forall>nv. RmStart nv \<notin> set (calls_made s)"
      and "CloseDevice \<notin> set (calls_made s)" by (auto simp: never_attached_def rm_starts_def)
  next
    assume "ph = Gone"
    with inv show "nvd_state s = None" by simp
  next
    assume "ph = Gone"
    show "\<forall>x. balance (held s) x =
        (if CloseDevice \<in> set (calls_made s) \<and>
            (\<exists>nv. RmStart nv \<in> set (calls_made s) \<and> handle_of nv = x) then 1 else 0)"
      using gone [OF \<open>ph = Gone\<close>] by (auto simp: closed_once_def starts)
  qed
qed

lemma kext_life_devices_witness:
  "\<exists>s. kext_life example_rm Gone s \<and> balance (held s) 0x300 = 1 \<and> balance (held s) 0x100 = 0"
proof -
  let ?E = "example_kext\<lparr>super_start_ok := False, open_ok := False\<rparr>"
  have "kext_life example_rm Fresh fresh_state" by (rule kext_life.k_fresh) (simp_all add: fresh_state_def)
  moreover have "NVMacRMService_init example_rm ?E fresh_state = (True, ready_state)"
    by (simp add: NVMacRMService_init_def example_kext_def fresh_state_def ready_state_def service_defs)
  ultimately have ready: "kext_life example_rm Ready ready_state" by (rule kext_life.k_inited)
  have st: "nvd_state ready_state = Some (0x100, zero_state example_rm)" by (simp add: ready_state_def)
  obtain s1 where start: "NVMacRMService_start example_rm ?E ready_state = Done (False, s1)"
    using start_k_attaches [OF _ _ _ st, of ?E] by (auto simp: example_kext_def)
  from kext_life.k_started [OF ready start] have halted: "kext_life example_rm Halted s1" by simp
  from start_k_inverted_effect [OF start st] obtain nv st1 where s1: "rm_starts s1 = {nv}"
    "nvd_state s1 = Some (0x100, st1)" "device st1 = 0x300" "handle_of nv = 0x300"
    by (auto simp: example_kext_def ready_state_def fresh_state_def rm_starts_def)
  from NVMac_stop_state [OF s1(2)] obtain s2 st2 where stop: "NVMacRMService_stop s1 = Done s2"
    "nvd_state s2 = Some (0x100, st2)" by auto
  have closed: "CloseDevice \<in> set (calls_made s2)" "rm_starts s2 = {nv}"
    using NVMac_stop_calls [OF stop(1) s1(2)] s1(1,3) by (simp_all add: closed_once_def)
  from kext_life.k_stopped [OF halted _ stop(1)] have halted2: "kext_life example_rm Halted s2" by simp
  from stop(2) obtain s3 where free: "NVMacRMService_free s2 = Done s3"
    by (auto simp: NVMacRMService_free_def)
  from kext_life.k_freed [OF halted2 _ free] have gone: "kext_life example_rm Gone s3" by simp
  have s3: "CloseDevice \<in> set (calls_made s3)" "RmStart nv' \<in> set (calls_made s3) \<longleftrightarrow> nv' = nv" for nv'
    using NVMac_free_state [OF free stop(2)] closed by (auto simp: closed_once_def rm_starts_def)
  from kext_life_devices [OF gone] gone s3 s1(4) show ?thesis by auto
qed

end
