(* ===== verification/StartStages.thy ===== *)
theory StartStages
  imports ServiceLives
begin

text \<open>
  \<open>Start_Impl\<close> of \<open>PCIHorrorKit.cpp\<close> cut where the resource manager runs inside it: after
  \<open>rm_init_rm\<close>, and from \<open>rm_init_private_state\<close> to \<open>rm_init_adapter\<close>.  Between the cuts the
  resource manager calls back into \<open>libnv-darwin\<close> and writes to its part of the state; the
  whole function is the stages with its entry points' effect in their place.
\<close>

section \<open>The stages of a start\<close>

text \<open>A stage returns from \<open>Start\<close> with \<open>Some\<close> result, or goes on.\<close>

type_synonym stage_result = "(kern_return option \<times> service_state) outcome"

definition give_up_stage :: "kern_return \<Rightarrow> (kern_return \<times> service_state) outcome \<Rightarrow> stage_result" where
  "give_up_stage ret stopped =
     (case give_up ret stopped of Fault f \<Rightarrow> Fault f | Done (r, s) \<Rightarrow> Done (Some r, s))"

text \<open>To the end of \<open>rm_init_rm\<close>.\<close>

definition start_begin :: "kit_env \<Rightarrow> service_state \<Rightarrow> stage_result" where
  "start_begin E s =
     (let s0 = note_calls [Sleep 500, SuperStart] s in
      if super_start E \<noteq> KERN_SUCCESS then
        give_up_stage (super_start E) (PCIHorrorKit_Stop_Impl E s0)
      else
      (case nvd_state s0 of None \<Rightarrow> Fault NullDereference
       | Some (a, st) \<Rightarrow>
           Done (None, note_calls [Register, RmInitRm]
             (s0\<lparr>nvd_state := Some (a, st\<lparr>service := this_service E\<rparr>)\<rparr>))))"

text \<open>The device is opened, kept and described, with its BARs.\<close>

definition place_device ::
  "rm_library \<Rightarrow> kit_env \<Rightarrow> ptr \<Rightarrow> nv_darwin_state \<Rightarrow> service_state \<Rightarrow> service_state outcome" where
  "place_device R E a st s =
     (let dev = provider_device E;
          s1 = s\<lparr>command := command s OR (kIOPCICommandBusLead OR kIOPCICommandMemorySpace)\<rparr>;
          nv = describe_device a dev E (nv_state_of st)
      in
      case fill_bars R (bar_entry_dk R E) 0 0 (bars nv) of Fault f \<Rightarrow> Fault f
      | Done bs \<Rightarrow>
          (let nv' = nv\<lparr>bars := bs, regs := NV_GPU_BAR_INDEX_REGS R, fb := NV_GPU_BAR_INDEX_FB R\<rparr>
           in Done (note_calls [ProbedBars (first_bar_dk (bar_size E) 0 (NV_GPU_NUM_BARS R)), RmStart nv']
                (note_refs [Retain dev]
                  (s1\<lparr>nvd_state := Some (a, st\<lparr>nv_state_of := nv', device := dev\<rparr>)\<rparr>)))))"

definition start_attach :: "rm_library \<Rightarrow> kit_env \<Rightarrow> service_state \<Rightarrow> stage_result" where
  "start_attach R E s =
     (case nvd_state s of None \<Rightarrow> Fault NullDereference
      | Some (a, st) \<Rightarrow>
          if provider_device E = NULL then
            give_up_stage kIOReturnNoDevice (PCIHorrorKit_Stop_Impl E s)
          else if open_result E \<noteq> KERN_SUCCESS then
            give_up_stage kIOReturnNoDevice (PCIHorrorKit_Stop_Impl E (note_calls [OpenDevice] s))
          else
            (case place_device R E a st (note_calls [OpenDevice] (s\<lparr>opened := True\<rparr>)) of
               Fault f \<Rightarrow> Fault f
             | Done s' \<Rightarrow> Done (None, s')))"

text \<open>The entry points as far as they write to the state: what the resource manager does there.\<close>

definition enter_rm :: "rm_library \<Rightarrow> service_state \<Rightarrow> service_state" where
  "enter_rm R s =
     s\<lparr>nvd_state := map_option (\<lambda>(a, st). (a, st\<lparr>nv_state_of := snd (rm_start R (nv_state_of st))\<rparr>))
        (nvd_state s)\<rparr>"

lemma attach_device_stages:
  "attach_device R E (bar_entry_dk R E) (first_bar_dk (bar_size E) 0 (NV_GPU_NUM_BARS R)) a st s =
    (case place_device R E a st s of Fault f \<Rightarrow> Fault f | Done s' \<Rightarrow> Done (enter_rm R s'))"
  by (simp add: attach_device_def place_device_def enter_rm_def service_defs
      split: outcome.splits prod.splits)

lemma start_in_stages:
  "PCIHorrorKit_Start_Impl R E s =
    (case start_begin E s of Fault f \<Rightarrow> Fault f
     | Done (Some ret, s1) \<Rightarrow> Done (ret, s1)
     | Done (None, s1) \<Rightarrow>
         (case start_attach R E s1 of Fault f \<Rightarrow> Fault f
          | Done (Some ret, s2) \<Rightarrow> Done (ret, s2)
          | Done (None, s2) \<Rightarrow> Done (open_result E, enter_rm R s2)))"
proof (cases "super_start E = KERN_SUCCESS")
  case False
  then show ?thesis
    by (simp add: PCIHorrorKit_Start_Impl_def start_begin_def give_up_stage_def give_up_def Let_def
        split: outcome.split prod.split)
next
  case True
  show ?thesis
  proof (cases "nvd_state s")
    case None
    with True show ?thesis by (simp add: PCIHorrorKit_Start_Impl_def start_begin_def service_defs)
  next
    case (Some x)
    obtain a st where "x = (a, st)" by (cases x)
    with True Some show ?thesis
      by (simp add: PCIHorrorKit_Start_Impl_def start_begin_def start_attach_def give_up_stage_def
          give_up_def attach_device_stages service_defs split: outcome.split prod.split)
  qed
qed

section \<open>The driver in stages\<close>

datatype stage =
    At phase
  | Initialised   \<comment> \<open>in \<open>Start\<close>, with the resource manager initialised\<close>
  | Attached      \<comment> \<open>in \<open>Start\<close>, in the resource manager's entry points\<close>

inductive kit_stage ::
  "rm_library \<Rightarrow> stage \<Rightarrow> service_state \<Rightarrow> stage \<Rightarrow> service_state \<Rightarrow> bool" for R where
  inited: "PCIHorrorKit_init R E s = (True, s') \<Longrightarrow> kit_stage R (At Fresh) s (At Ready) s'"
| begun: "start_begin E s = Done (None, s') \<Longrightarrow> kit_stage R (At Ready) s Initialised s'"
| begin_failed: "start_begin E s = Done (Some ret, s') \<Longrightarrow> kit_stage R (At Ready) s (At Halted) s'"
| attached: "start_attach R E s = Done (None, s') \<Longrightarrow> kit_stage R Initialised s Attached s'"
| attach_failed: "start_attach R E s = Done (Some ret, s') \<Longrightarrow>
    kit_stage R Initialised s (At Halted) s'"
| returned: "kit_stage R Attached s (At Running) s"
| stopped: "ph \<in> {Ready, Running, Halted} \<Longrightarrow> PCIHorrorKit_Stop_Impl E s = Done (ret, s') \<Longrightarrow>
    kit_stage R (At ph) s (At Halted) s'"
| freed: "ph \<in> {Ready, Halted} \<Longrightarrow> PCIHorrorKit_free s = Done s' \<Longrightarrow>
    kit_stage R (At ph) s (At Gone) s'"

fun stage_inv :: "rm_library \<Rightarrow> stage \<Rightarrow> service_state \<Rightarrow> bool" where
  "stage_inv R (At ph) s \<longleftrightarrow> kit_inv R ph s"
| "stage_inv R Initialised s \<longleftrightarrow> (\<exists>a st. nvd_state s = Some (a, st) \<and> device st = NULL \<and>
     \<not> opened s \<and> held s = [Obtain a] \<and> rm_starts s = {})"
| "stage_inv R Attached s \<longleftrightarrow> kit_inv R Running s"

lemma begin_effect:
  assumes "start_begin E s = Done (r, s')" and "nvd_state s = Some (a, st)" and "device st = NULL"
  shows "\<exists>st'. nvd_state s' = Some (a, st') \<and> device st' = NULL \<and> bars (nv_state_of st') = bars (nv_state_of st) \<and>
    held s' = held s \<and> opened s' = opened s \<and> rm_starts s' = rm_starts s \<and>
    (r = None \<longrightarrow> RmInitRm \<in> set (calls_made s'))"
  using assms by (auto simp: start_begin_def give_up_stage_def give_up_def PCIHorrorKit_Stop_Impl_def
      rm_starts_def service_defs split: if_splits)

lemma attach_failure:
  assumes "start_attach R E s = Done (Some ret, s')" and "nvd_state s = Some (a, st)"
    and "device st = NULL"
  shows "nvd_state s' = Some (a, st) \<and> held s' = held s \<and> opened s' = opened s \<and>
    rm_starts s' = rm_starts s \<and> set (calls_made s) \<subseteq> set (calls_made s')"
  using assms by (auto simp: start_attach_def give_up_stage_def give_up_def PCIHorrorKit_Stop_Impl_def
      rm_starts_def service_defs split: if_splits outcome.splits)

lemma place_device_done:
  assumes "place_device R E a st s = Done s'"
  shows "\<exists>nv. handle_of nv = provider_device E \<and> rm_starts s' = insert nv (rm_starts s) \<and>
    nvd_state s' = Some (a, st\<lparr>nv_state_of := nv, device := provider_device E\<rparr>) \<and>
    held s' = held s @ [Retain (provider_device E)] \<and> opened s' = opened s \<and>
    set (calls_made s) \<subseteq> set (calls_made s')"
proof -
  let ?nv = "describe_device a (provider_device E) E (nv_state_of st)"
  from assms obtain bs where bs: "fill_bars R (bar_entry_dk R E) 0 0 (bars ?nv) = Done bs"
    by (auto simp: place_device_def Let_def split: outcome.splits)
  define nv where "nv = ?nv\<lparr>bars := bs, regs := NV_GPU_BAR_INDEX_REGS R, fb := NV_GPU_BAR_INDEX_FB R\<rparr>"
  have "handle_of nv = provider_device E" by (simp add: nv_def describe_device_def)
  moreover have "s' = note_calls [ProbedBars (first_bar_dk (bar_size E) 0 (NV_GPU_NUM_BARS R)), RmStart nv]
      (note_refs [Retain (provider_device E)]
        (s\<lparr>command := command s OR (kIOPCICommandBusLead OR kIOPCICommandMemorySpace),
           nvd_state := Some (a, st\<lparr>nv_state_of := nv, device := provider_device E\<rparr>)\<rparr>))"
    using assms bs by (simp add: place_device_def Let_def nv_def)
  ultimately show ?thesis by (intro exI [of _ nv]) (auto simp: rm_starts_def service_defs)
qed

lemma stage_inv_step:
  assumes "kit_stage R ph s ph' s'" and "stage_inv R ph s"
  shows "stage_inv R ph' s'"
  using assms(1)
proof (cases rule: kit_stage.cases)
  case (begun E)
  with assms(2) obtain a where s: "nvd_state s = Some (a, zero_state R)" "\<not> opened s"
    "held s = [Obtain a]" "rm_starts s = {}" by auto
  from begin_effect [OF begun(3) s(1)] s begun(2) show ?thesis by auto
next
  case (begin_failed E ret)
  with assms(2) obtain a where s: "nvd_state s = Some (a, zero_state R)" "\<not> opened s"
    "held s = [Obtain a]" "rm_starts s = {}" by auto
  from begin_effect [OF begin_failed(3) s(1)] s begin_failed(2) show ?thesis
    by (auto simp: started_refs_def)
next
  case (attached E)
  with assms(2) obtain a st where s: "nvd_state s = Some (a, st)" "held s = [Obtain a]"
    "rm_starts s = {}" by auto
  with attached(3) obtain dev: "provider_device E \<noteq> NULL"
    and placed: "place_device R E a st (note_calls [OpenDevice] (s\<lparr>opened := True\<rparr>)) = Done s'"
    by (auto simp: start_attach_def give_up_stage_def split: if_splits outcome.splits)
  from place_device_done [OF placed] s dev attached(2) show ?thesis
    by (auto simp: rm_starts_def service_defs)
next
  case (attach_failed E ret)
  with assms(2) obtain a st where s: "nvd_state s = Some (a, st)" "device st = NULL" "\<not> opened s"
    "held s = [Obtain a]" "rm_starts s = {}" by auto
  from attach_failure [OF attach_failed(3) s(1,2)] s attach_failed(2) show ?thesis
    by (auto simp: started_refs_def)
qed (use assms(2) in \<open>auto intro: kit_inv_init kit_inv_stop kit_inv_free simp del: kit_inv.simps\<close>)

lemma stage_inv_balance:
  assumes "stage_inv R ph s"
  shows "balance (held s) x = (if \<exists>st. nvd_state s = Some (x, st) then 1 else 0) +
    (if \<exists>nv. RmStart nv \<in> set (calls_made s) \<and> handle_of nv = x then 1 else 0)"
proof (cases ph)
  case (At p)
  with assms kit_inv_balance [of R p s x] show ?thesis by simp
next
  case Initialised
  with assms show ?thesis by (auto simp: rm_starts_def)
next
  case Attached
  with assms kit_inv_balance [of R Running s x] show ?thesis by simp
qed

text \<open>What the stage says of the global state.\<close>

lemma stage_state:
  assumes "stage_inv R ph s"
  shows "nvd_state s = None \<longleftrightarrow> ph \<in> {At Fresh, At Gone}"
    and "device_present (nvd_state s) \<longleftrightarrow> ph \<in> {Attached, At Running}"
proof -
  show "nvd_state s = None \<longleftrightarrow> ph \<in> {At Fresh, At Gone}"
    using assms by (cases "(R, ph, s)" rule: stage_inv.cases; cases "case ph of At p \<Rightarrow> p | _ \<Rightarrow> Fresh") auto
  show "device_present (nvd_state s) \<longleftrightarrow> ph \<in> {Attached, At Running}"
    using assms by (cases "(R, ph, s)" rule: stage_inv.cases; cases "case ph of At p \<Rightarrow> p | _ \<Rightarrow> Fresh") auto
qed

lemma stage_calls: "kit_stage R ph s ph' s' \<Longrightarrow> set (calls_made s) \<subseteq> set (calls_made s')"
  by (cases rule: kit_stage.cases)
    (auto simp: PCIHorrorKit_init_def PCIHorrorKit_Stop_Impl_def PCIHorrorKit_free_def start_begin_def
      start_attach_def give_up_stage_def give_up_def place_device_def service_defs
      split: if_splits option.splits outcome.splits)

end
