(* ===== verification/System.thy ===== *)
theory System
  imports Libc MapClients PageClients StartStages
begin

text \<open>
  The DriverKit system: the driver of \<open>PCIHorrorKit.cpp\<close> as the I/O framework runs it, and the
  resource manager, which calls back into \<open>libnv-darwin\<close> through the global state the driver
  keeps.  A state of the system is the driver's, the two dictionaries of \<open>libc.cpp\<close> and
  \<open>memory_driverkit.cpp\<close>, the page allocations the resource manager still has and the
  references its calls took.  The invariant \<open>sys_inv\<close> joins those of the parts; the properties
  of the system are in \<open>SystemProps\<close>.
\<close>

section \<open>The system and its steps\<close>

text \<open>What is fixed: Apple's classes, NVIDIA's library and the numbers of their headers.\<close>

record 'd platform =
  objects :: "'d libkern"
  required :: "os_object option \<Rightarrow> ptr option outcome"   \<comment> \<open>\<open>OSRequiredCast\<close> to a mapping\<close>
  modes_of :: nv_memory_modes
  caches_of :: driverkit_cache_modes
  library_of :: rm_library
  direction :: u64                                      \<comment> \<open>\<open>kIOMemoryDirectionInOut\<close>\<close>

record 'd system =
  phase_of :: stage
  driver :: service_state
  tracker :: 'd               \<comment> \<open>\<open>global_allocations\<close>\<close>
  mappings :: 'd              \<comment> \<open>\<open>global_mapped_memory\<close>\<close>
  pages_held :: "priv_data list"
  rm_refs :: "ref_event list"
  heap_log :: "heap_call list"   \<comment> \<open>the calls the tracker made\<close>

text \<open>
  The calls of the resource manager, each with the answers of the system to it.  It owns the
  state \<open>nv_state_t\<close> and may write anything to it.  The answers and the requests are those of a
  target.
\<close>

datatype ('a, 'q) rm_call =
    RmMem mem_op
  | RmMap "'a map_request"
  | RmUnmap ptr u64
  | RmAllocPages 'q
  | RmFreePages nat
  | RmSetDmaSize u32
  | RmWriteState "nv_state \<Rightarrow> nv_state"

type_synonym dk_call = "(dk_answers, dk_request) rm_call"

definition with_refs :: "'d system \<Rightarrow> ('d \<times> ref_event list) outcome \<Rightarrow> 'd system outcome" where
  "with_refs y r =
     (case r of Fault f \<Rightarrow> Fault f
      | Done (d, evs) \<Rightarrow> Done (y\<lparr>mappings := d, rm_refs := rm_refs y @ evs\<rparr>))"

fun rm_step :: "'d platform \<Rightarrow> 'd system \<Rightarrow> dk_call \<Rightarrow> 'd system outcome" where
  "rm_step P y (RmMem op) =
     (case libc_run (objects P) (tracker y) [op] of Fault f \<Rightarrow> Fault f
      | Done (d, cs) \<Rightarrow> Done (y\<lparr>tracker := d, heap_log := heap_log y @ cs\<rparr>))"
| "rm_step P y (RmMap a) =
     with_refs y (request_dk (objects P) (modes_of P) (caches_of P) (nvd_state (driver y))
       (mappings y) a)"
| "rm_step P y (RmUnmap p sz) =
     with_refs y (os_unmap_kernel_space_dk (objects P) (required P) (mappings y) p sz)"
| "rm_step P y (RmAllocPages q) =
     (case page_run (alloc_dk (direction P)) free_dk (pages_held y) [AllocPages q] of
        Fault f \<Rightarrow> Fault f
      | Done (live, _, evs) \<Rightarrow> Done (y\<lparr>pages_held := live, rm_refs := rm_refs y @ evs\<rparr>))"
| "rm_step P y (RmFreePages i) =
     (case page_run (alloc_dk (direction P)) free_dk (pages_held y) [FreePages i] of
        Fault f \<Rightarrow> Fault f
      | Done (live, _, evs) \<Rightarrow> Done (y\<lparr>pages_held := live, rm_refs := rm_refs y @ evs\<rparr>))"
| "rm_step P y (RmSetDmaSize bits) =
     (case nv_set_dma_address_size (nvd_state (driver y)) bits of Fault f \<Rightarrow> Fault f
      | Done nvd \<Rightarrow> Done (y\<lparr>driver := (driver y)\<lparr>nvd_state := nvd\<rparr>\<rparr>))"
| "rm_step P y (RmWriteState w) =
     (case nvd_state (driver y) of None \<Rightarrow> Fault NullDereference
      | Some (a, st) \<Rightarrow>
          Done (y\<lparr>driver := (driver y)\<lparr>nvd_state := Some (a, st\<lparr>nv_state_of := w (nv_state_of st)\<rparr>)\<rparr>\<rparr>))"

text \<open>
  The addresses the resource manager uses are those of blocks and mappings; the BARs of its
  state are an array.
\<close>

fun usable :: "'d system \<Rightarrow> dk_call \<Rightarrow> bool" where
  "usable y (RmMem op) \<longleftrightarrow> block_pointer (mem_op_ptr op)"
| "usable y (RmMap (ans, _)) \<longleftrightarrow> block_pointer (mapping_address ans)"
| "usable y (RmUnmap p sz) \<longleftrightarrow> block_pointer p"
| "usable y (RmWriteState w) \<longleftrightarrow> (\<forall>nv. length (bars (w nv)) = length (bars nv))"
| "usable y _ \<longleftrightarrow> True"

text \<open>
  The system runs: the framework calls the driver, and from the moment \<open>Start\<close> has initialised
  it the resource manager makes its calls, from within \<open>Start\<close> (the stages of \<open>StartStages\<close>)
  and after it, whatever phase the driver is in: nothing the driver does stops it.  What its
  entry points do in \<open>Start\<close> is calls and writes like any other.
\<close>

definition rm_runs :: "'d system \<Rightarrow> bool" where
  "rm_runs y \<longleftrightarrow> RmInitRm \<in> set (calls_made (driver y))"

inductive sys_reach :: "'d platform \<Rightarrow> 'd system \<Rightarrow> bool" for P where
  boot: "phase_of y = At Fresh \<Longrightarrow> pristine (driver y) \<Longrightarrow>
    \<forall>k. get_object (objects P) (tracker y) k = None \<Longrightarrow>
    \<forall>k. get_object (objects P) (mappings y) k = None \<Longrightarrow>
    pages_held y = [] \<Longrightarrow> rm_refs y = [] \<Longrightarrow> heap_log y = [] \<Longrightarrow>
    sys_reach P y"
| framework: "sys_reach P y \<Longrightarrow> kit_stage (library_of P) (phase_of y) (driver y) ph s \<Longrightarrow>
    sys_reach P (y\<lparr>phase_of := ph, driver := s\<rparr>)"
| resource_manager: "sys_reach P y \<Longrightarrow> rm_runs y \<Longrightarrow> usable y c \<Longrightarrow> rm_step P y c = Done y' \<Longrightarrow>
    sys_reach P y'"

section \<open>The invariant\<close>

text \<open>What the platform has to be: the documented classes and cast, objects that can be made.\<close>

definition sound_platform :: "'d platform \<Rightarrow> bool" where
  "sound_platform P \<longleftrightarrow> mapping_system (objects P) (required P) \<and> factories_succeed (objects P)"

abbreviation live_map :: "'d platform \<Rightarrow> 'd system \<Rightarrow> ptr \<Rightarrow> ptr option" where
  "live_map P y \<equiv> mapped_view (objects P) (mappings y)"

text \<open>The references the resource manager's calls should have left.\<close>

definition pages_own :: "priv_data list \<Rightarrow> ptr \<Rightarrow> int" where
  "pages_own ps x = (\<Sum>p \<leftarrow> ps. holds_object p x)"

definition sys_inv :: "'d platform \<Rightarrow> 'd system \<Rightarrow> bool" where
  "sys_inv P y \<longleftrightarrow>
     stage_inv (library_of P) (phase_of y) (driver y) \<and>
     (phase_of y \<in> {At Fresh, At Ready} \<longrightarrow> \<not> rm_runs y) \<and>
     mirrors (objects P) (mappings y) (live_map P y) \<and>
     (\<forall>p \<in> set (pages_held y). is_descriptor p) \<and>
     (\<forall>x. balance (rm_refs y) x = mapped_times (live_map P y) x + pages_own (pages_held y) x) \<and>
     holds_only (objects P) masked_number (tracker y)"

lemma sys_invD:
  assumes "sys_inv P y"
  shows "stage_inv (library_of P) (phase_of y) (driver y)"
    and "phase_of y \<in> {At Fresh, At Ready} \<Longrightarrow> \<not> rm_runs y"
    and "mirrors (objects P) (mappings y) (live_map P y)"
    and "\<forall>p \<in> set (pages_held y). is_descriptor p"
    and "balance (rm_refs y) x = mapped_times (live_map P y) x + pages_own (pages_held y) x"
    and "holds_only (objects P) masked_number (tracker y)"
  using assms by (simp_all add: sys_inv_def del: stage_inv.simps)

text \<open>It does not depend on which step of the framework is made.\<close>

lemma sys_inv_framework:
  assumes "sys_inv P y" and "kit_stage (library_of P) (phase_of y) (driver y) ph s"
    and "ph \<in> {At Fresh, At Ready} \<Longrightarrow> RmInitRm \<notin> set (calls_made s)"
  shows "sys_inv P (y\<lparr>phase_of := ph, driver := s\<rparr>)"
  using assms stage_inv_step [OF assms(2)] by (simp add: sys_inv_def rm_runs_def del: stage_inv.simps)

lemma stage_before_start:
  assumes "kit_stage R ph s ph' s'" and "ph' \<in> {At Fresh, At Ready}"
  shows "calls_made s' = calls_made s \<and> ph = At Fresh"
  using assms by (cases rule: kit_stage.cases)
    (auto simp: PCIHorrorKit_init_def service_defs split: if_splits)

text \<open>The calls on one component leave the others.\<close>

lemma sys_inv_refs:
  assumes "sys_inv P y" and "mirrors (objects P) d (mapped_view (objects P) d)"
    and "\<forall>p \<in> set ps. is_descriptor p"
    and "\<And>x. balance evs x = mapped_times (mapped_view (objects P) d) x - mapped_times (live_map P y) x
      + pages_own ps x - pages_own (pages_held y) x"
  shows "sys_inv P (y\<lparr>mappings := d, pages_held := ps, rm_refs := rm_refs y @ evs\<rparr>)"
  using assms by (simp add: sys_inv_def rm_runs_def del: stage_inv.simps)

lemma kit_inv_state:
  assumes "kit_inv R ph s" and "ph \<notin> {Fresh, Ready}" and "nvd_state s = Some (a, st)"
    and "device st' = device st"
  shows "kit_inv R ph (s\<lparr>nvd_state := Some (a, st')\<rparr>)"
  using assms by (cases ph) (auto simp: rm_starts_def started_refs_def)

lemma stage_inv_state:
  assumes "stage_inv R ph s" and "ph \<notin> {At Fresh, At Ready}" and "nvd_state s = Some (a, st)"
    and "device st' = device st"
  shows "stage_inv R ph (s\<lparr>nvd_state := Some (a, st')\<rparr>)"
proof (cases ph)
  case (At p)
  with assms kit_inv_state [of R p s a st st'] show ?thesis by simp
next
  case Initialised
  with assms show ?thesis by (auto simp: rm_starts_def)
next
  case Attached
  with assms kit_inv_state [of R Running s a st st'] show ?thesis by simp
qed

lemma sys_inv_state:
  assumes "sys_inv P y" and "rm_runs y" and "nvd_state (driver y) = Some (a, st)"
    and "device st' = device st"
  shows "sys_inv P (y\<lparr>driver := (driver y)\<lparr>nvd_state := Some (a, st')\<rparr>\<rparr>)"
proof -
  have "phase_of y \<notin> {At Fresh, At Ready}" using assms(1,2) sys_invD(2) by blast
  from stage_inv_state [OF sys_invD(1) [OF assms(1)] this assms(3,4)] assms(1) show ?thesis
    by (simp add: sys_inv_def rm_runs_def del: stage_inv.simps)
qed

lemma usable_map: "usable y (RmMap a) \<Longrightarrow> good_op (maps_dk nvd) (MapOp a)"
  by (cases a) (auto simp: good_op_def split: if_splits)

lemma map_call_inv:
  assumes "sound_platform P" and "sys_inv P y" and "good_op (maps_dk nvd) op"
    and run: "map_run (request_dk (objects P) (modes_of P) (caches_of P) nvd)
      (os_unmap_kernel_space_dk (objects P) (required P)) (mappings y) [op] = Done (d, evs)"
  shows "sys_inv P (y\<lparr>mappings := d, rm_refs := rm_refs y @ evs\<rparr>)"
proof -
  have sys: "mapping_system (objects P) (required P)" using assms(1) by (simp add: sound_platform_def)
  note view = mapping_system.dk_view_step [OF sys sys_invD(3) [OF assms(2)] assms(3) run]
  from sys_inv_refs [OF assms(2) view(1) sys_invD(4) [OF assms(2)], of evs] view(2)
  show ?thesis by simp
qed

lemma page_call_inv:
  assumes "sys_inv P y"
    and run: "page_run (alloc_dk dir) free_dk (pages_held y) ops = Done (live, freed, evs)"
  shows "sys_inv P (y\<lparr>pages_held := live, rm_refs := rm_refs y @ evs\<rparr>)"
proof -
  note desc = sys_invD(4) [OF assms(1)]
  from pages_dk.run_freed [OF desc run] have "(\<Sum>p \<leftarrow> freed. leaves_object p x) = 0" for x
    by (induction freed) (auto simp: is_descriptor_def)
  with pages_dk.run_balance [OF desc run]
  have bal: "balance evs x = pages_own live x - pages_own (pages_held y) x" for x
    by (simp add: pages_own_def)
  have live: "\<forall>p \<in> set live. is_descriptor p" using pages_dk.run_balance [OF desc run] by blast
  from sys_inv_refs [OF assms(1) sys_invD(3) [OF assms(1)] live, of evs] bal show ?thesis by simp
qed

lemma mem_call_typed:
  assumes "sound_platform P" and "sys_inv P y"
  shows "\<exists>d cs. libc_run (objects P) (tracker y) [op] = Done (d, cs) \<and>
    holds_only (objects P) masked_number d"
proof -
  from assms(1) have "libkern_objects (objects P)"
    by (simp add: sound_platform_def mapping_system_def)
  from libkern_objects.libc_run_typed [OF this sys_invD(6) [OF assms(2)], of "[op]"] show ?thesis
    by blast
qed

lemma mem_call_inv:
  assumes "sound_platform P" and "sys_inv P y"
    and "libc_run (objects P) (tracker y) [op] = Done (d, cs)"
  shows "sys_inv P (y\<lparr>tracker := d, heap_log := heap_log y @ cs\<rparr>)"
  using assms mem_call_typed [OF assms(1,2), of op]
  by (auto simp: sys_inv_def rm_runs_def simp del: stage_inv.simps libc_run.simps)

lemma sys_inv_rm:
  assumes "sound_platform P" and "sys_inv P y" and "rm_runs y" and "usable y c"
    and "rm_step P y c = Done y'"
  shows "sys_inv P y'"
proof (cases c)
  case (RmMem op)
  with assms(5) obtain d cs where "libc_run (objects P) (tracker y) [op] = Done (d, cs)"
    "y' = y\<lparr>tracker := d, heap_log := heap_log y @ cs\<rparr>"
    by (auto simp del: libc_run.simps split: outcome.splits)
  with mem_call_inv [OF assms(1,2)] show ?thesis by simp
next
  case (RmMap a)
  with assms(5) obtain d evs where d: "request_dk (objects P) (modes_of P) (caches_of P)
      (nvd_state (driver y)) (mappings y) a = Done (d, evs)"
    "y' = y\<lparr>mappings := d, rm_refs := rm_refs y @ evs\<rparr>"
    by (auto simp: with_refs_def simp del: request_dk.simps split: outcome.splits)
  from usable_map assms(4) RmMap have "good_op (maps_dk (nvd_state (driver y))) (MapOp a)" by blast
  from map_call_inv [OF assms(1,2) this, of d evs] d show ?thesis by simp
next
  case (RmUnmap p sz)
  with assms(5) obtain d evs where d: "os_unmap_kernel_space_dk (objects P) (required P)
      (mappings y) p sz = Done (d, evs)" "y' = y\<lparr>mappings := d, rm_refs := rm_refs y @ evs\<rparr>"
    by (auto simp: with_refs_def split: outcome.splits)
  have "good_op (maps_dk (nvd_state (driver y))) (UnmapOp p sz)"
    using assms(4) RmUnmap by (simp add: good_op_def)
  from map_call_inv [OF assms(1,2) this, of d evs] d show ?thesis by simp
next
  case (RmAllocPages q)
  with assms(5) obtain live freed evs where
    "page_run (alloc_dk (direction P)) free_dk (pages_held y) [AllocPages q] = Done (live, freed, evs)"
    "y' = y\<lparr>pages_held := live, rm_refs := rm_refs y @ evs\<rparr>"
    by (auto simp del: page_run.simps split: outcome.splits)
  with page_call_inv [OF assms(2)] show ?thesis by blast
next
  case (RmFreePages i)
  with assms(5) obtain live freed evs where
    "page_run (alloc_dk (direction P)) free_dk (pages_held y) [FreePages i] = Done (live, freed, evs)"
    "y' = y\<lparr>pages_held := live, rm_refs := rm_refs y @ evs\<rparr>"
    by (auto simp del: page_run.simps split: outcome.splits)
  with page_call_inv [OF assms(2)] show ?thesis by blast
next
  case (RmSetDmaSize bits)
  with assms(5) obtain a st where "nvd_state (driver y) = Some (a, st)"
    "y' = y\<lparr>driver := (driver y)\<lparr>nvd_state := Some (a, st\<lparr>dma_mask := push_bit (unat bits) 1 - 1\<rparr>)\<rparr>\<rparr>"
    by (auto simp: nv_set_dma_address_size_def split: outcome.splits option.splits if_splits)
  with sys_inv_state [OF assms(2,3)] show ?thesis by simp
next
  case (RmWriteState w)
  with assms(5) obtain a st where "nvd_state (driver y) = Some (a, st)"
    "y' = y\<lparr>driver := (driver y)\<lparr>nvd_state := Some (a, st\<lparr>nv_state_of := w (nv_state_of st)\<rparr>)\<rparr>\<rparr>"
    by (auto split: option.splits)
  with sys_inv_state [OF assms(2,3)] show ?thesis by simp
qed

lemma view_of_empty:
  "\<forall>k. get_object K d k = None \<Longrightarrow> mapped_view K d = Map.empty \<and> mirrors K d Map.empty"
  by (auto simp: mapped_view_def block_view_def mirrors_def reg_find_def)

lemma sys_inv_boot:
  assumes "phase_of y = At Fresh" and "pristine (driver y)"
    and "\<forall>k. get_object (objects P) (tracker y) k = None"
    and "\<forall>k. get_object (objects P) (mappings y) k = None"
    and "pages_held y = []" and "rm_refs y = []"
  shows "sys_inv P y"
proof -
  note view = view_of_empty [OF assms(4)]
  have "\<not> rm_runs y" using assms(2) by (simp add: rm_runs_def pristine_def)
  moreover have "mapped_times (live_map P y) x = 0" for x
    using view by (simp add: mapped_times_empty)
  moreover have "holds_only (objects P) masked_number (tracker y)"
    using assms(3) by (simp add: holds_only_def)
  moreover have "stage_inv (library_of P) (phase_of y) (driver y)"
    using kit_inv_fresh [OF assms(2)] assms(1) by simp
  ultimately show ?thesis
    unfolding sys_inv_def pages_own_def using view
    by (simp add: assms(1,5,6) del: stage_inv.simps)
qed

lemma sys_reach_inv:
  assumes "sound_platform P"
  shows "sys_reach P y \<Longrightarrow> sys_inv P y"
proof (induction rule: sys_reach.induct)
  case (boot y)
  from sys_inv_boot [OF boot(1-6)] show ?case .
next
  case (framework y ph s)
  show ?case
  proof (rule sys_inv_framework [OF framework.IH framework.hyps(2)])
    assume "ph \<in> {At Fresh, At Ready}"
    from stage_before_start [OF framework.hyps(2) this] sys_invD(2) [OF framework.IH]
    show "RmInitRm \<notin> set (calls_made s)" by (simp add: rm_runs_def)
  qed
next
  case (resource_manager y c y')
  from sys_inv_rm [OF assms resource_manager.IH resource_manager.hyps(2-4)] show ?case .
qed

section \<open>Calls that return\<close>

lemma unmap_returns:
  assumes "sound_platform P" and "sys_inv P y" and "block_pointer p"
  shows "\<exists>d evs. os_unmap_kernel_space_dk (objects P) (required P) (mappings y) p sz = Done (d, evs)"
proof -
  from assms(1) have sys: "mapping_system (objects P) (required P)" by (simp add: sound_platform_def)
  from mapping_system.dk_unmap_step [OF sys sys_invD(3) [OF assms(2)] assms(3)] show ?thesis by blast
qed

section \<open>From start to mapping\<close>

lemma find_bar_started:
  assumes "k < length bs" and "k < 255" and "cpu_address (bs ! k) = a"
    and "\<forall>j < k. cpu_address (bs ! j) \<noteq> a"
  shows "find_bar a bs 0 = of_nat k \<and> find_bar a bs 0 \<noteq> 0xFF"
proof -
  have found: "find_bar a bs 0 = of_nat k" using find_bar_first [OF assms(1,3,4), of 0] by simp
  have "unat (of_nat k :: u8) = k" using assms(2) by (simp add: unat_of_nat)
  then have "(of_nat k :: u8) \<noteq> 0xFF" using assms(2) by auto
  with found show ?thesis by simp
qed

text \<open>
  After a successful start, with a resource manager that leaves the BARs alone, a BAR is found
  by its raw register, and by nothing else.
\<close>

lemma start_finds_bars:
  assumes "PCIHorrorKit_Start_Impl R E s = Done (KERN_SUCCESS, s')"
    and "nvd_state s = Some (a, zero_state R)"
    and "\<forall>nv. bars (snd (rm_start R nv)) = bars nv"
    and "NV_GPU_NUM_BARS R \<le> NVRM_PCICFG_NUM_BARS R" and "NV_GPU_NUM_BARS R < 255"
  obtains st where "nvd_state s' = Some (a, st)" and "device st \<noteq> NULL" and "service st = this_service E"
    and "\<And>k. k < NV_GPU_NUM_BARS R \<Longrightarrow>
      \<forall>j < k. cfg32 E (bar_register j) \<noteq> cfg32 E (bar_register k) \<Longrightarrow>
      find_bar (ucast (cfg32 E (bar_register k))) (bars (nv_state_of st)) 0 = of_nat k \<and>
      find_bar (ucast (cfg32 E (bar_register k))) (bars (nv_state_of st)) 0 \<noteq> 0xFF"
    and "\<And>v. \<forall>j < NV_GPU_NUM_BARS R. cfg32 E (bar_register j) \<noteq> v \<Longrightarrow>
      find_bar (ucast v) (bars (nv_state_of st)) 0 = 0xFF"
proof -
  obtain nv st where st: "nvd_state s' = Some (a, st)" "nv_state_of st = snd (rm_start R nv)"
      "device st \<noteq> NULL" "service st = this_service E"
    and nv: "length (bars nv) = NV_GPU_NUM_BARS R"
      "\<forall>k < min (NVRM_PCICFG_NUM_BARS R) (NV_GPU_NUM_BARS R).
         cpu_address (bars nv ! k) = ucast (cfg32 E (bar_register k))"
    using start_effect [OF assms(1) refl assms(2)] by blast
  let ?bs = "bars (nv_state_of st)"
  have len: "length ?bs = NV_GPU_NUM_BARS R"
    and addr: "cpu_address (?bs ! j) = ucast (cfg32 E (bar_register j))" if "j < NV_GPU_NUM_BARS R" for j
    using nv assms(3,4) that by (simp_all add: st(2))
  have ucast_inj: "(ucast (x :: u32) :: u64) = ucast y \<longleftrightarrow> x = y" for x y
    by (metis unat_ucast_u32_u64 word_unat_eq_iff)
  have len0: "length ?bs = NV_GPU_NUM_BARS R" using nv(1) assms(3) by (simp add: st(2))
  show thesis
  proof (rule that [OF st(1,3,4)])
    fix k assume "k < NV_GPU_NUM_BARS R" "\<forall>j < k. cfg32 E (bar_register j) \<noteq> cfg32 E (bar_register k)"
    then show "find_bar (ucast (cfg32 E (bar_register k))) ?bs 0 = of_nat k \<and>
        find_bar (ucast (cfg32 E (bar_register k))) ?bs 0 \<noteq> 0xFF"
      using assms(5) len addr by (intro find_bar_started) (auto simp: ucast_inj)
  next
    fix v assume "\<forall>j < NV_GPU_NUM_BARS R. cfg32 E (bar_register j) \<noteq> v"
    then have "\<forall>b \<in> set ?bs. cpu_address b \<noteq> ucast v"
      using addr len0 by (auto simp: in_set_conv_nth ucast_inj)
    then show "find_bar (ucast v) ?bs 0 = 0xFF" by (rule find_bar_absent)
  qed
qed

section \<open>A start that succeeds\<close>

lemma start_success_stages:
  assumes "PCIHorrorKit_Start_Impl R E s = Done (KERN_SUCCESS, s')"
  obtains s1 s2 where "start_begin E s = Done (None, s1)" and "start_attach R E s1 = Done (None, s2)"
    and "s' = enter_rm R s2"
proof -
  have not_begun: "r \<noteq> Some KERN_SUCCESS" if "start_begin E s = Done (r, s1)" for r s1
    using that by (auto simp: start_begin_def give_up_stage_def give_up_def Let_def
        split: if_splits outcome.splits option.splits)
  have attach: "r \<noteq> Some KERN_SUCCESS" if "start_attach R E s1 = Done (r, s2)" for r s1 s2
    using that by (auto simp: start_attach_def give_up_stage_def give_up_def kIOReturnNoDevice_def
        KERN_SUCCESS_def split: if_splits outcome.splits option.splits)
  from assms not_begun attach that show thesis
    unfolding start_in_stages by (auto split: outcome.splits option.splits prod.splits)
qed

text \<open>The whole of \<open>Start\<close>, with the entry points as it calls them, is one of the system's runs.\<close>

lemma start_reached:
  assumes "sys_reach P y" and "phase_of y = At Ready"
    and "PCIHorrorKit_Start_Impl (library_of P) E (driver y) = Done (KERN_SUCCESS, s')"
    and bars: "\<forall>nv. length (bars (snd (rm_start (library_of P) nv))) = length (bars nv)"
    and "nvd_state (driver y) = Some (a, st)" and "device st = NULL"
  shows "sys_reach P (y\<lparr>phase_of := At Running, driver := s'\<rparr>) \<and> RmInitRm \<in> set (calls_made s')"
proof -
  let ?R = "library_of P" and ?w = "\<lambda>nv. snd (rm_start (library_of P) nv)"
  from assms(3) obtain s1 s2 where s1: "start_begin E (driver y) = Done (None, s1)"
    and s2: "start_attach ?R E s1 = Done (None, s2)" and s': "s' = enter_rm ?R s2"
    by (rule start_success_stages)
  let ?y1 = "y\<lparr>phase_of := Initialised, driver := s1\<rparr>"
  let ?y2 = "?y1\<lparr>phase_of := Attached, driver := s2\<rparr>"
  have y1: "sys_reach P ?y1"
    using sys_reach.framework [OF assms(1), of Initialised s1] kit_stage.begun [OF s1] assms(2) by simp
  have y2: "sys_reach P ?y2"
    using sys_reach.framework [OF y1, of Attached s2] kit_stage.attached [OF s2] by simp
  from begin_effect [OF s1 assms(5,6)] obtain st1 where st1: "nvd_state s1 = Some (a, st1)"
    "RmInitRm \<in> set (calls_made s1)" by auto
  from kit_stage.attached [OF s2] have "set (calls_made s1) \<subseteq> set (calls_made s2)" by (rule stage_calls)
  with st1(2) have runs: "RmInitRm \<in> set (calls_made s2)" by blast
  from s2 st1(1) obtain st2 where st2: "nvd_state s2 = Some (a, st2)"
    by (auto simp: start_attach_def give_up_stage_def give_up_def service_defs
        split: if_splits outcome.splits dest!: place_device_done)
  have "rm_step P ?y2 (RmWriteState ?w) = Done (?y2\<lparr>driver := s'\<rparr>)"
    using st2 by (simp add: s' enter_rm_def)
  moreover have "usable ?y2 (RmWriteState ?w)" using bars by simp
  ultimately have y3: "sys_reach P (?y2\<lparr>driver := s'\<rparr>)"
    using sys_reach.resource_manager [OF y2, of "RmWriteState ?w"] runs by (simp add: rm_runs_def)
  from sys_reach.framework [OF y3, of "At Running" s'] kit_stage.returned [of ?R s'] runs
  show ?thesis by (simp add: s' enter_rm_def)
qed

section \<open>An example run\<close>

definition example_platform :: "(string \<Rightarrow> os_object option) platform" where
  "example_platform = \<lparr>objects = map_libkern, required = example_cast, modes_of = example_modes,
     caches_of = example_dk_cache, library_of = example_rm, direction = 3\<rparr>"

definition system_at :: "stage \<Rightarrow> service_state \<Rightarrow> (string \<Rightarrow> os_object option) system" where
  "system_at ph s = \<lparr>phase_of = ph, driver = s, tracker = Map.empty, mappings = Map.empty,
     pages_held = [], rm_refs = [], heap_log = []\<rparr>"

lemma example_platform_sound: "sound_platform example_platform"
  using map_system.mapping_system_axioms map_libkern_factories
  by (simp add: sound_platform_def example_platform_def)

lemma system_at_step:
  assumes "sys_reach example_platform (system_at ph s)" and "kit_stage example_rm ph s ph' s'"
  shows "sys_reach example_platform (system_at ph' s')"
  using sys_reach.framework [OF assms(1), of ph' s'] assms(2)
  by (simp add: system_at_def example_platform_def)

lemma example_ready: "sys_reach example_platform (system_at (At Ready) ready_state)"
proof -
  have "sys_reach example_platform (system_at (At Fresh) fresh_state)"
    by (rule sys_reach.boot) (simp_all add: system_at_def pristine_def fresh_state_def
        example_platform_def map_libkern_empty)
  from system_at_step [OF this kit_stage.inited [OF example_init]] show ?thesis .
qed

lemma example_running:
  obtains s where "sys_reach example_platform (system_at (At Running) s)"
    and "RmInitRm \<in> set (calls_made s)"
    and "PCIHorrorKit_Start_Impl example_rm example_kit ready_state = Done (KERN_SUCCESS, s)"
proof -
  obtain s where s: "PCIHorrorKit_Start_Impl example_rm example_kit ready_state =
      Done (KERN_SUCCESS, s)" using example_start by blast
  from start_reached [OF example_ready, of example_kit s "0x100" "zero_state example_rm"] s
  have "sys_reach example_platform (system_at (At Running) s) \<and> RmInitRm \<in> set (calls_made s)"
    by (simp add: system_at_def example_platform_def ready_state_def rm_start_def example_rm_def)
  with s that show ?thesis by blast
qed

text \<open>From any running driver: a stop and a free.\<close>

lemma stop_free_steps:
  assumes "nvd_state s = Some (a, st)"
  obtains s2 s3 where "kit_stage R (At Running) s (At Halted) s2"
    and "kit_stage R (At Halted) s2 (At Gone) s3"
    and "nvd_state s2 = Some (a, st\<lparr>device := NULL\<rparr>)" and "nvd_state s3 = None"
    and "set (calls_made s) \<subseteq> set (calls_made s2)" and "set (calls_made s) \<subseteq> set (calls_made s3)"
proof -
  from Stop_Impl_state [OF assms, of example_kit] obtain r s2 where
    stop: "PCIHorrorKit_Stop_Impl example_kit s = Done (r, s2)"
      "nvd_state s2 = Some (a, st\<lparr>device := NULL\<rparr>)" by auto
  then obtain s3 where free: "PCIHorrorKit_free s2 = Done s3" "nvd_state s3 = None"
    by (auto simp: PCIHorrorKit_free_def service_defs)
  have steps: "kit_stage R (At Running) s (At Halted) s2" "kit_stage R (At Halted) s2 (At Gone) s3"
    by (rule kit_stage.stopped [OF _ stop(1)] kit_stage.freed [OF _ free(1)], simp)+
  with stage_calls [OF steps(1)] stage_calls [OF steps(2)] that stop(2) free(2) show ?thesis by blast
qed

lemma example_bar_found:
  assumes "PCIHorrorKit_Start_Impl example_rm example_kit ready_state = Done (KERN_SUCCESS, s)"
  obtains st where "nvd_state s = Some (0x100, st)" and "device st \<noteq> NULL"
    and "find_bar 0xE000000C (bars (nv_state_of st)) 0 \<noteq> 0xFF"
    and "\<exists>nv. RmStart nv \<in> set (calls_made s) \<and> handle_of nv = 0x300"
proof -
  have env: "nvd_state ready_state = Some (0x100, zero_state example_rm)"
    "\<forall>nv. bars (snd (rm_start example_rm nv)) = bars nv"
    "NV_GPU_NUM_BARS example_rm \<le> NVRM_PCICFG_NUM_BARS example_rm"
    "NV_GPU_NUM_BARS example_rm < 255" "1 < NV_GPU_NUM_BARS example_rm"
    "\<forall>j < 1. cfg32 example_kit (bar_register j) \<noteq> cfg32 example_kit (bar_register 1)"
    "ucast (cfg32 example_kit (bar_register 1)) = (0xE000000C :: u64)"
    "provider_device example_kit = 0x300"
    by (simp_all add: ready_state_def example_rm_def rm_start_def example_kit_def bar_register_def)
  have nv: "\<exists>nv. RmStart nv \<in> set (calls_made s) \<and> handle_of nv = 0x300"
    using start_effect [OF assms refl env(1)] env(8) by auto
  from assms env(1-4) show thesis
    by (rule start_finds_bars) (use that nv env(5-7) in metis)
qed

end
