(* ===== verification/SystemProps.thy ===== *)
theory SystemProps
  imports System
begin

text \<open>
  Properties of the DriverKit system: the BARs that can be mapped once the driver has started,
  which calls of the resource manager return, the references that are held at any moment, and
  the simulation of an abstract system of live blocks, mappings and page allocations.
\<close>

section \<open>The abstract system\<close>

text \<open>
  What the calls of the resource manager mean: the live blocks with the sizes kept of them, the
  mapped addresses with their objects, the live page allocations.
\<close>

record abstract_system =
  live_blocks :: "ptr \<Rightarrow> u64 option"
  live_mappings :: "ptr \<Rightarrow> ptr option"
  live_pages :: "priv_data list"

definition abs_of :: "'d platform \<Rightarrow> 'd system \<Rightarrow> abstract_system" where
  "abs_of P y =
     \<lparr>live_blocks = (\<lambda>p. Option.bind (block_view (objects P) (tracker y) p) number_of),
      live_mappings = live_map P y,
      live_pages = pages_held y\<rparr>"

fun abs_step :: "nvd_pointer \<Rightarrow> abstract_system \<Rightarrow> dk_call \<Rightarrow> abstract_system" where
  "abs_step nvd z (RmMem (AllocMem n p)) =
     (if p = NULL then z else z\<lparr>live_blocks := (live_blocks z)(p \<mapsto> tracked_size n)\<rparr>)"
| "abs_step nvd z (RmMem (FreeMem p)) = z\<lparr>live_blocks := (live_blocks z)(p := None)\<rparr>"
| "abs_step nvd z (RmMap (ans, start, _)) =
     (if dk_maps nvd ans start
      then z\<lparr>live_mappings := (live_mappings z)(mapping_address ans \<mapsto> mapping_object ans)\<rparr>
      else z)"
| "abs_step nvd z (RmUnmap p _) = z\<lparr>live_mappings := (live_mappings z)(p := None)\<rparr>"
| "abs_step nvd z (RmAllocPages q) =
     (if buffer_result (rq_buffer q) = KERN_SUCCESS
      then z\<lparr>live_pages := live_pages z @ [Descriptor (buffer_object (rq_buffer q))]\<rparr>
      else z)"
| "abs_step nvd z (RmFreePages i) =
     (if i < length (live_pages z) then z\<lparr>live_pages := without i (live_pages z)\<rparr> else z)"
| "abs_step nvd z (RmSetDmaSize _) = z"
| "abs_step nvd z (RmWriteState _) = z"

text \<open>The calls to \<open>IOMallocZero\<close> and \<open>IOFree\<close>.\<close>

fun abs_heap :: "abstract_system \<Rightarrow> dk_call \<Rightarrow> heap_call list" where
  "abs_heap z (RmMem (AllocMem n p)) = [IOMallocZero n p]"
| "abs_heap z (RmMem (FreeMem p)) =
     (case live_blocks z p of None \<Rightarrow> [] | Some n \<Rightarrow> [IOFree p n])"
| "abs_heap z _ = []"

lemma view_bind_put:
  "(\<lambda>q. Option.bind ((v(p \<mapsto> w)) q) f) = (\<lambda>q. Option.bind (v q) f)(p := f w)"
  "(\<lambda>q. Option.bind ((v(p := None)) q) f) = (\<lambda>q. Option.bind (v q) f)(p := None)"
  by auto

lemma abs_mem:
  assumes "sound_platform P" and "sys_inv P y" and "block_pointer (mem_op_ptr op)"
    and "rm_step P y (RmMem op) = Done y'"
  shows "abs_of P y' = abs_step nvd (abs_of P y) (RmMem op) \<and>
    heap_log y' = heap_log y @ abs_heap (abs_of P y) (RmMem op)"
proof -
  from assms(1) have K: "libkern_objects (objects P)" and F: "factories_succeed (objects P)"
    by (simp_all add: sound_platform_def mapping_system_def)
  note put = libkern_objects.block_view_put [OF K] and del = libkern_objects.block_view_del [OF K]
  show ?thesis
  proof (cases op)
    case (AllocMem n p)
    show ?thesis
    proof (cases "p = NULL")
      case True
      with assms(4) AllocMem show ?thesis by (auto simp: os_alloc_mem_def abs_of_def)
    next
      case False
      with assms(3,4) AllocMem put [of p] show ?thesis
        by (auto simp: libkern_objects.os_alloc_mem_registry [OF K F] abs_of_def view_bind_put)
    qed
  next
    case (FreeMem p)
    with assms(3) have p: "block_pointer p" by simp
    show ?thesis
    proof (cases "reg_find (objects P) (tracker y) p")
      case None
      with assms(4) FreeMem p show ?thesis
        by (auto simp: libkern_objects.os_free_mem_registry [OF K F] abs_of_def block_view_def)
    next
      case (Some v)
      with holds_onlyD [OF sys_invD(6) [OF assms(2)]] obtain n where "v = OSNumber n"
        by (auto simp: reg_find_def masked_number_def)
      with Some assms(4) FreeMem p del [OF p] show ?thesis
        by (auto simp: libkern_objects.os_free_mem_registry [OF K F] abs_of_def view_bind_put
            block_view_def [of _ _ p])
    qed
  qed
qed

lemma abs_maps:
  assumes "sound_platform P" and "sys_inv P y"
    and good: "good_op (maps_dk (nvd_state (driver y))) op"
    and run: "map_run (request_dk (objects P) (modes_of P) (caches_of P) (nvd_state (driver y)))
      (os_unmap_kernel_space_dk (objects P) (required P)) (mappings y) [op] = Done (d, evs)"
  shows "map_spec (maps_dk (nvd_state (driver y))) (live_map P y) [op] =
    Done (mapped_view (objects P) d)"
proof -
  from assms(1) have sys: "mapping_system (objects P) (required P)" by (simp add: sound_platform_def)
  have "\<forall>op \<in> set [op]. good_op (maps_dk (nvd_state (driver y))) op" using good by simp
  from mapping_system.dk_run_simulates [OF sys sys_invD(3) [OF assms(2)] this,
      where M = "modes_of P" and C = "caches_of P"] run
  obtain live where live: "map_spec (maps_dk (nvd_state (driver y))) (live_map P y) [op] = Done live"
    "mirrors (objects P) d live"
    by (auto simp del: map_run.simps map_spec.simps split: outcome.splits)
  have blocks: "\<forall>p. live_map P y p \<noteq> None \<longrightarrow> block_pointer p"
    by (simp add: mapped_view_def block_view_def)
  from mapped_view_mirrors [OF live(2) mapping_system.dk_spec_blocks [OF sys blocks good live(1)]]
    live(1) show ?thesis by simp
qed

section \<open>Properties\<close>

text \<open>
  C11. The BARs \<open>Start\<close> describes are the ones \<open>os_map_kernel_space\<close> serves: with a resource
  manager that leaves the BARs alone, mapping the recorded address of BAR \<open>k\<close> (when it is the
  first with that register) asks the device for memory \<open>k\<close>.  The recorded address is the raw
  register, so when the registers carry flag bits, as those of 64-bit or prefetchable BARs do,
  a mapping of the address the BAR really has is refused.
\<close>

theorem started_device_maps:
  assumes "PCIHorrorKit_Start_Impl R E s = Done (KERN_SUCCESS, s')"
    and "nvd_state s = Some (a, zero_state R)"
    and "\<forall>nv. bars (snd (rm_start R nv)) = bars nv"
    and "NV_GPU_NUM_BARS R \<le> NVRM_PCICFG_NUM_BARS R" and "NV_GPU_NUM_BARS R < 255"
    and "k < NV_GPU_NUM_BARS R"
    and "\<forall>j < k. cfg32 E (bar_register j) \<noteq> cfg32 E (bar_register k)"
  shows "(\<exists>r more. os_map_kernel_space_dk K M C (nvd_state s') d ans
        (ucast (cfg32 E (bar_register k))) sz mode = Done r \<and>
      map_calls r = CopyDeviceMemory (of_nat k) (this_service E) # more) \<and>
    ((\<forall>j < NV_GPU_NUM_BARS R. cfg32 E (bar_register j) AND 0xF \<noteq> 0) \<longrightarrow>
      os_map_kernel_space_dk K M C (nvd_state s') d ans
        (ucast (cfg32 E (bar_register k) AND NOT 0xF)) sz mode =
      Done \<lparr>mapped_at = NULL, new_dict = d, ref_events = [], map_calls = []\<rparr>)"
proof -
  from assms(1-5) obtain st where st: "nvd_state s' = Some (a, st)" "device st \<noteq> NULL"
      "service st = this_service E"
    and found: "find_bar (ucast (cfg32 E (bar_register k))) (bars (nv_state_of st)) 0 = of_nat k \<and>
      find_bar (ucast (cfg32 E (bar_register k))) (bars (nv_state_of st)) 0 \<noteq> 0xFF"
    and absent: "\<And>v. \<forall>j < NV_GPU_NUM_BARS R. cfg32 E (bar_register j) \<noteq> v \<Longrightarrow>
      find_bar (ucast v) (bars (nv_state_of st)) 0 = 0xFF"
    by (rule start_finds_bars) (use assms(6,7) in blast)
  have mapped: "\<exists>r more. os_map_kernel_space_dk K M C (nvd_state s') d ans
      (ucast (cfg32 E (bar_register k))) sz mode = Done r \<and>
      map_calls r = CopyDeviceMemory (of_nat k) (this_service E) # more"
    using st found by (auto simp: os_map_kernel_space_dk_def Let_def)
  have "os_map_kernel_space_dk K M C (nvd_state s') d ans
      (ucast (cfg32 E (bar_register k) AND NOT 0xF)) sz mode =
      Done \<lparr>mapped_at = NULL, new_dict = d, ref_events = [], map_calls = []\<rparr>"
    if flags: "\<forall>j < NV_GPU_NUM_BARS R. cfg32 E (bar_register j) AND 0xF \<noteq> 0"
  proof -
    have "cfg32 E (bar_register j) \<noteq> cfg32 E (bar_register k) AND NOT 0xF"
      if "j < NV_GPU_NUM_BARS R" for j
    proof
      assume "cfg32 E (bar_register j) = cfg32 E (bar_register k) AND NOT 0xF"
      then have "cfg32 E (bar_register j) AND 0xF = 0" by (simp add: and.assoc)
      with that flags show False by blast
    qed
    with absent show ?thesis by (simp add: os_map_kernel_space_dk_def st(1))
  qed
  with mapped show ?thesis by blast
qed

theorem started_device_maps_witness:
  "\<exists>s' r more. PCIHorrorKit_Start_Impl example_rm example_kit ready_state = Done (KERN_SUCCESS, s') \<and>
     os_map_kernel_space_dk map_libkern example_modes example_dk_cache (nvd_state s') Map.empty
       example_answers 0xE000000C 0x1000 0 = Done r \<and>
     map_calls r = CopyDeviceMemory 1 0x200 # more"
proof -
  obtain s' where run: "PCIHorrorKit_Start_Impl example_rm example_kit ready_state =
      Done (KERN_SUCCESS, s')" using example_start by blast
  have "nvd_state ready_state = Some (0x100, zero_state example_rm)"
    and "\<forall>nv. bars (snd (rm_start example_rm nv)) = bars nv"
    and "NV_GPU_NUM_BARS example_rm \<le> NVRM_PCICFG_NUM_BARS example_rm"
    and "NV_GPU_NUM_BARS example_rm < 255" and "1 < NV_GPU_NUM_BARS example_rm"
    and "\<forall>j < 1. cfg32 example_kit (bar_register j) \<noteq> cfg32 example_kit (bar_register 1)"
    by (simp_all add: ready_state_def example_rm_def rm_start_def example_kit_def bar_register_def)
  from started_device_maps [OF run this, of map_libkern example_modes example_dk_cache Map.empty
      example_answers "0x1000" 0] run
  show ?thesis by (fastforce simp: example_kit_def bar_register_def)
qed

lemma rm_calls_return_iff_fact:
  assumes "sound_platform P" and "sys_reach P y" and "rm_runs y" and "usable y c"
  shows "is_done (rm_step P y c) \<longleftrightarrow>
    (case c of
       RmMap (ans, start, _) \<Rightarrow> phase_of y \<in> {Attached, At Running} \<or>
         phase_of y \<in> {Initialised, At Halted} \<and> \<not> bar_found (nvd_state (driver y)) start
     | RmAllocPages q \<Rightarrow> is_done (alloc_dk (direction P) q)
     | RmSetDmaSize bits \<Rightarrow> unat bits < 64 \<and> phase_of y \<noteq> At Gone
     | RmWriteState _ \<Rightarrow> phase_of y \<noteq> At Gone
     | _ \<Rightarrow> True)"
proof -
  note inv = sys_reach_inv [OF assms(1,2)]
  have ph: "phase_of y \<in> {Initialised, Attached, At Running, At Halted, At Gone}"
    using sys_invD(2) [OF inv] assms(3)
    by (cases "phase_of y"; cases "case phase_of y of At p \<Rightarrow> p | _ \<Rightarrow> Fresh") auto
  note st = stage_state [OF sys_invD(1) [OF inv]]
  show ?thesis
  proof (cases c)
    case (RmMem op)
    with mem_call_typed [OF assms(1) inv, of op] show ?thesis by (auto simp del: libc_run.simps)
  next
    case (RmMap a)
    obtain ans start sz mode where a: "a = (ans, start, sz, mode)" by (metis surj_pair)
    have "is_done (rm_step P y c) \<longleftrightarrow>
        is_done (os_map_kernel_space_dk (objects P) (modes_of P) (caches_of P) (nvd_state (driver y))
          (mappings y) ans start sz mode)"
      by (simp add: RmMap a with_refs_def split: outcome.splits)
    then have "is_done (rm_step P y c) \<longleftrightarrow> \<not> map_faults (nvd_state (driver y)) start"
      by (simp only: map_dk_done_iff)
    with ph st a RmMap show ?thesis by (auto simp: map_faults_def)
  next
    case (RmUnmap p sz)
    with unmap_returns [OF assms(1) inv, of p sz] assms(4) show ?thesis by (auto simp: with_refs_def)
  next
    case (RmAllocPages q)
    then show ?thesis by (auto split: outcome.splits)
  next
    case (RmFreePages i)
    from pages_dk.run_returns [OF sys_invD(4) [OF inv], of "[FreePages i]" "direction P"] RmFreePages
    show ?thesis by (auto simp del: page_run.simps split: outcome.splits)
  next
    case (RmSetDmaSize bits)
    with ph st(1) show ?thesis
      by (auto simp: nv_set_dma_address_size_def split: option.splits)
  next
    case (RmWriteState w)
    with ph st(1) show ?thesis by (auto split: option.splits)
  qed
qed

text \<open>
  C3. Which calls of the resource manager fault, in every reachable state of the system.  The
  tracker, unmapping and freeing pages never do, in any phase.  Mapping works while the driver
  runs and already in the entry points \<open>Start\<close> calls; before it has attached its device, and
  after \<open>Stop\<close>, which clears the device but not the recorded BARs, a mapping of a recorded
  address dereferences \<open>NULL\<close>; after \<open>free\<close> so does every call that goes through the global
  state.  An allocation of pages faults only for its own reasons, whatever the phase.
\<close>

theorem rm_calls_return_iff:
  assumes "sound_platform P" and "sys_reach P y" and "rm_runs y" and "usable y c"
  shows "is_done (rm_step P y c) \<longleftrightarrow>
    (case c of
       RmMap (ans, start, _) \<Rightarrow> phase_of y \<in> {Attached, At Running} \<or>
         phase_of y \<in> {Initialised, At Halted} \<and> \<not> bar_found (nvd_state (driver y)) start
     | RmAllocPages q \<Rightarrow> is_done (alloc_dk (direction P) q)
     | RmSetDmaSize bits \<Rightarrow> unat bits < 64 \<and> phase_of y \<noteq> At Gone
     | RmWriteState _ \<Rightarrow> phase_of y \<noteq> At Gone
     | _ \<Rightarrow> True)"
  using assms by (rule rm_calls_return_iff_fact)

text \<open>After a start and a stop, the BAR at \<open>0xE000000C\<close> can be asked for, and faults.\<close>

theorem rm_calls_return_iff_witness:
  "\<exists>y. sys_reach example_platform y \<and> phase_of y = At Halted \<and> rm_runs y \<and>
     \<not> is_done (rm_step example_platform y (RmMap (example_answers, 0xE000000C, 0x1000, 0))) \<and>
     is_done (rm_step example_platform y (RmUnmap 0x7000 0x1000))"
proof -
  obtain s where run: "sys_reach example_platform (system_at (At Running) s)"
    "RmInitRm \<in> set (calls_made s)"
    "PCIHorrorKit_Start_Impl example_rm example_kit ready_state = Done (KERN_SUCCESS, s)"
    by (rule example_running)
  from run(3) obtain st where st: "nvd_state s = Some (0x100, st)"
    "find_bar 0xE000000C (bars (nv_state_of st)) 0 \<noteq> 0xFF" by (rule example_bar_found)
  from st(1) obtain s2 where s2: "kit_stage example_rm (At Running) s (At Halted) s2"
    "nvd_state s2 = Some (0x100, st\<lparr>device := NULL\<rparr>)" "set (calls_made s) \<subseteq> set (calls_made s2)"
    by (rule stop_free_steps)
  let ?y = "system_at (At Halted) s2"
  have reach: "sys_reach example_platform ?y" by (rule system_at_step [OF run(1) s2(1)])
  have y: "rm_runs ?y" "phase_of ?y = At Halted" "bar_found (nvd_state (driver ?y)) 0xE000000C"
    using run(2) s2(2,3) st(2) by (auto simp: rm_runs_def system_at_def)
  have "usable ?y (RmMap (example_answers, 0xE000000C, 0x1000, 0))" "usable ?y (RmUnmap 0x7000 0x1000)"
    by (simp_all add: example_answers_def block_pointer_def canonical_def)
  with rm_calls_return_iff [OF example_platform_sound reach y(1)] y reach show ?thesis
    by (intro exI [of _ ?y]) (simp del: rm_step.simps)
qed

text \<open>
  C2. The references of the whole system, at any moment of any run, from the boot to after the
  driver is gone: one to the block of the state while it is the global state, one to each
  device that was started (also once it is stopped and the driver freed: \<open>Stop\<close> clears the
  pointer that \<open>free\<close> would release), one for each address an object is mapped at and one for
  each page allocation the resource manager still has.  Nothing the driver does gives back the
  last two.
\<close>

theorem system_references:
  assumes "sound_platform P" and "sys_reach P y"
  shows "balance (held (driver y) @ rm_refs y) x =
    (if \<exists>st. nvd_state (driver y) = Some (x, st) then 1 else 0) +
    (if \<exists>nv. RmStart nv \<in> set (calls_made (driver y)) \<and> handle_of nv = x then 1 else 0) +
    mapped_times (live_map P y) x +
    int (length (filter (\<lambda>p. p = Descriptor x) (pages_held y)))"
proof -
  note inv = sys_reach_inv [OF assms]
  have "pages_own ps x = int (length (filter (\<lambda>p. p = Descriptor x) ps))"
    if "\<forall>p \<in> set ps. is_descriptor p" for ps
    using that by (induction ps) (auto simp: pages_own_def is_descriptor_def split: if_splits)
  with sys_invD(4,5) [OF inv] stage_inv_balance [OF sys_invD(1) [OF inv]] show ?thesis by simp
qed

text \<open>A run that maps a BAR and then stops and frees the driver: the mapping and the device stay.\<close>

theorem system_references_witness:
  "\<exists>y. sys_reach example_platform y \<and> phase_of y = At Gone \<and> nvd_state (driver y) = None \<and>
     balance (held (driver y) @ rm_refs y) 0x300 = 1 \<and>
     balance (held (driver y) @ rm_refs y) 0x200 \<ge> 1"
proof -
  obtain s where run: "sys_reach example_platform (system_at (At Running) s)"
    "RmInitRm \<in> set (calls_made s)"
    "PCIHorrorKit_Start_Impl example_rm example_kit ready_state = Done (KERN_SUCCESS, s)"
    by (rule example_running)
  from run(3) obtain st where st: "nvd_state s = Some (0x100, st)" "device st \<noteq> NULL"
    "find_bar 0xE000000C (bars (nv_state_of st)) 0 \<noteq> 0xFF"
    and nv: "\<exists>nv. RmStart nv \<in> set (calls_made s) \<and> handle_of nv = 0x300"
    by (rule example_bar_found)
  let ?y = "system_at (At Running) s" and ?c = "RmMap (example_answers, 0xE000000C, 0x1000, 0)"
  have maps: "dk_maps (nvd_state s) example_answers 0xE000000C"
    using st by (simp add: dk_maps_def example_answers_def)
  from map_dk_mapped [OF this, of map_libkern example_modes example_dk_cache Map.empty "0x1000" 0]
  obtain evs where step: "rm_step example_platform ?y ?c = Done (?y\<lparr>mappings := reg_put map_libkern
      Map.empty 0x7000 (IOMemoryMapObject 0x200), rm_refs := evs\<rparr>)"
    by (auto simp: with_refs_def system_at_def example_platform_def example_answers_def)
  have "usable ?y ?c" "rm_runs ?y"
    using run(2) by (simp_all add: example_answers_def block_pointer_def canonical_def
        rm_runs_def system_at_def)
  from sys_reach.resource_manager [OF run(1) this(2,1) step] obtain y1 where
    y1: "sys_reach example_platform y1" "phase_of y1 = At Running" "driver y1 = s"
      "mappings y1 = reg_put map_libkern Map.empty 0x7000 (IOMemoryMapObject 0x200)" "pages_held y1 = []"
    by (auto simp: system_at_def)
  from st(1) obtain s2 s3 where s3: "kit_stage example_rm (At Running) s (At Halted) s2"
    "kit_stage example_rm (At Halted) s2 (At Gone) s3" "nvd_state s3 = None" "set (calls_made s) \<subseteq> set (calls_made s3)"
    by (rule stop_free_steps)
  have lib: "library_of example_platform = example_rm" by (simp add: example_platform_def)
  from sys_reach.framework [OF y1(1), of "At Halted" s2] s3(1) y1(2,3)
  have "sys_reach example_platform (y1\<lparr>phase_of := At Halted, driver := s2\<rparr>)" by (simp add: lib)
  from sys_reach.framework [OF this, of "At Gone" s3] s3(2)
  have reach: "sys_reach example_platform (y1\<lparr>phase_of := At Gone, driver := s3\<rparr>)" by (simp add: lib)
  have view: "mapped_view map_libkern (reg_put map_libkern Map.empty 0x7000 (IOMemoryMapObject 0x200)) =
      [0x7000 \<mapsto> 0x200]"
  proof -
    have "block_pointer 0x7000" by (simp add: block_pointer_def canonical_def)
    moreover have "block_view map_libkern Map.empty = Map.empty"
      by (simp add: block_view_def reg_find_def map_libkern_empty fun_eq_iff)
    ultimately show ?thesis
      by (auto simp: mapped_view_def map_libkern.block_view_put fun_eq_iff)
  qed
  have "mapped_times [0x7000 \<mapsto> 0x200] x = (if x = 0x200 then 1 else 0)" for x
    by (simp add: mapped_times_put mapped_times_empty)
  with system_references [OF example_platform_sound reach] nv s3(3,4) y1(4,5) view reach
  show ?thesis
    by (intro exI [of _ "y1\<lparr>phase_of := At Gone, driver := s3\<rparr>"]) (auto simp: example_platform_def)
qed

text \<open>
  The system simulates the abstract one: whatever phase the driver is in, each call of the
  resource manager changes the live blocks, mappings and page allocations as the abstract step
  says and makes the abstract step's calls to the kernel's allocator.  Whether a mapping is made
  is decided by the driver's state alone; no other call depends on it.
\<close>

lemma system_simulates:
  assumes "sound_platform P" and "sys_reach P y" and "usable y c"
    and "rm_step P y c = Done y'"
  shows "abs_of P y' = abs_step (nvd_state (driver y)) (abs_of P y) c \<and>
    heap_log y' = heap_log y @ abs_heap (abs_of P y) c"
proof -
  note inv = sys_reach_inv [OF assms(1,2)]
  show ?thesis
  proof (cases c)
    case (RmMem op)
    with assms abs_mem [OF assms(1) inv, of op] show ?thesis by simp
  next
    case (RmMap a)
    obtain ans start sz mode where a: "a = (ans, start, sz, mode)" by (metis surj_pair)
    from RmMap assms(4) obtain d evs where d: "request_dk (objects P) (modes_of P) (caches_of P)
        (nvd_state (driver y)) (mappings y) a = Done (d, evs)"
      "y' = y\<lparr>mappings := d, rm_refs := rm_refs y @ evs\<rparr>"
      by (auto simp: with_refs_def simp del: request_dk.simps split: outcome.splits)
    from usable_map assms(3) RmMap
    have good: "good_op (maps_dk (nvd_state (driver y))) (MapOp a)" by blast
    from abs_maps [OF assms(1) inv good, of d evs] d RmMap a show ?thesis
      by (auto simp: abs_of_def split: if_splits)
  next
    case (RmUnmap p sz)
    with assms(4) obtain d evs where d: "os_unmap_kernel_space_dk (objects P) (required P)
        (mappings y) p sz = Done (d, evs)" "y' = y\<lparr>mappings := d, rm_refs := rm_refs y @ evs\<rparr>"
      by (auto simp: with_refs_def split: outcome.splits)
    have "good_op (maps_dk (nvd_state (driver y))) (UnmapOp p sz)"
      using assms(3) RmUnmap by (simp add: good_op_def)
    from abs_maps [OF assms(1) inv this, of d evs] d RmUnmap show ?thesis by (auto simp: abs_of_def)
  next
    case (RmAllocPages q)
    with assms(4) show ?thesis
      by (auto simp: alloc_dk_def dk_alloc_defs abs_of_def split: outcome.splits if_splits)
  next
    case (RmFreePages i)
    with assms(4) show ?thesis by (auto simp: abs_of_def split: outcome.splits if_splits)
  next
    case (RmSetDmaSize bits)
    with assms(4) show ?thesis by (auto simp: abs_of_def split: outcome.splits)
  next
    case (RmWriteState w)
    with assms(4) show ?thesis by (auto simp: abs_of_def split: option.splits)
  qed
qed

lemma system_simulates_witness:
  "\<exists>y y'. sys_reach example_platform y \<and>
     rm_step example_platform y (RmMem (AllocMem 300 0x1000)) = Done y' \<and>
     live_blocks (abs_of example_platform y') 0x1000 = Some 44 \<and>
     heap_log y' = [IOMallocZero 300 0x1000]"
proof -
  obtain s where run: "sys_reach example_platform (system_at (At Running) s)"
    "RmInitRm \<in> set (calls_made s)" by (rule example_running)
  let ?y = "system_at (At Running) s" and ?c = "RmMem (AllocMem 300 0x1000)"
  have usable: "usable ?y ?c" by (simp add: block_pointer_def canonical_def)
  have "rm_runs ?y" using run(2) by (simp add: rm_runs_def system_at_def)
  from rm_calls_return_iff_fact [OF example_platform_sound run(1) this usable]
  obtain y' where y': "rm_step example_platform ?y ?c = Done y'"
    by (cases "rm_step example_platform ?y ?c") (simp_all del: rm_step.simps)
  have "tracked_size 300 = 44" by (simp add: tracked_size_def sizeof_NvU64_def take_bit_eq_mod)
  with system_simulates [OF example_platform_sound run(1) usable y'] run(1) y' show ?thesis
    by (intro exI [of _ ?y] exI [of _ y']) (simp add: system_at_def del: rm_step.simps)
qed

end
