(* ===== verification/SystemRuns.thy ===== *)
theory SystemRuns
  imports SystemProps
begin

text \<open>
  Whole runs of the DriverKit system against the abstract one: a run with the calls of the
  resource manager it made, and the refinement of the run by the abstract steps over these
  calls.  The steps of the framework do nothing to blocks, mappings and page allocations.
\<close>

section \<open>Runs with their calls\<close>

text \<open>Each call comes with the global state it found, which decides whether a mapping is made.\<close>

type_synonym call_trace = "(nvd_pointer \<times> dk_call) list"

inductive sys_trace :: "'d platform \<Rightarrow> 'd system \<Rightarrow> call_trace \<Rightarrow> bool" for P where
  boot: "phase_of y = At Fresh \<Longrightarrow> pristine (driver y) \<Longrightarrow>
    \<forall>k. get_object (objects P) (tracker y) k = None \<Longrightarrow>
    \<forall>k. get_object (objects P) (mappings y) k = None \<Longrightarrow>
    pages_held y = [] \<Longrightarrow> rm_refs y = [] \<Longrightarrow> heap_log y = [] \<Longrightarrow>
    sys_trace P y []"
| framework: "sys_trace P y tr \<Longrightarrow> kit_stage (library_of P) (phase_of y) (driver y) ph s \<Longrightarrow>
    sys_trace P (y\<lparr>phase_of := ph, driver := s\<rparr>) tr"
| resource_manager: "sys_trace P y tr \<Longrightarrow> rm_runs y \<Longrightarrow> usable y c \<Longrightarrow> rm_step P y c = Done y' \<Longrightarrow>
    sys_trace P y' (tr @ [(nvd_state (driver y), c)])"

lemma trace_reach: "sys_trace P y tr \<Longrightarrow> sys_reach P y"
  by (induction rule: sys_trace.induct) (blast intro: sys_reach.intros)+

lemma reach_trace: "sys_reach P y \<Longrightarrow> \<exists>tr. sys_trace P y tr"
  by (induction rule: sys_reach.induct) (blast intro: sys_trace.intros)+

section \<open>The abstract run\<close>

definition no_resources :: abstract_system where
  "no_resources = \<lparr>live_blocks = Map.empty, live_mappings = Map.empty, live_pages = []\<rparr>"

text \<open>Where the calls lead, and the calls to the kernel's allocator they make.\<close>

fun abs_run :: "abstract_system \<Rightarrow> call_trace \<Rightarrow> abstract_system \<times> heap_call list" where
  "abs_run z [] = (z, [])"
| "abs_run z ((nvd, c) # tr) =
     (case abs_run (abs_step nvd z c) tr of (z', cs) \<Rightarrow> (z', abs_heap z c @ cs))"

text \<open>The kernel hands out no block that the resource manager still has.\<close>

fun fresh_blocks :: "abstract_system \<Rightarrow> call_trace \<Rightarrow> bool" where
  "fresh_blocks z [] \<longleftrightarrow> True"
| "fresh_blocks z ((nvd, c) # tr) \<longleftrightarrow>
     (case c of RmMem (AllocMem n p) \<Rightarrow> p \<noteq> NULL \<longrightarrow> live_blocks z p = None | _ \<Rightarrow> True) \<and>
     fresh_blocks (abs_step nvd z c) tr"

lemma abs_run_snoc:
  "abs_run z tr = (z', cs) \<Longrightarrow>
   abs_run z (tr @ [(nvd, c)]) = (abs_step nvd z' c, cs @ abs_heap z' c)"
  by (induction z tr arbitrary: cs rule: abs_run.induct) (auto split: prod.splits)

text \<open>One step of the abstract run is a step of the replay.\<close>

lemma abs_step_replay:
  assumes "live_blocks z = map_option tracked_size \<circ> h" and "fresh_blocks z [(nvd, c)]"
  obtains h' where "replay h (abs_heap z c) = Some h'"
    and "live_blocks (abs_step nvd z c) = map_option tracked_size \<circ> h'"
proof (cases "\<exists>op. c = RmMem op")
  case False
  then have "abs_heap z c = [] \<and> live_blocks (abs_step nvd z c) = live_blocks z"
    by (cases c) auto
  with assms(1) that [of h] show thesis by simp
next
  case True
  then obtain op where c: "c = RmMem op" by blast
  show thesis
  proof (cases op)
    case (AllocMem n p)
    with c assms that [of "if p = NULL then h else h(p \<mapsto> n)"] show thesis
      by (auto simp: fun_eq_iff)
  next
    case (FreeMem p)
    with c assms that [of "h(p := None)"] show thesis
      by (cases "h p") (auto simp: fun_eq_iff)
  qed
qed

lemma abs_run_replay:
  assumes "abs_run z tr = (z', cs)" and "fresh_blocks z tr"
    and "live_blocks z = map_option tracked_size \<circ> h"
  shows "\<exists>h'. replay h cs = Some h' \<and> live_blocks z' = map_option tracked_size \<circ> h'"
  using assms
proof (induction z tr arbitrary: cs h rule: abs_run.induct)
  case (1 z)
  then show ?case by simp
next
  case (2 z nvd c tr)
  from 2(2) obtain cs' where run: "abs_run (abs_step nvd z c) tr = (z', cs')"
    "cs = abs_heap z c @ cs'" by (auto split: prod.splits)
  from 2(3) have first: "fresh_blocks z [(nvd, c)]" and rest: "fresh_blocks (abs_step nvd z c) tr"
    by simp_all
  from 2(4) first obtain h1 where "replay h (abs_heap z c) = Some h1"
    "live_blocks (abs_step nvd z c) = map_option tracked_size \<circ> h1"
    by (rule abs_step_replay)
  with 2(1) [OF run(1) rest] run(2) show ?case by (auto simp: replay_append)
qed

lemma boot_abs:
  assumes "\<forall>k. get_object (objects P) (tracker y) k = None"
    and "\<forall>k. get_object (objects P) (mappings y) k = None" and "pages_held y = []"
  shows "abs_of P y = no_resources"
  using assms(1,3) view_of_empty [OF assms(2)]
  by (simp add: abs_of_def no_resources_def block_view_def reg_find_def fun_eq_iff)

lemma trace_abs_run:
  assumes "sound_platform P"
  shows "sys_trace P y tr \<Longrightarrow> abs_run no_resources tr = (abs_of P y, heap_log y)"
proof (induction rule: sys_trace.induct)
  case (boot y)
  then show ?case by (simp add: boot_abs)
next
  case (framework y tr ph s)
  then show ?case by (simp add: abs_of_def)
next
  case (resource_manager y tr c y')
  from system_simulates [OF assms trace_reach [OF resource_manager.hyps(1)] resource_manager.hyps(3,4)]
    abs_run_snoc [OF resource_manager.IH] show ?case by simp
qed

section \<open>Properties\<close>

text \<open>
  C4. Refinement of whole runs: whatever the framework and the resource manager do, in whatever
  order, from the boot to after the driver is gone, the live blocks, mappings and page allocations
  are those the abstract steps reach over the calls made, and the calls to the kernel's allocator
  are exactly the abstract ones.  When the kernel hands out only blocks that are not live, these
  calls replay on the kernel's own view: each \<open>IOFree\<close> gives back a block that was handed out
  and not yet given back, with the low 8 bits of its size, and the blocks left are the live ones.
\<close>

theorem system_runs_refine:
  assumes "sound_platform P" and "sys_trace P y tr"
  shows "abs_run no_resources tr = (abs_of P y, heap_log y) \<and>
    (fresh_blocks no_resources tr \<longrightarrow>
      (\<exists>h. replay Map.empty (heap_log y) = Some h \<and>
        live_blocks (abs_of P y) = map_option tracked_size \<circ> h))"
proof -
  note run = trace_abs_run [OF assms]
  have "live_blocks no_resources = map_option tracked_size \<circ> Map.empty"
    by (simp add: no_resources_def fun_eq_iff)
  from abs_run_replay [OF run _ this] run show ?thesis by blast
qed

text \<open>
  A run that allocates 300 bytes, is stopped and freed, and gives the block back afterwards: as
  44 bytes.
\<close>

lemma trace_mem_call:
  assumes "sound_platform P" and "sys_trace P y tr" and "rm_runs y"
    and "block_pointer (mem_op_ptr op)"
  obtains d cs where "sys_trace P (y\<lparr>tracker := d, heap_log := heap_log y @ cs\<rparr>)
    (tr @ [(nvd_state (driver y), RmMem op)])"
proof -
  from mem_call_typed [OF assms(1) sys_reach_inv [OF assms(1) trace_reach [OF assms(2)]], of op]
  obtain d cs where "libc_run (objects P) (tracker y) [op] = Done (d, cs)" by blast
  then have "rm_step P y (RmMem op) = Done (y\<lparr>tracker := d, heap_log := heap_log y @ cs\<rparr>)"
    by (simp del: libc_run.simps)
  from sys_trace.resource_manager [OF assms(2,3) _ this] assms(4) that show thesis by simp
qed

lemma silent_run_fresh: "abs_run z tr = (z', []) \<Longrightarrow> fresh_blocks z tr"
proof (induction z tr rule: abs_run.induct)
  case (1 z)
  then show ?case by simp
next
  case (2 z nvd c tr)
  then show ?case by (auto split: prod.splits rm_call.splits mem_op.splits)
qed

lemma fresh_blocks_append:
  "fresh_blocks z (xs @ ys) \<longleftrightarrow> fresh_blocks z xs \<and> fresh_blocks (fst (abs_run z xs)) ys"
  by (induction z xs rule: abs_run.induct) (auto split: prod.splits)

theorem system_runs_refine_witness:
  "\<exists>y tr. sys_trace example_platform y tr \<and> phase_of y = At Gone \<and>
     heap_log y = [IOMallocZero 300 0x1000, IOFree 0x1000 44] \<and>
     live_blocks (abs_of example_platform y) = Map.empty \<and>
     (\<exists>h. replay Map.empty (heap_log y) = Some h)"
proof -
  obtain s where run: "sys_reach example_platform (system_at (At Running) s)"
    "RmInitRm \<in> set (calls_made s)"
    "PCIHorrorKit_Start_Impl example_rm example_kit ready_state = Done (KERN_SUCCESS, s)"
    by (rule example_running)
  from run(3) obtain st where st: "nvd_state s = Some (0x100, st)" by (rule example_bar_found)
  let ?y = "system_at (At Running) s" and ?alloc = "AllocMem 300 0x1000" and ?free = "FreeMem 0x1000"
  have p: "block_pointer (mem_op_ptr ?alloc)" "block_pointer (mem_op_ptr ?free)"
    by (simp_all add: block_pointer_def canonical_def)
  obtain tr where tr: "sys_trace example_platform ?y tr" using reach_trace [OF run(1)] by blast
  have runs: "rm_runs ?y" using run(2) by (simp add: rm_runs_def system_at_def)
  obtain d cs where t1: "sys_trace example_platform (?y\<lparr>tracker := d, heap_log := heap_log ?y @ cs\<rparr>)
      (tr @ [(nvd_state (driver ?y), RmMem ?alloc)])" (is "sys_trace _ ?y1 ?tr1")
    by (rule trace_mem_call [OF example_platform_sound tr runs p(1)])
  from st obtain s2 s3 where stages: "kit_stage example_rm (At Running) s (At Halted) s2"
    "kit_stage example_rm (At Halted) s2 (At Gone) s3" "set (calls_made s) \<subseteq> set (calls_made s3)"
    by (rule stop_free_steps)
  let ?y2 = "?y1\<lparr>phase_of := At Halted, driver := s2\<rparr>"
  let ?y3 = "?y2\<lparr>phase_of := At Gone, driver := s3\<rparr>"
  have lib: "library_of example_platform = example_rm" by (simp add: example_platform_def)
  have t2: "sys_trace example_platform ?y2 ?tr1"
    using sys_trace.framework [OF t1, of "At Halted" s2] stages(1) by (simp add: lib system_at_def)
  have t3: "sys_trace example_platform ?y3 ?tr1"
    using sys_trace.framework [OF t2, of "At Gone" s3] stages(2) by (simp add: lib)
  have "rm_runs ?y3" using run(2) stages(3) by (auto simp: rm_runs_def)
  then obtain d' cs' where t4: "sys_trace example_platform
      (?y3\<lparr>tracker := d', heap_log := heap_log ?y3 @ cs'\<rparr>)
      (?tr1 @ [(nvd_state (driver ?y3), RmMem ?free)])" (is "sys_trace _ ?y4 ?tr4")
    by (rule trace_mem_call [OF example_platform_sound t3 _ p(2)])
  have "heap_log ?y = []" "abs_of example_platform ?y = no_resources"
    by (simp add: system_at_def, rule boot_abs)
       (simp_all add: system_at_def example_platform_def map_libkern_empty)
  with trace_abs_run [OF example_platform_sound tr]
  have start: "abs_run no_resources tr = (no_resources, [])" by simp
  have size: "tracked_size 300 = 44" by (simp add: tracked_size_def sizeof_NvU64_def take_bit_eq_mod)
  have spec: "abs_run no_resources ?tr4 =
      (no_resources, [IOMallocZero 300 0x1000, IOFree 0x1000 (tracked_size 300)])"
    unfolding abs_run_snoc [OF abs_run_snoc [OF start]] by (simp add: no_resources_def)
  have fresh: "fresh_blocks no_resources ?tr4"
    using silent_run_fresh [OF start]
    by (simp add: fresh_blocks_append start) (simp add: no_resources_def)
  note claim = system_runs_refine [OF example_platform_sound t4]
  have "abs_of example_platform ?y4 = no_resources"
    and "heap_log ?y4 = [IOMallocZero 300 0x1000, IOFree 0x1000 (tracked_size 300)]"
    using conjunct1 [OF claim] by (simp_all only: spec prod.inject)
  moreover obtain h where "replay Map.empty (heap_log ?y4) = Some h"
    using conjunct2 [OF claim] fresh by blast
  moreover have "phase_of ?y4 = At Gone" by simp
  moreover have "live_blocks no_resources = Map.empty" by (simp add: no_resources_def)
  ultimately show ?thesis using t4 size by metis
qed

end
