(* ===== verification/KextStages.thy ===== *)
theory KextStages
  imports StartStages
begin

text \<open>
  \<open>start\<close> of \<open>NVMacRMService.cpp\<close> cut where the resource manager runs inside it, as
  \<open>StartStages\<close> cuts that of the DriverKit driver, and the kernel driver's steps with these
  stages.  The phases of the framework follow the boolean that \<open>start\<close> returns.
\<close>

section \<open>The stages of a start\<close>

text \<open>A stage returns from \<open>start\<close> with \<open>Some\<close> result, or goes on.\<close>

type_synonym kext_stage_result = "(bool option \<times> service_state) outcome"

text \<open>To the end of \<open>rm_init_rm\<close>.\<close>

definition start_begin_k :: "kext_env \<Rightarrow> service_state \<Rightarrow> kext_stage_result" where
  "start_begin_k E s =
     (let s0 = note_calls [SuperStart] s; ret = bool_kern (super_start_ok E) in
      if ret \<noteq> KERN_SUCCESS then Done (Some (kern_bool ret), note_calls [CallStop] s0)
      else
      (case nvd_state s0 of None \<Rightarrow> Fault NullDereference
       | Some (a, st) \<Rightarrow>
           Done (None, note_calls [Register, RmInitRm]
             (s0\<lparr>nvd_state := Some (a, st\<lparr>service := this_service E\<rparr>)\<rparr>))))"

text \<open>The device is kept and described, with its BARs.\<close>

definition place_device_k ::
  "rm_library \<Rightarrow> kext_env \<Rightarrow> nat option \<Rightarrow> ptr \<Rightarrow> nv_darwin_state \<Rightarrow> service_state
   \<Rightarrow> service_state outcome" where
  "place_device_k R E probed a st s =
     (let dev = provider_device E;
          s1 = s\<lparr>command := command s OR (kIOPCICommandBusLead OR kIOPCICommandMemorySpace)\<rparr>;
          nv = describe_device a dev E (nv_state_of st)
      in
      case fill_bars R (bar_entry_k R E) 0 0 (bars nv) of Fault f \<Rightarrow> Fault f
      | Done bs \<Rightarrow>
          (let nv' = nv\<lparr>bars := bs, regs := NV_GPU_BAR_INDEX_REGS R, fb := NV_GPU_BAR_INDEX_FB R\<rparr>
           in Done (note_calls [ProbedBars probed, RmStart nv']
                (note_refs [Retain dev]
                  (s1\<lparr>nvd_state := Some (a, st\<lparr>nv_state_of := nv', device := dev\<rparr>)\<rparr>)))))"

definition start_attach_k :: "rm_library \<Rightarrow> kext_env \<Rightarrow> service_state \<Rightarrow> kext_stage_result" where
  "start_attach_k R E s =
     (case nvd_state s of None \<Rightarrow> Fault NullDereference
      | Some (a, st) \<Rightarrow>
          (let ret = bool_kern (open_ok E) in
           if provider_device E = NULL then
             Done (Some (kern_bool kIOReturnNoDevice), note_calls [CallStop] s)
           else if ret \<noteq> KERN_SUCCESS then
             Done (Some (kern_bool kIOReturnNoDevice),
               note_calls [OpenDevice, CallStop] (s\<lparr>opened := open_ok E\<rparr>))
           else
             (case first_bar_k (device_memory E) 0 (NV_GPU_NUM_BARS R) of Fault f \<Rightarrow> Fault f
              | Done probed \<Rightarrow>
                  (case place_device_k R E probed a st
                          (note_calls [OpenDevice] (s\<lparr>opened := open_ok E\<rparr>)) of
                     Fault f \<Rightarrow> Fault f
                   | Done s' \<Rightarrow> Done (None, s')))))"

lemma attach_device_k_stages:
  "attach_device R E (bar_entry_k R E) probed a st s =
    (case place_device_k R E probed a st s of Fault f \<Rightarrow> Fault f | Done s' \<Rightarrow> Done (enter_rm R s'))"
  by (simp add: attach_device_def place_device_k_def enter_rm_def service_defs
      split: outcome.splits prod.splits)

text \<open>\<open>start\<close> returns the result of \<open>open\<close>, which by then is 0: false.\<close>

lemma start_k_in_stages:
  "NVMacRMService_start R E s =
    (case start_begin_k E s of Fault f \<Rightarrow> Fault f
     | Done (Some b, s1) \<Rightarrow> Done (b, s1)
     | Done (None, s1) \<Rightarrow>
         (case start_attach_k R E s1 of Fault f \<Rightarrow> Fault f
          | Done (Some b, s2) \<Rightarrow> Done (b, s2)
          | Done (None, s2) \<Rightarrow> Done (kern_bool KERN_SUCCESS, enter_rm R s2)))"
proof (cases "bool_kern (super_start_ok E) = KERN_SUCCESS")
  case False
  then show ?thesis by (simp add: NVMacRMService_start_def start_begin_k_def Let_def)
next
  case True
  show ?thesis
  proof (cases "nvd_state s")
    case None
    with True show ?thesis by (simp add: NVMacRMService_start_def start_begin_k_def service_defs)
  next
    case (Some x)
    obtain a st where "x = (a, st)" by (cases x)
    with True Some show ?thesis
      by (simp add: NVMacRMService_start_def start_begin_k_def start_attach_k_def
          attach_device_k_stages service_defs split: outcome.split)
  qed
qed

section \<open>The driver in stages\<close>

definition phase_after :: "bool \<Rightarrow> phase" where
  "phase_after b = (if b then Running else Halted)"

inductive kext_stage ::
  "rm_library \<Rightarrow> stage \<Rightarrow> service_state \<Rightarrow> stage \<Rightarrow> service_state \<Rightarrow> bool" for R where
  k_inited: "NVMacRMService_init R E s = (True, s') \<Longrightarrow> kext_stage R (At Fresh) s (At Ready) s'"
| k_begun: "start_begin_k E s = Done (None, s') \<Longrightarrow> kext_stage R (At Ready) s Initialised s'"
| k_begin_failed: "start_begin_k E s = Done (Some b, s') \<Longrightarrow>
    kext_stage R (At Ready) s (At (phase_after b)) s'"
| k_attached: "start_attach_k R E s = Done (None, s') \<Longrightarrow> kext_stage R Initialised s Attached s'"
| k_attach_failed: "start_attach_k R E s = Done (Some b, s') \<Longrightarrow>
    kext_stage R Initialised s (At (phase_after b)) s'"
| k_returned: "kext_stage R Attached s (At (phase_after (kern_bool KERN_SUCCESS))) s"
| k_stopped: "ph \<in> {Ready, Running, Halted} \<Longrightarrow> NVMacRMService_stop s = Done s' \<Longrightarrow>
    kext_stage R (At ph) s (At Halted) s'"
| k_freed: "ph \<in> {Ready, Halted} \<Longrightarrow> NVMacRMService_free s = Done s' \<Longrightarrow>
    kext_stage R (At ph) s (At Gone) s'"

definition begun_k :: "service_state \<Rightarrow> bool" where
  "begun_k s \<longleftrightarrow> (\<exists>a st. nvd_state s = Some (a, st) \<and> device st = NULL \<and> \<not> opened s \<and>
     held s = [Obtain a] \<and> never_attached s)"

definition device_kept :: "service_state \<Rightarrow> bool" where
  "device_kept s \<longleftrightarrow> (\<exists>a st. nvd_state s = Some (a, st) \<and> attached_to s (device st) \<and>
     held s = [Obtain a, Retain (device st)] \<and> \<not> closed_once s)"

fun kext_stage_inv :: "rm_library \<Rightarrow> stage \<Rightarrow> service_state \<Rightarrow> bool" where
  "kext_stage_inv R (At ph) s \<longleftrightarrow> kext_inv R ph s"
| "kext_stage_inv R Initialised s \<longleftrightarrow> begun_k s"
| "kext_stage_inv R Attached s \<longleftrightarrow> device_kept s"

lemmas kext_flags = bool_kern_def kern_bool_def KERN_SUCCESS_def kIOReturnNoDevice_def phase_after_def

lemma begin_k_effect:
  assumes "start_begin_k E s = Done (r, s')" and "nvd_state s = Some (a, st)"
    and "held s = [Obtain a]" and "never_attached s" and "\<not> opened s" and "device st = NULL"
  shows "(case r of None \<Rightarrow> begun_k s' \<and> RmInitRm \<in> set (calls_made s')
    | Some b \<Rightarrow> b \<and> kext_inv R Running s' \<and> calls_made s' = calls_made s @ [SuperStart, CallStop])"
  using assms by (auto simp: start_begin_k_def kext_flags begun_k_def never_attached_def
      rm_starts_def service_defs split: if_splits)

lemma place_device_k_done:
  assumes "place_device_k R E probed a st s = Done s'"
  obtains nv where "handle_of nv = provider_device E" and "rm_starts s' = insert nv (rm_starts s)"
    and "nvd_state s' = Some (a, st\<lparr>nv_state_of := nv, device := provider_device E\<rparr>)"
    and "held s' = held s @ [Retain (provider_device E)]" and "opened s' = opened s"
    and "set (calls_made s) \<subseteq> set (calls_made s')" and "closed_once s' = closed_once s"
proof -
  let ?nv = "describe_device a (provider_device E) E (nv_state_of st)"
  from assms obtain bs where bs: "fill_bars R (bar_entry_k R E) 0 0 (bars ?nv) = Done bs"
    by (auto simp: place_device_k_def Let_def split: outcome.splits)
  define nv where "nv = ?nv\<lparr>bars := bs, regs := NV_GPU_BAR_INDEX_REGS R, fb := NV_GPU_BAR_INDEX_FB R\<rparr>"
  have "handle_of nv = provider_device E" by (simp add: nv_def describe_device_def)
  moreover have "s' = note_calls [ProbedBars probed, RmStart nv]
      (note_refs [Retain (provider_device E)]
        (s\<lparr>command := command s OR (kIOPCICommandBusLead OR kIOPCICommandMemorySpace),
           nvd_state := Some (a, st\<lparr>nv_state_of := nv, device := provider_device E\<rparr>)\<rparr>))"
    using assms bs by (simp add: place_device_k_def Let_def nv_def)
  ultimately show thesis by (intro that [of nv]) (auto simp: rm_starts_def closed_once_def service_defs)
qed

text \<open>The BARs are recorded by the addresses the device gives.\<close>

lemma place_device_k_bars:
  assumes "place_device_k R E probed a st s = Done s'"
    and "length (bars (nv_state_of st)) = NV_GPU_NUM_BARS R"
    and "\<forall>k < min (NVRM_PCICFG_NUM_BARS R) (NV_GPU_NUM_BARS R). device_memory E k = Some (sz k, addr k)"
  shows "\<exists>st'. nvd_state s' = Some (a, st') \<and> length (bars (nv_state_of st')) = NV_GPU_NUM_BARS R \<and>
    (\<forall>k < min (NVRM_PCICFG_NUM_BARS R) (NV_GPU_NUM_BARS R).
      cpu_address (bars (nv_state_of st') ! k) = addr k)"
proof -
  define n where "n = min (NVRM_PCICFG_NUM_BARS R) (NV_GPU_NUM_BARS R)"
  have "\<forall>k < n. bar_entry_k R E k = Done \<lparr>cpu_address = addr k, aperture_size = sz k,
      cfg_offset = NVRM_PCICFG_BAR_OFFSET R k\<rparr>"
    using assms(3) by (simp add: bar_entry_k_def n_def)
  from fill_bars_ok [OF n_def this, of "bars (nv_state_of st)" 0] assms(2)
  obtain bs where "fill_bars R (bar_entry_k R E) 0 0 (bars (nv_state_of st)) = Done bs"
    "length bs = NV_GPU_NUM_BARS R" "\<forall>k < n. cpu_address (bs ! k) = addr k"
    by (auto simp: n_def)
  with assms(1) show ?thesis
    by (auto simp: place_device_k_def describe_device_def service_defs n_def)
qed

lemma attach_k_effect:
  assumes "start_attach_k R E s = Done (r, s')" and "begun_k s"
  shows "(case r of None \<Rightarrow> device_kept s' | Some b \<Rightarrow> b \<and> kext_inv R Running s')"
proof -
  from assms(2) obtain a st where s: "nvd_state s = Some (a, st)" "device st = NULL" "\<not> opened s"
    "held s = [Obtain a]" "never_attached s" by (auto simp: begun_k_def)
  show ?thesis
  proof (cases r)
    case (Some b)
    with assms(1) s show ?thesis
      by (auto simp: start_attach_k_def kext_flags never_attached_def rm_starts_def service_defs
          split: if_splits outcome.splits)
  next
    case None
    let ?s0 = "note_calls [OpenDevice] (s\<lparr>opened := open_ok E\<rparr>)"
    from None assms(1) s(1) obtain probed where placed: "place_device_k R E probed a st ?s0 = Done s'"
      and dev: "provider_device E \<noteq> NULL" "\<not> open_ok E"
      by (auto simp: start_attach_k_def kext_flags split: if_splits outcome.splits)
    from place_device_k_done [OF placed] obtain nv where "handle_of nv = provider_device E"
      "rm_starts s' = insert nv (rm_starts ?s0)"
      "nvd_state s' = Some (a, st\<lparr>nv_state_of := nv, device := provider_device E\<rparr>)"
      "held s' = held ?s0 @ [Retain (provider_device E)]" "opened s' = opened ?s0"
      "closed_once s' = closed_once ?s0" by metis
    with None dev s show ?thesis
      by (auto simp: device_kept_def attached_to_def never_attached_def closed_once_def
          rm_starts_def service_defs)
  qed
qed

lemma device_kept_halted: "device_kept s \<Longrightarrow> kext_inv R Halted s"
  by (fastforce simp: device_kept_def)

lemma kext_stage_inv_step:
  assumes "kext_stage R ph s ph' s'" and "kext_stage_inv R ph s"
  shows "kext_stage_inv R ph' s'"
  using assms(1)
proof (cases rule: kext_stage.cases)
  case (k_begun E)
  with assms(2) begin_k_effect [OF k_begun(3)] show ?thesis by auto
next
  case (k_begin_failed E b)
  with assms(2) begin_k_effect [OF k_begin_failed(3)] show ?thesis by (auto simp: phase_after_def)
next
  case (k_attached E)
  with assms(2) attach_k_effect [OF k_attached(3)] show ?thesis by auto
next
  case (k_attach_failed E b)
  with assms(2) attach_k_effect [OF k_attach_failed(3)] show ?thesis by (auto simp: phase_after_def)
next
  case k_returned
  with assms(2) device_kept_halted show ?thesis by (auto simp: kext_flags simp del: kext_inv.simps)
qed (use assms(2) in \<open>auto intro: kext_inv_init kext_inv_stop kext_inv_free simp del: kext_inv.simps\<close>)

end
