(* ===== verification/KernelSystem.thy ===== *)
theory KernelSystem
  imports System KextStages
begin

text \<open>
  The kernel system: the driver of \<open>NVMacRMService.cpp\<close> as the I/O framework runs it, and the
  resource manager, which calls back into the kernel half of \<open>libnv-darwin\<close>.  It is built like
  the DriverKit system of \<open>System\<close>: the driver's state, the two dictionaries, the page
  allocations the resource manager still has and those it freed, and the references its calls
  took; the invariant joins those of the parts.
\<close>

section \<open>The system and its steps\<close>

record 'd kernel_platform =
  objects_k :: "'d libkern"
  required_k :: "os_object option \<Rightarrow> ptr option outcome"
  modes_k :: nv_memory_modes
  caches_k :: kernel_cache_modes
  flags_k :: kernel_buffer_flags
  library_k :: rm_library

record 'd kernel_system =
  stage_k :: stage
  kext :: service_state
  tracker_k :: 'd
  mappings_k :: 'd
  pages_k :: "priv_data list"
  freed_k :: "priv_data list"
  refs_k :: "ref_event list"
  log_k :: "heap_call list"

type_synonym kernel_call = "(k_answers, k_request) rm_call"

definition with_refs_k ::
  "'d kernel_system \<Rightarrow> ('d \<times> ref_event list) outcome \<Rightarrow> 'd kernel_system outcome" where
  "with_refs_k y r =
     (case r of Fault f \<Rightarrow> Fault f
      | Done (d, evs) \<Rightarrow> Done (y\<lparr>mappings_k := d, refs_k := refs_k y @ evs\<rparr>))"

definition with_pages_k ::
  "'d kernel_system \<Rightarrow> (priv_data list \<times> priv_data list \<times> ref_event list) outcome
   \<Rightarrow> 'd kernel_system outcome" where
  "with_pages_k y r =
     (case r of Fault f \<Rightarrow> Fault f
      | Done (live, freed, evs) \<Rightarrow>
          Done (y\<lparr>pages_k := live, freed_k := freed_k y @ freed, refs_k := refs_k y @ evs\<rparr>))"

abbreviation alloc_now :: "'d kernel_platform \<Rightarrow> 'd kernel_system \<Rightarrow> k_request \<Rightarrow> alloc_result outcome" where
  "alloc_now P y \<equiv> alloc_k (modes_k P) (caches_k P) (flags_k P) (nvd_state (kext y))"

fun kernel_step :: "'d kernel_platform \<Rightarrow> 'd kernel_system \<Rightarrow> kernel_call \<Rightarrow> 'd kernel_system outcome" where
  "kernel_step P y (RmMem op) =
     (case libc_run (objects_k P) (tracker_k y) [op] of Fault f \<Rightarrow> Fault f
      | Done (d, cs) \<Rightarrow> Done (y\<lparr>tracker_k := d, log_k := log_k y @ cs\<rparr>))"
| "kernel_step P y (RmMap a) =
     with_refs_k y (request_k (objects_k P) (modes_k P) (caches_k P) (nvd_state (kext y))
       (mappings_k y) a)"
| "kernel_step P y (RmUnmap p sz) =
     with_refs_k y (os_unmap_kernel_space_k (objects_k P) (required_k P) (mappings_k y) p sz)"
| "kernel_step P y (RmAllocPages q) =
     with_pages_k y (page_run (alloc_now P y) free_k (pages_k y) [AllocPages q])"
| "kernel_step P y (RmFreePages i) =
     with_pages_k y (page_run (alloc_now P y) free_k (pages_k y) [FreePages i])"
| "kernel_step P y (RmSetDmaSize bits) =
     (case nv_set_dma_address_size (nvd_state (kext y)) bits of Fault f \<Rightarrow> Fault f
      | Done nvd \<Rightarrow> Done (y\<lparr>kext := (kext y)\<lparr>nvd_state := nvd\<rparr>\<rparr>))"
| "kernel_step P y (RmWriteState w) =
     (case nvd_state (kext y) of None \<Rightarrow> Fault NullDereference
      | Some (a, st) \<Rightarrow>
          Done (y\<lparr>kext := (kext y)\<lparr>nvd_state := Some (a, st\<lparr>nv_state_of := w (nv_state_of st)\<rparr>)\<rparr>\<rparr>))"

text \<open>The addresses are those of blocks and mappings; the BARs of the state are an array.\<close>

fun usable_k :: "kernel_call \<Rightarrow> bool" where
  "usable_k (RmMem op) \<longleftrightarrow> block_pointer (mem_op_ptr op)"
| "usable_k (RmMap (ans, _)) \<longleftrightarrow> block_pointer (physical_address ans)"
| "usable_k (RmUnmap p sz) \<longleftrightarrow> block_pointer p"
| "usable_k (RmWriteState w) \<longleftrightarrow> (\<forall>nv. length (bars (w nv)) = length (bars nv))"
| "usable_k _ \<longleftrightarrow> True"

definition rm_runs_k :: "'d kernel_system \<Rightarrow> bool" where
  "rm_runs_k y \<longleftrightarrow> RmInitRm \<in> set (calls_made (kext y))"

inductive kernel_reach :: "'d kernel_platform \<Rightarrow> 'd kernel_system \<Rightarrow> bool" for P where
  boot_k: "stage_k y = At Fresh \<Longrightarrow> pristine (kext y) \<Longrightarrow>
    \<forall>k. get_object (objects_k P) (tracker_k y) k = None \<Longrightarrow>
    \<forall>k. get_object (objects_k P) (mappings_k y) k = None \<Longrightarrow>
    pages_k y = [] \<Longrightarrow> freed_k y = [] \<Longrightarrow> refs_k y = [] \<Longrightarrow> log_k y = [] \<Longrightarrow>
    kernel_reach P y"
| framework_k: "kernel_reach P y \<Longrightarrow> kext_stage (library_k P) (stage_k y) (kext y) ph s \<Longrightarrow>
    kernel_reach P (y\<lparr>stage_k := ph, kext := s\<rparr>)"
| resource_manager_k: "kernel_reach P y \<Longrightarrow> rm_runs_k y \<Longrightarrow> usable_k c \<Longrightarrow>
    kernel_step P y c = Done y' \<Longrightarrow> kernel_reach P y'"

section \<open>The invariant\<close>

definition sound_kernel :: "'d kernel_platform \<Rightarrow> bool" where
  "sound_kernel P \<longleftrightarrow> mapping_system (objects_k P) (required_k P) \<and> factories_succeed (objects_k P)"

abbreviation live_map_k :: "'d kernel_platform \<Rightarrow> 'd kernel_system \<Rightarrow> ptr \<Rightarrow> ptr option" where
  "live_map_k P y \<equiv> mapped_view (objects_k P) (mappings_k y)"

text \<open>The pairings that freed allocations left behind.\<close>

definition pages_left :: "priv_data list \<Rightarrow> ptr \<Rightarrow> int" where
  "pages_left ps x = (\<Sum>p \<leftarrow> ps. leaves_object p x)"

definition kernel_inv :: "'d kernel_platform \<Rightarrow> 'd kernel_system \<Rightarrow> bool" where
  "kernel_inv P y \<longleftrightarrow>
     kext_stage_inv (library_k P) (stage_k y) (kext y) \<and>
     (stage_k y \<in> {At Fresh, At Ready} \<longrightarrow> \<not> rm_runs_k y) \<and>
     mirrors (objects_k P) (mappings_k y) (live_map_k P y) \<and>
     (\<forall>p \<in> set (pages_k y). is_pairing p) \<and> (\<forall>p \<in> set (freed_k y). is_pairing p) \<and>
     (\<forall>x. balance (refs_k y) x =
        mapped_times (live_map_k P y) x + pages_own (pages_k y) x + pages_left (freed_k y) x) \<and>
     holds_only (objects_k P) masked_number (tracker_k y)"

lemma kernel_invD:
  assumes "kernel_inv P y"
  shows "kext_stage_inv (library_k P) (stage_k y) (kext y)"
    and "mirrors (objects_k P) (mappings_k y) (live_map_k P y)"
    and "\<forall>p \<in> set (pages_k y). is_pairing p" and "\<forall>p \<in> set (freed_k y). is_pairing p"
    and "balance (refs_k y) x =
      mapped_times (live_map_k P y) x + pages_own (pages_k y) x + pages_left (freed_k y) x"
    and "holds_only (objects_k P) masked_number (tracker_k y)"
    and "stage_k y \<in> {At Fresh, At Ready} \<Longrightarrow> \<not> rm_runs_k y"
  using assms by (simp_all add: kernel_inv_def del: kext_stage_inv.simps)

lemma map_call_inv_k:
  assumes "sound_kernel P" and "kernel_inv P y"
    and "good_op (maps_k (modes_k P) (caches_k P) nvd) op"
    and run: "map_run (request_k (objects_k P) (modes_k P) (caches_k P) nvd)
      (os_unmap_kernel_space_k (objects_k P) (required_k P)) (mappings_k y) [op] = Done (d, evs)"
  shows "kernel_inv P (y\<lparr>mappings_k := d, refs_k := refs_k y @ evs\<rparr>)"
proof -
  have sys: "mapping_system (objects_k P) (required_k P)" using assms(1) by (simp add: sound_kernel_def)
  note view = mapping_system.k_view_step [OF sys kernel_invD(2) [OF assms(2)] assms(3) run]
  from assms(2) view show ?thesis by (simp add: kernel_inv_def rm_runs_k_def del: kext_stage_inv.simps)
qed

lemma page_call_inv_k:
  assumes "kernel_inv P y"
    and run: "page_run (alloc_k M C F nvd) free_k (pages_k y) ops = Done (live, freed, evs)"
  shows "kernel_inv P (y\<lparr>pages_k := live, freed_k := freed_k y @ freed, refs_k := refs_k y @ evs\<rparr>)"
proof -
  note valid = kernel_invD(3) [OF assms(1)]
  have "\<forall>p \<in> set freed. is_pairing p" by (rule pages_k.run_freed [OF valid run])
  with assms(1) pages_k.run_balance [OF valid run] show ?thesis
    by (simp add: kernel_inv_def rm_runs_k_def pages_own_def pages_left_def ball_Un del: kext_stage_inv.simps)
qed

lemma mem_call_typed_k:
  assumes "sound_kernel P" and "kernel_inv P y"
  shows "\<exists>d cs. libc_run (objects_k P) (tracker_k y) [op] = Done (d, cs) \<and>
    holds_only (objects_k P) masked_number d"
proof -
  from assms(1) have "libkern_objects (objects_k P)"
    by (simp add: sound_kernel_def mapping_system_def)
  from libkern_objects.libc_run_typed [OF this kernel_invD(6) [OF assms(2)], of "[op]"] show ?thesis
    by blast
qed

lemma kext_inv_state:
  assumes "kext_inv R ph s" and "ph \<notin> {Fresh, Ready}" and "nvd_state s = Some (a, st)"
    and "device st' = device st"
  shows "kext_inv R ph (s\<lparr>nvd_state := Some (a, st')\<rparr>)"
  using assms by (cases ph) (auto simp: never_attached_def attached_to_def closed_once_def rm_starts_def)

lemma kext_stage_inv_state:
  assumes "kext_stage_inv R ph s" and "ph \<notin> {At Fresh, At Ready}" and "nvd_state s = Some (a, st)"
    and "device st' = device st"
  shows "kext_stage_inv R ph (s\<lparr>nvd_state := Some (a, st')\<rparr>)"
proof (cases ph)
  case (At p)
  with assms kext_inv_state [of R p s a st st'] show ?thesis by simp
qed (use assms in \<open>auto simp: begun_k_def device_kept_def never_attached_def attached_to_def
    closed_once_def rm_starts_def\<close>)

lemma kernel_inv_state:
  assumes "kernel_inv P y" and "rm_runs_k y" and "nvd_state (kext y) = Some (a, st)"
    and "device st' = device st"
  shows "kernel_inv P (y\<lparr>kext := (kext y)\<lparr>nvd_state := Some (a, st')\<rparr>\<rparr>)"
proof -
  have "stage_k y \<notin> {At Fresh, At Ready}" using assms(1,2) kernel_invD(7) by blast
  from kext_stage_inv_state [OF kernel_invD(1) [OF assms(1)] this assms(3,4)] assms(1) show ?thesis
    by (simp add: kernel_inv_def rm_runs_k_def del: kext_stage_inv.simps)
qed

lemma usable_map_k: "usable_k (RmMap a) \<Longrightarrow> good_op (maps_k M C nvd) (MapOp a)"
  by (cases a) (auto simp: good_op_def split: if_splits)

lemma kernel_inv_rm:
  assumes "sound_kernel P" and inv: "kernel_inv P y" and "rm_runs_k y" and "usable_k c"
    and step: "kernel_step P y c = Done y'"
  shows "kernel_inv P y'"
proof (cases c)
  case (RmMem op)
  with step mem_call_typed_k [OF assms(1) inv, of op] inv show ?thesis
    by (auto simp: kernel_inv_def rm_runs_k_def simp del: kext_stage_inv.simps libc_run.simps
        split: outcome.splits)
next
  case (RmMap a)
  with step obtain d evs where d: "request_k (objects_k P) (modes_k P) (caches_k P)
      (nvd_state (kext y)) (mappings_k y) a = Done (d, evs)"
    "y' = y\<lparr>mappings_k := d, refs_k := refs_k y @ evs\<rparr>"
    by (auto simp: with_refs_k_def simp del: request_k.simps split: outcome.splits)
  from usable_map_k assms(4) RmMap
  have "good_op (maps_k (modes_k P) (caches_k P) (nvd_state (kext y))) (MapOp a)" by blast
  from map_call_inv_k [OF assms(1) inv this, of d evs] d show ?thesis by simp
next
  case (RmUnmap p sz)
  with step obtain d evs where d: "os_unmap_kernel_space_k (objects_k P) (required_k P)
      (mappings_k y) p sz = Done (d, evs)" "y' = y\<lparr>mappings_k := d, refs_k := refs_k y @ evs\<rparr>"
    by (auto simp: with_refs_k_def split: outcome.splits)
  have "good_op (maps_k (modes_k P) (caches_k P) (nvd_state (kext y))) (UnmapOp p sz)"
    using assms(4) RmUnmap by (simp add: good_op_def)
  from map_call_inv_k [OF assms(1) inv this, of d evs] d show ?thesis by simp
next
  case (RmAllocPages q)
  with step obtain live freed evs where
    "page_run (alloc_now P y) free_k (pages_k y) [AllocPages q] = Done (live, freed, evs)"
    "y' = y\<lparr>pages_k := live, freed_k := freed_k y @ freed, refs_k := refs_k y @ evs\<rparr>"
    by (auto simp: with_pages_k_def simp del: page_run.simps split: outcome.splits)
  with page_call_inv_k [OF inv] show ?thesis by blast
next
  case (RmFreePages i)
  with step obtain live freed evs where
    "page_run (alloc_now P y) free_k (pages_k y) [FreePages i] = Done (live, freed, evs)"
    "y' = y\<lparr>pages_k := live, freed_k := freed_k y @ freed, refs_k := refs_k y @ evs\<rparr>"
    by (auto simp: with_pages_k_def simp del: page_run.simps split: outcome.splits)
  with page_call_inv_k [OF inv] show ?thesis by blast
next
  case (RmSetDmaSize bits)
  with step obtain a st where "nvd_state (kext y) = Some (a, st)"
    "y' = y\<lparr>kext := (kext y)\<lparr>nvd_state := Some (a, st\<lparr>dma_mask := push_bit (unat bits) 1 - 1\<rparr>)\<rparr>\<rparr>"
    by (auto simp: nv_set_dma_address_size_def split: outcome.splits option.splits if_splits)
  with kernel_inv_state [OF inv assms(3)] show ?thesis by simp
next
  case (RmWriteState w)
  with step obtain a st where "nvd_state (kext y) = Some (a, st)"
    "y' = y\<lparr>kext := (kext y)\<lparr>nvd_state := Some (a, st\<lparr>nv_state_of := w (nv_state_of st)\<rparr>)\<rparr>\<rparr>"
    by (auto split: option.splits)
  with kernel_inv_state [OF inv assms(3)] show ?thesis by simp
qed

lemma kext_stage_before_start:
  assumes "kext_stage R ph s ph' s'" and "ph' \<in> {At Fresh, At Ready}"
  shows "calls_made s' = calls_made s \<and> ph = At Fresh"
  using assms by (cases rule: kext_stage.cases)
    (auto simp: NVMacRMService_init_def phase_after_def service_defs split: if_splits)

lemma kernel_inv_framework:
  assumes "kernel_inv P y" and "kext_stage (library_k P) (stage_k y) (kext y) ph s"
  shows "kernel_inv P (y\<lparr>stage_k := ph, kext := s\<rparr>)"
proof -
  have "ph \<in> {At Fresh, At Ready} \<Longrightarrow> RmInitRm \<notin> set (calls_made s)"
    using kext_stage_before_start [OF assms(2)] kernel_invD(7) [OF assms(1)]
    by (simp add: rm_runs_k_def)
  with assms(1) kext_stage_inv_step [OF assms(2)] show ?thesis
    by (simp add: kernel_inv_def rm_runs_k_def del: kext_stage_inv.simps)
qed

lemma kernel_inv_boot:
  assumes "stage_k y = At Fresh" and "pristine (kext y)"
    and "\<forall>k. get_object (objects_k P) (tracker_k y) k = None"
    and "\<forall>k. get_object (objects_k P) (mappings_k y) k = None"
    and "pages_k y = []" and "freed_k y = []" and "refs_k y = []"
  shows "kernel_inv P y"
proof -
  note view = view_of_empty [OF assms(4)]
  have "\<not> rm_runs_k y" using assms(2) by (simp add: rm_runs_k_def pristine_def)
  moreover have "mapped_times (live_map_k P y) x = 0" for x
    using view by (simp add: mapped_times_empty)
  moreover have "holds_only (objects_k P) masked_number (tracker_k y)"
    using assms(3) by (simp add: holds_only_def)
  moreover have "kext_stage_inv (library_k P) (stage_k y) (kext y)"
    using assms(1,2) by (simp add: pristine_def never_attached_def rm_starts_def)
  ultimately show ?thesis
    unfolding kernel_inv_def pages_own_def pages_left_def using view
    by (simp add: assms(1,5-7) del: kext_stage_inv.simps)
qed

lemma kernel_reach_inv:
  assumes "sound_kernel P"
  shows "kernel_reach P y \<Longrightarrow> kernel_inv P y"
proof (induction rule: kernel_reach.induct)
  case (boot_k y)
  from kernel_inv_boot [OF boot_k(1-7)] show ?case .
next
  case (framework_k y ph s)
  from kernel_inv_framework [OF framework_k.IH framework_k.hyps(2)] show ?case .
next
  case (resource_manager_k y c y')
  from kernel_inv_rm [OF assms resource_manager_k.IH resource_manager_k.hyps(2-4)] show ?case .
qed

section \<open>What the stage says\<close>

text \<open>One reference to the state's block, and one to the attached device until \<open>free\<close> gives it back.\<close>

definition device_owed :: "stage \<Rightarrow> service_state \<Rightarrow> ptr \<Rightarrow> bool" where
  "device_owed ph s x \<longleftrightarrow> (\<exists>nv. RmStart nv \<in> set (calls_made s) \<and> handle_of nv = x) \<and>
     (ph = At Gone \<longrightarrow> CloseDevice \<in> set (calls_made s))"

lemma kext_stage_balance:
  assumes "kext_stage_inv R ph s"
  shows "balance (held s) x =
    (if \<exists>st. nvd_state s = Some (x, st) then 1 else 0) + (if device_owed ph s x then 1 else 0)"
proof -
  have ex: "(\<exists>nv. RmStart nv \<in> set (calls_made s) \<and> handle_of nv = x) \<longleftrightarrow>
      (\<exists>nv \<in> rm_starts s. handle_of nv = x)" by (auto simp: rm_starts_def)
  note defs = device_owed_def ex never_attached_def attached_to_def closed_once_def
  show ?thesis
  proof (cases ph)
    case (At p)
    with assms show ?thesis by (cases p) (auto simp: defs)
  qed (use assms in \<open>auto simp: defs begun_k_def device_kept_def\<close>)
qed

text \<open>The device is there from the attachment to the first \<open>stop\<close>, or to \<open>free\<close>.\<close>

lemma kext_stage_state:
  assumes "kext_stage_inv R ph s" and "ph \<notin> {At Fresh, At Ready}"
  shows "nvd_state s = None \<longleftrightarrow> ph = At Gone"
    and "device_present (nvd_state s) \<longleftrightarrow>
      ph \<noteq> At Gone \<and> (\<exists>nv. RmStart nv \<in> set (calls_made s)) \<and> CloseDevice \<notin> set (calls_made s)"
    and "ph = At Running \<Longrightarrow> RmStart nv \<notin> set (calls_made s)"
proof -
  have ex: "RmStart nv \<in> set (calls_made s) \<longleftrightarrow> nv \<in> rm_starts s" for nv by (simp add: rm_starts_def)
  note defs = ex never_attached_def attached_to_def closed_once_def begun_k_def device_kept_def
  show "nvd_state s = None \<longleftrightarrow> ph = At Gone"
    using assms by (cases "(R, ph, s)" rule: kext_stage_inv.cases;
        cases "case ph of At p \<Rightarrow> p | _ \<Rightarrow> Fresh") (auto simp: defs)
  show "device_present (nvd_state s) \<longleftrightarrow>
      ph \<noteq> At Gone \<and> (\<exists>nv. RmStart nv \<in> set (calls_made s)) \<and> CloseDevice \<notin> set (calls_made s)"
    using assms by (cases "(R, ph, s)" rule: kext_stage_inv.cases;
        cases "case ph of At p \<Rightarrow> p | _ \<Rightarrow> Fresh") (auto simp: defs)
  show "ph = At Running \<Longrightarrow> RmStart nv \<notin> set (calls_made s)"
    using assms by (auto simp: defs)
qed

section \<open>A whole start\<close>

lemma kext_stage_calls: "kext_stage R ph s ph' s' \<Longrightarrow> set (calls_made s) \<subseteq> set (calls_made s')"
  by (cases rule: kext_stage.cases)
    (auto simp: NVMacRMService_init_def NVMacRMService_stop_def NVMacRMService_free_def start_begin_k_def
      start_attach_k_def place_device_k_def service_defs split: if_splits option.splits outcome.splits)

lemma begin_k_rm_init:
  "start_begin_k E s = Done (None, s') \<Longrightarrow> RmInitRm \<in> set (calls_made s')"
  by (auto simp: start_begin_k_def service_defs split: if_splits option.splits)

text \<open>Every \<open>start\<close> that returns, with the entry points as it calls them, is one of the system's runs.\<close>

lemma kernel_start_reached:
  assumes "kernel_reach P y" and "stage_k y = At Ready"
    and start: "NVMacRMService_start (library_k P) E (kext y) = Done (b, s')"
    and bars: "\<forall>nv. length (bars (snd (rm_start (library_k P) nv))) = length (bars nv)"
  shows "kernel_reach P (y\<lparr>stage_k := At (phase_after b), kext := s'\<rparr>)"
proof -
  let ?R = "library_k P" and ?w = "\<lambda>nv. snd (rm_start (library_k P) nv)"
  from start obtain r1 s1 where begun: "start_begin_k E (kext y) = Done (r1, s1)"
    by (auto simp: start_k_in_stages split: outcome.splits)
  show ?thesis
  proof (cases r1)
    case (Some b1)
    with begun start have "b1 = b" "s1 = s'" by (simp_all add: start_k_in_stages)
    with begun Some assms(1,2) kernel_reach.framework_k [OF assms(1), of "At (phase_after b)" s']
      kext_stage.k_begin_failed [of E "kext y" b s' ?R] show ?thesis by simp
  next
    case None
    let ?y1 = "y\<lparr>stage_k := Initialised, kext := s1\<rparr>"
    have y1: "kernel_reach P ?y1"
      using kernel_reach.framework_k [OF assms(1), of Initialised s1] assms(2) begun None
        kext_stage.k_begun [of E "kext y" s1 ?R] by simp
    from start begun None obtain r2 s2 where attach: "start_attach_k ?R E s1 = Done (r2, s2)"
      by (auto simp: start_k_in_stages split: outcome.splits)
    show ?thesis
    proof (cases r2)
      case (Some b2)
      with start begun None attach have "b2 = b" "s2 = s'" by (simp_all add: start_k_in_stages)
      with attach Some kernel_reach.framework_k [OF y1, of "At (phase_after b)" s']
        kext_stage.k_attach_failed [of ?R E s1 b s'] show ?thesis by simp
    next
      case attached: None
      with start begun None attach have b: "b = kern_bool KERN_SUCCESS" and s': "s' = enter_rm ?R s2"
        by (simp_all add: start_k_in_stages)
      let ?y2 = "?y1\<lparr>stage_k := Attached, kext := s2\<rparr>"
      have stage: "kext_stage ?R Initialised s1 Attached s2"
        using attach attached kext_stage.k_attached by simp
      have y2: "kernel_reach P ?y2" using kernel_reach.framework_k [OF y1, of Attached s2] stage by simp
      from begin_k_rm_init [of E "kext y" s1] begun None kext_stage_calls [OF stage]
      have runs: "rm_runs_k ?y2" by (auto simp: rm_runs_k_def)
      from attach attached obtain a st where st: "nvd_state s2 = Some (a, st)"
        by (auto simp: start_attach_k_def Let_def split: option.splits if_splits outcome.splits
            elim!: place_device_k_done)
      have "kernel_step P ?y2 (RmWriteState ?w) = Done (?y2\<lparr>kext := s'\<rparr>)"
        using st by (simp add: s' enter_rm_def)
      from kernel_reach.resource_manager_k [OF y2 runs _ this] bars
      have y3: "kernel_reach P (?y2\<lparr>kext := s'\<rparr>)" by simp
      from kernel_reach.framework_k [OF y3, of "At (phase_after b)" s'] kext_stage.k_returned [of ?R s']
      show ?thesis by (simp add: b)
    qed
  qed
qed

end
