(* ===== verification/KernelProps.thy ===== *)
theory KernelProps
  imports KernelSystem
begin

text \<open>
  Properties of the kernel system: the references that are held at any moment, and which calls
  of the resource manager return.
\<close>

section \<open>An example run\<close>

definition example_kernel :: "(string \<Rightarrow> os_object option) kernel_platform" where
  "example_kernel = \<lparr>objects_k = map_libkern, required_k = example_cast, modes_k = example_modes,
     caches_k = example_k_cache, flags_k = example_flags, library_k = example_rm\<rparr>"

definition kernel_at :: "stage \<Rightarrow> service_state \<Rightarrow> (string \<Rightarrow> os_object option) kernel_system" where
  "kernel_at ph s = \<lparr>stage_k = ph, kext = s, tracker_k = Map.empty, mappings_k = Map.empty,
     pages_k = [], freed_k = [], refs_k = [], log_k = []\<rparr>"

lemma example_kernel_sound: "sound_kernel example_kernel"
  using map_system.mapping_system_axioms map_libkern_factories
  by (simp add: sound_kernel_def example_kernel_def)

lemma kernel_at_step:
  assumes "kernel_reach example_kernel (kernel_at ph s)" and "kext_stage example_rm ph s ph' s'"
  shows "kernel_reach example_kernel (kernel_at ph' s')"
  using kernel_reach.framework_k [OF assms(1), of ph' s'] assms(2)
  by (simp add: kernel_at_def example_kernel_def)

text \<open>The driver attaches its device when the framework and the device refuse.\<close>

definition refusing_kext :: kext_env where
  "refusing_kext = example_kext\<lparr>super_start_ok := False, open_ok := False\<rparr>"

lemma example_kernel_ready: "kernel_reach example_kernel (kernel_at (At Ready) ready_state)"
proof -
  have "kernel_reach example_kernel (kernel_at (At Fresh) fresh_state)"
    by (rule kernel_reach.boot_k) (simp_all add: kernel_at_def pristine_def fresh_state_def
        example_kernel_def map_libkern_empty)
  moreover have "NVMacRMService_init example_rm refusing_kext fresh_state = (True, ready_state)"
    by (simp add: NVMacRMService_init_def refusing_kext_def example_kext_def fresh_state_def
        ready_state_def service_defs)
  ultimately show ?thesis using kernel_at_step kext_stage.k_inited by blast
qed

lemma example_kernel_attached:
  obtains s st where "kernel_reach example_kernel (kernel_at (At Halted) s)"
    and "RmInitRm \<in> set (calls_made s)" and "nvd_state s = Some (0x100, st)" and "device st = 0x300"
    and "dma_mask st = 0" and "\<exists>nv. RmStart nv \<in> set (calls_made s) \<and> handle_of nv = 0x300"
    and "CloseDevice \<notin> set (calls_made s)" and "find_bar 0xFD000000 (bars (nv_state_of st)) 0 = 0"
proof -
  let ?st1 = "(zero_state example_rm)\<lparr>service := this_service refusing_kext\<rparr>"
  have env: "\<not> super_start_ok refusing_kext" "\<not> open_ok refusing_kext"
    "provider_device refusing_kext = 0x300" "\<forall>k. device_memory refusing_kext k \<noteq> None"
    by (simp_all add: refusing_kext_def example_kext_def)
  have ready: "nvd_state ready_state = Some (0x100, zero_state example_rm)"
    "calls_made ready_state = []" by (simp_all add: ready_state_def fresh_state_def)
  define s1 where "s1 = note_calls [Register, RmInitRm]
      (note_calls [SuperStart] ready_state\<lparr>nvd_state := Some (0x100, ?st1)\<rparr>)"
  have begun: "start_begin_k refusing_kext ready_state = Done (None, s1)"
    using env(1) ready by (simp add: start_begin_k_def kext_flags service_defs s1_def)
  from start_k_attaches [OF env(1) _ env(2) ready(1) env(4)] env(3)
  obtain s' where start: "NVMacRMService_start example_rm refusing_kext ready_state = Done (False, s')"
    by auto
  let ?s0 = "note_calls [OpenDevice] (s1\<lparr>opened := open_ok refusing_kext\<rparr>)"
  have s1: "nvd_state s1 = Some (0x100, ?st1)" "calls_made s1 = [SuperStart, Register, RmInitRm]"
    using ready by (simp_all add: s1_def service_defs)
  from start begun env s1(1) obtain probed s2 where
    attach: "start_attach_k example_rm refusing_kext s1 = Done (None, s2)" and
    placed: "place_device_k example_rm refusing_kext probed 0x100 ?st1 ?s0 = Done s2"
    by (auto simp: start_k_in_stages start_attach_k_def kext_flags split: outcome.splits)
  from place_device_k_done [OF placed] obtain nv where s2: "handle_of nv = 0x300"
    "rm_starts s2 = insert nv (rm_starts ?s0)"
    "nvd_state s2 = Some (0x100, ?st1\<lparr>nv_state_of := nv, device := 0x300\<rparr>)"
    "set (calls_made ?s0) \<subseteq> set (calls_made s2)" "closed_once s2 = closed_once ?s0"
    unfolding env(3) by metis
  have mem: "\<forall>k < min (NVRM_PCICFG_NUM_BARS example_rm) (NV_GPU_NUM_BARS example_rm).
      device_memory refusing_kext k = Some (0x1000000, 0xFD000000)"
    by (simp add: refusing_kext_def example_kext_def)
  have "length (bars (nv_state_of ?st1)) = NV_GPU_NUM_BARS example_rm" by (simp add: zero_state_def)
  from place_device_k_bars [OF placed this mem] s2(3)
  have "0 < length (bars nv)" "cpu_address (bars nv ! 0) = 0xFD000000" by (auto simp: example_rm_def)
  then have bar: "find_bar 0xFD000000 (bars nv) 0 = 0" by (simp add: find_bar_first [of 0])
  note kernel_at_step [OF example_kernel_ready kext_stage.k_begun [OF begun]]
  note kernel_at_step [OF this kext_stage.k_attached [OF attach]]
  from kernel_at_step [OF this kext_stage.k_returned]
  have reach: "kernel_reach example_kernel (kernel_at (At Halted) s2)" by (simp add: kext_flags)
  show thesis
  proof (rule that [OF reach _ s2(3)])
    show "RmInitRm \<in> set (calls_made s2)" using s2(4) s1(2) by (auto simp: service_defs)
    have "nv \<in> rm_starts s2" using s2(2) by simp
    with s2(1) show "\<exists>nv. RmStart nv \<in> set (calls_made s2) \<and> handle_of nv = 0x300"
      by (auto simp: rm_starts_def)
    show "CloseDevice \<notin> set (calls_made s2)"
      using s2(5) s1(2) by (simp add: closed_once_def service_defs)
  qed (simp_all add: zero_state_def bar)
qed

section \<open>Properties\<close>

text \<open>
  C16. The references of the kernel system, at any moment of any run: one to the block of the
  state while it is the global state; one to the device it attached, until \<open>free\<close> gives it back,
  which it only does when \<open>stop\<close> was not called before; one for each address an object is mapped
  at; those of the page allocations the resource manager has; and the pairing of each allocation
  it freed.
\<close>

theorem kernel_references:
  assumes "sound_kernel P" and "kernel_reach P y"
  shows "balance (held (kext y) @ refs_k y) x =
    (if \<exists>st. nvd_state (kext y) = Some (x, st) then 1 else 0) +
    (if (\<exists>nv. RmStart nv \<in> set (calls_made (kext y)) \<and> handle_of nv = x) \<and>
        (stage_k y = At Gone \<longrightarrow> CloseDevice \<in> set (calls_made (kext y))) then 1 else 0) +
    mapped_times (live_map_k P y) x +
    (\<Sum>p \<leftarrow> pages_k y. holds_object p x) +
    int (length (filter (\<lambda>p. \<exists>cmd desc. p = Pairing x cmd desc) (freed_k y)))"
proof -
  note inv = kernel_reach_inv [OF assms]
  have "pages_left ps x = int (length (filter (\<lambda>p. \<exists>cmd desc. p = Pairing x cmd desc) ps))"
    if "\<forall>p \<in> set ps. is_pairing p" for ps
    using that by (induction ps) (auto simp: pages_left_def is_pairing_def)
  with kernel_invD(4,5) [OF inv] kext_stage_balance [OF kernel_invD(1) [OF inv]] show ?thesis
    by (simp add: device_owed_def pages_own_def)
qed

text \<open>
  A run that allocates pages and frees them, and is stopped and freed: the pairing and the device
  stay.
\<close>

theorem kernel_references_witness:
  "\<exists>y. kernel_reach example_kernel y \<and> stage_k y = At Gone \<and> pages_k y = [] \<and>
     balance (held (kext y) @ refs_k y) 0x500 = 1 \<and>
     balance (held (kext y) @ refs_k y) 0x300 = 1"
proof -
  obtain s st where run: "kernel_reach example_kernel (kernel_at (At Halted) s)"
    "RmInitRm \<in> set (calls_made s)" "nvd_state s = Some (0x100, st)" "device st = 0x300"
    "dma_mask st = 0" "\<exists>nv. RmStart nv \<in> set (calls_made s) \<and> handle_of nv = 0x300"
    by (rule example_kernel_attached) blast
  let ?y = "kernel_at (At Halted) s"
  have plat: "modes_k example_kernel = example_modes" "caches_k example_kernel = example_k_cache"
    "flags_k example_kernel = example_flags" "library_k example_kernel = example_rm"
    "objects_k example_kernel = map_libkern"
    by (simp_all add: example_kernel_def)
  have "\<exists>r. alloc_now example_kernel ?y example_k_request = Done r \<and>
      priv r = Some (Pairing 0x500 0x400 0x300)"
    using run(3,5)
    by (simp add: plat kernel_at_def alloc_k_def nv_alloc_pages_k_def Let_def bufferOptions_k_def
        example_modes_def bitMask_k_def example_k_buffer_def example_k_request_def)
  then obtain r where r: "alloc_now example_kernel ?y example_k_request = Done r"
    "priv r = Some (Pairing 0x500 0x400 0x300)" by blast
  let ?y1 = "?y\<lparr>pages_k := [Pairing 0x500 0x400 0x300], refs_k := alloc_refs r\<rparr>"
  have runs: "rm_runs_k ?y" "rm_runs_k ?y1" using run(2) by (simp_all add: rm_runs_k_def kernel_at_def)
  have "kernel_step example_kernel ?y (RmAllocPages example_k_request) = Done ?y1"
    using r by (simp add: with_pages_k_def) (simp add: kernel_at_def)
  from kernel_reach.resource_manager_k [OF run(1) runs(1) _ this]
  have y1: "kernel_reach example_kernel ?y1" by simp
  obtain evs where "kernel_step example_kernel ?y1 (RmFreePages 0) =
      Done (?y1\<lparr>pages_k := [], freed_k := [Pairing 0x500 0x400 0x300], refs_k := evs\<rparr>)"
    (is "_ = Done ?y2")
    by (simp add: with_pages_k_def free_k_def nv_free_pages_k_def without_def)
      (simp add: kernel_at_def)
  from kernel_reach.resource_manager_k [OF y1 runs(2) _ this]
  have y2: "kernel_reach example_kernel ?y2" by simp
  from NVMac_stop_state [OF run(3)] obtain s2 where stop: "NVMacRMService_stop s = Done s2"
    "nvd_state s2 = Some (0x100, st\<lparr>device := NULL\<rparr>)" by auto
  have closed: "closed_once s2" "rm_starts s2 = rm_starts s"
    using NVMac_stop_calls [OF stop(1) run(3)] run(4) by simp_all
  from stop(2) obtain s3 where free: "NVMacRMService_free s2 = Done s3"
    by (auto simp: NVMacRMService_free_def)
  note s3 = NVMac_free_state [OF free stop(2)]
  have stages: "kext_stage example_rm (At Halted) s (At Halted) s2"
    "kext_stage example_rm (At Halted) s2 (At Gone) s3"
    by (rule kext_stage.k_stopped [OF _ stop(1)] kext_stage.k_freed [OF _ free], simp)+
  have "kernel_reach example_kernel (?y2\<lparr>stage_k := At Halted, kext := s2\<rparr>)"
    using kernel_reach.framework_k [OF y2, of "At Halted" s2] stages(1)
    by (simp add: plat kernel_at_def)
  from kernel_reach.framework_k [OF this, of "At Gone" s3] stages(2)
  have reach: "kernel_reach example_kernel (?y2\<lparr>stage_k := At Gone, kext := s3\<rparr>)"
    by (simp add: plat kernel_at_def)
  have starts: "RmStart nv \<in> set (calls_made s3) \<longleftrightarrow> RmStart nv \<in> set (calls_made s)" for nv
    using s3(2) closed(2) by (auto simp: rm_starts_def)
  have "CloseDevice \<in> set (calls_made s3)" using s3(4) closed(1) by (simp add: closed_once_def)
  moreover have "handle_of nv \<noteq> 0x500" if "RmStart nv \<in> set (calls_made s)" for nv
  proof -
    have "attached_to s 0x300"
      using kernel_invD(1) [OF kernel_reach_inv [OF example_kernel_sound run(1)]] run(3,4)
      by (auto simp: kernel_at_def never_attached_def attached_to_def split: if_splits)
    then obtain nv' where "rm_starts s = {nv'}" "handle_of nv' = 0x300" by (auto simp: attached_to_def)
    moreover from that have "nv \<in> rm_starts s" by (simp add: rm_starts_def)
    ultimately show ?thesis by simp
  qed
  moreover have "mapped_view map_libkern Map.empty = Map.empty"
    using view_of_empty [of map_libkern Map.empty] by (simp add: map_libkern_empty)
  ultimately show ?thesis
    using kernel_references [OF example_kernel_sound reach] run(6) s3(1) starts reach
    by (intro exI [of _ "?y2\<lparr>stage_k := At Gone, kext := s3\<rparr>"])
      (auto simp: plat kernel_at_def mapped_times_empty)
qed

text \<open>When the kernel allocation returns, and when the mapping does.\<close>

lemma alloc_pages_k_done_iff:
  "is_done (alloc_k M C F nvd q) \<longleftrightarrow>
     bufferOptions_k M C F (rqk_cache_type q) (rqk_contiguous q) = None \<or>
     (\<exists>a st. nvd = Some (a, st) \<and> unat (dma_mask st) < 32) \<and>
     (k_descriptor (rqk_buffer q) = NULL \<or> k_command (rqk_buffer q) = NULL \<or>
      gen_segments (rqk_buffer q) = [] \<and>
        (gen_result (rqk_buffer q) \<noteq> KERN_SUCCESS \<or> k_pairing (rqk_buffer q) \<noteq> NULL))"
proof (cases nvd)
  case None
  then show ?thesis
    by (simp add: alloc_k_def nv_alloc_pages_k_def bitMask_k_def Let_def split: option.split)
next
  case (Some x)
  then show ?thesis
    by (cases x; cases "bufferOptions_k M C F (rqk_cache_type q) (rqk_contiguous q)")
      (simp_all add: alloc_k_def nv_alloc_pages_k_def bitMask_k_def Let_def)
qed

lemma map_k_done_iff:
  "is_done (os_map_kernel_space_k K M C nvd d ans start sz mode) \<longleftrightarrow>
     nvd \<noteq> None \<and> (\<not> bar_found nvd start \<or> memoryMode_k M C mode = None \<or>
       device_present nvd \<and> k_mapping ans \<noteq> NULL)"
proof (cases nvd)
  case None
  then show ?thesis by (simp add: map_defs)
next
  case (Some x)
  then show ?thesis
    by (cases x; cases "memoryMode_k M C mode") (simp_all add: map_defs bar_found_def)
qed

text \<open>
  C17. Which calls of the resource manager fault, in every reachable state of the kernel system.
  The tracker, unmapping and freeing pages never do.  A mapping of a recorded BAR works from the
  attachment of the device to the first \<open>stop\<close>, if the device maps it; before and after it
  dereferences \<open>NULL\<close>, and so does every mapping once the driver is freed.  The framework takes a
  driver that attached its device for one that failed to start: while it runs no BAR can be
  mapped.  An allocation of pages needs a DMA mask below 32 and a command without segments.
\<close>

theorem kernel_calls_return_iff:
  assumes "sound_kernel P" and "kernel_reach P y" and "rm_runs_k y" and "usable_k c"
  shows "(stage_k y = At Running \<longrightarrow> (\<forall>nv. RmStart nv \<notin> set (calls_made (kext y)))) \<and>
    (is_done (kernel_step P y c) \<longleftrightarrow>
    (case c of
       RmMap (ans, start, _, mode) \<Rightarrow> stage_k y \<noteq> At Gone \<and>
         (\<not> bar_found (nvd_state (kext y)) start \<or> memoryMode_k (modes_k P) (caches_k P) mode = None \<or>
          (\<exists>nv. RmStart nv \<in> set (calls_made (kext y))) \<and>
            CloseDevice \<notin> set (calls_made (kext y)) \<and> k_mapping ans \<noteq> NULL)
     | RmAllocPages q \<Rightarrow>
         bufferOptions_k (modes_k P) (caches_k P) (flags_k P) (rqk_cache_type q) (rqk_contiguous q) = None \<or>
         (\<exists>a st. nvd_state (kext y) = Some (a, st) \<and> unat (dma_mask st) < 32) \<and>
         (k_descriptor (rqk_buffer q) = NULL \<or> k_command (rqk_buffer q) = NULL \<or>
          gen_segments (rqk_buffer q) = [] \<and>
            (gen_result (rqk_buffer q) \<noteq> KERN_SUCCESS \<or> k_pairing (rqk_buffer q) \<noteq> NULL))
     | RmSetDmaSize bits \<Rightarrow> unat bits < 64 \<and> stage_k y \<noteq> At Gone
     | RmWriteState _ \<Rightarrow> stage_k y \<noteq> At Gone
     | _ \<Rightarrow> True))"
proof -
  note inv = kernel_reach_inv [OF assms(1,2)]
  have "stage_k y \<notin> {At Fresh, At Ready}" using kernel_invD(7) [OF inv] assms(3) by blast
  note st = kext_stage_state [OF kernel_invD(1) [OF inv] this]
  have "is_done (kernel_step P y c) \<longleftrightarrow> (case c of
       RmMap (ans, start, _, mode) \<Rightarrow> nvd_state (kext y) \<noteq> None \<and>
         (\<not> bar_found (nvd_state (kext y)) start \<or> memoryMode_k (modes_k P) (caches_k P) mode = None \<or>
          device_present (nvd_state (kext y)) \<and> k_mapping ans \<noteq> NULL)
     | RmAllocPages q \<Rightarrow> is_done (alloc_now P y q)
     | RmSetDmaSize bits \<Rightarrow> unat bits < 64 \<and> nvd_state (kext y) \<noteq> None
     | RmWriteState _ \<Rightarrow> nvd_state (kext y) \<noteq> None
     | _ \<Rightarrow> True)"
  proof (cases c)
    case (RmMem op)
    with mem_call_typed_k [OF assms(1) inv, of op] show ?thesis by (auto simp del: libc_run.simps)
  next
    case (RmMap a)
    obtain ans start sz mode where a: "a = (ans, start, sz, mode)" by (metis surj_pair)
    have "is_done (kernel_step P y c) \<longleftrightarrow>
        is_done (os_map_kernel_space_k (objects_k P) (modes_k P) (caches_k P) (nvd_state (kext y))
          (mappings_k y) ans start sz mode)"
      by (simp add: RmMap a with_refs_k_def split: outcome.splits)
    then show ?thesis by (simp add: RmMap a map_k_done_iff)
  next
    case (RmUnmap p sz)
    from assms(1) have sys: "mapping_system (objects_k P) (required_k P)" by (simp add: sound_kernel_def)
    from assms(4) RmUnmap have "block_pointer p" by simp
    from mapping_system.k_unmap_step [OF sys kernel_invD(2) [OF inv] this, of sz] RmUnmap
    show ?thesis by (auto simp: with_refs_k_def)
  next
    case (RmAllocPages q)
    then show ?thesis by (auto simp: with_pages_k_def split: outcome.splits)
  next
    case (RmFreePages i)
    have "is_done (page_run (alloc_now P y) free_k (pages_k y) [FreePages i])"
      by (rule pages_k.run_returns [OF kernel_invD(3) [OF inv]]) simp
    with RmFreePages show ?thesis
      by (cases "page_run (alloc_now P y) free_k (pages_k y) [FreePages i]")
        (auto simp: with_pages_k_def simp del: page_run.simps)
  next
    case (RmSetDmaSize bits)
    then show ?thesis by (auto simp: nv_set_dma_address_size_def split: option.splits)
  next
    case (RmWriteState w)
    then show ?thesis by (auto split: option.splits)
  qed
  with st show ?thesis by (auto simp: alloc_pages_k_done_iff split: rm_call.splits)
qed

text \<open>Once the device's 32 address bits are set, pages cannot be allocated.\<close>

theorem kernel_calls_return_iff_witness:
  "\<exists>y. kernel_reach example_kernel y \<and> stage_k y = At Halted \<and>
     \<not> is_done (kernel_step example_kernel y (RmAllocPages example_k_request)) \<and>
     is_done (kernel_step example_kernel y (RmUnmap 0x7000 0x1000))"
proof -
  obtain s st where run: "kernel_reach example_kernel (kernel_at (At Halted) s)"
    "RmInitRm \<in> set (calls_made s)" "nvd_state s = Some (0x100, st)"
    by (rule example_kernel_attached) blast
  let ?y = "kernel_at (At Halted) s"
  let ?y1 = "?y\<lparr>kext := s\<lparr>nvd_state := Some (0x100, st\<lparr>dma_mask := 0xFFFFFFFF\<rparr>)\<rparr>\<rparr>"
  have runs: "rm_runs_k ?y" "rm_runs_k ?y1" using run(2) by (simp_all add: rm_runs_k_def kernel_at_def)
  have "kernel_step example_kernel ?y (RmSetDmaSize 32) = Done ?y1"
    using run(3) by (simp add: kernel_at_def nv_set_dma_address_size_def)
  from kernel_reach.resource_manager_k [OF run(1) runs(1) _ this]
  have reach: "kernel_reach example_kernel ?y1" by simp
  have opts: "bufferOptions_k example_modes example_k_cache example_flags 1 True \<noteq> None"
    by (simp add: bufferOptions_k_def example_modes_def)
  have plat: "modes_k example_kernel = example_modes" "caches_k example_kernel = example_k_cache"
    "flags_k example_kernel = example_flags" by (simp_all add: example_kernel_def)
  have req: "rqk_cache_type example_k_request = 1" "rqk_contiguous example_k_request = True"
    by (simp_all add: example_k_request_def)
  note claim = kernel_calls_return_iff [OF example_kernel_sound reach runs(2)]
  have "\<not> is_done (kernel_step example_kernel ?y1 (RmAllocPages example_k_request))"
    using claim [of "RmAllocPages example_k_request"] opts
    by (simp add: plat req kernel_at_def del: kernel_step.simps)
  moreover have "is_done (kernel_step example_kernel ?y1 (RmUnmap 0x7000 0x1000))"
    using claim [of "RmUnmap 0x7000 0x1000"]
    by (simp add: block_pointer_def canonical_def del: kernel_step.simps)
  moreover have "stage_k ?y1 = At Halted" by (simp add: kernel_at_def)
  ultimately show ?thesis using reach by blast
qed

end
