(* ===== verification/KernelUnload.thy ===== *)
theory KernelUnload
  imports KernelProps
begin

text \<open>
  Mappings that the framework interrupts in the kernel: threads of the resource manager inside
  \<open>os_map_kernel_space\<close> of \<open>memory_kernel.cpp\<close> while the driver is stopped or freed.  The
  function reads the device once and calls it later; unlike on DriverKit it does not go through
  the global pointer again, and \<open>free\<close> may have given the device back in between.
\<close>

section \<open>The function in steps\<close>

text \<open>
  \<open>HasDevice\<close> has the address of the state's block and the device, \<open>AsksDevice\<close> the device, the
  index of the BAR and the options of the mapping; \<open>Fell\<close> notes the device it had read and the
  request.
\<close>

datatype mapper_k =
    Away
  | Entered "k_answers map_request"
  | HasDevice ptr ptr "k_answers map_request"
  | AsksDevice ptr u8 u32 "k_answers map_request"
  | Fell fault "ptr option" "k_answers map_request"

text \<open>The last part of the function, after the device has returned a mapping.\<close>

fun map_rest_k :: "'d kernel_platform \<Rightarrow> 'd kernel_system \<Rightarrow> k_answers map_request \<Rightarrow> 'd kernel_system" where
  "map_rest_k P y (ans, start, sz, mode) =
     y\<lparr>mappings_k := reg_put (objects_k P) (mappings_k y) (physical_address ans)
         (IOMemoryMapObject (k_mapping ans)),
       refs_k := refs_k y @ Obtain (k_mapping ans) #
         set_events (objects_k P) (mappings_k y) (physical_address ans) (k_mapping ans)
         @ [Release (k_mapping ans)]\<rparr>"

text \<open>One step of a thread: the system and the thread after it.\<close>

fun map_micro_k :: "'d kernel_platform \<Rightarrow> 'd kernel_system \<Rightarrow> mapper_k \<Rightarrow> 'd kernel_system \<times> mapper_k" where
  "map_micro_k P y (Entered q) =
     (y, case nvd_state (kext y) of None \<Rightarrow> Fell NullDereference None q
         | Some (a, st) \<Rightarrow> HasDevice a (device st) q)"
| "map_micro_k P y (HasDevice a dev q) =
     (y, case nvd_state (kext y) of None \<Rightarrow> Fell UseAfterFree (Some dev) q
         | Some (a', st) \<Rightarrow>
             if a' \<noteq> a then Fell UseAfterFree (Some dev) q
             else (let idx = find_bar (fst (snd q)) (bars (nv_state_of st)) 0 in
                   if idx = 0xFF then Away
                   else (case memoryMode_k (modes_k P) (caches_k P) (snd (snd (snd q))) of
                           None \<Rightarrow> Away
                         | Some memoryMode \<Rightarrow> AsksDevice dev idx memoryMode q)))"
| "map_micro_k P y (AsksDevice dev idx memoryMode q) =
     (if dev = NULL \<or> k_mapping (fst q) = NULL then (y, Fell NullDereference (Some dev) q)
      else (map_rest_k P y q, Away))"
| "map_micro_k P y w = (y, w)"

text \<open>A thread that is not interrupted makes the call of \<open>KernelMap\<close>.\<close>

lemma map_micro_k_alone:
  assumes "kernel_step P y (RmMap q) = Done y'"
  shows "\<exists>w. map_micro_k P y (Entered q) = (y, w) \<and>
    (map_micro_k P y w = (y', Away) \<or>
     (\<exists>w'. map_micro_k P y w = (y, w') \<and> map_micro_k P y w' = (y', Away)))"
proof -
  obtain ans start sz mode where q: "q = (ans, start, sz, mode)" by (metis surj_pair)
  from assms obtain a st where st: "nvd_state (kext y) = Some (a, st)"
    by (cases "nvd_state (kext y)") (auto simp: q with_refs_k_def os_map_kernel_space_k_def)
  show ?thesis
  proof (cases "find_bar start (bars (nv_state_of st)) 0 = 0xFF \<or>
      memoryMode_k (modes_k P) (caches_k P) mode = None")
    case True
    with assms q st show ?thesis
      by (auto simp: with_refs_k_def os_map_kernel_space_k_def Let_def)
  next
    case False
    with assms q st have "device st \<noteq> NULL" "k_mapping ans \<noteq> NULL"
      by (auto simp: with_refs_k_def os_map_kernel_space_k_def Let_def split: if_splits)
    with False assms q st show ?thesis
      by (auto simp: with_refs_k_def os_map_kernel_space_k_def Let_def)
  qed
qed

section \<open>The system with interrupted mappings\<close>

inductive kernel_unload ::
  "'d kernel_platform \<Rightarrow> 'd kernel_system \<Rightarrow> (nat \<Rightarrow> mapper_k) \<Rightarrow> bool" for P where
  k_from_run: "kernel_reach P y \<Longrightarrow> kernel_unload P y (\<lambda>_. Away)"
| k_by_framework: "kernel_unload P y ts \<Longrightarrow>
    kext_stage (library_k P) (stage_k y) (kext y) ph s \<Longrightarrow>
    kernel_unload P (y\<lparr>stage_k := ph, kext := s\<rparr>) ts"
| k_by_call: "kernel_unload P y ts \<Longrightarrow> rm_runs_k y \<Longrightarrow> usable_k c \<Longrightarrow> kernel_step P y c = Done y' \<Longrightarrow>
    kernel_unload P y' ts"
| k_enters: "kernel_unload P y ts \<Longrightarrow> rm_runs_k y \<Longrightarrow> usable_k (RmMap q) \<Longrightarrow> ts i = Away \<Longrightarrow>
    kernel_unload P y (ts(i := Entered q))"
| k_continues: "kernel_unload P y ts \<Longrightarrow> map_micro_k P y (ts i) = (y', w) \<Longrightarrow>
    kernel_unload P y' (ts(i := w))"

section \<open>What the steps keep\<close>

definition started_k :: "'d kernel_system \<Rightarrow> bool" where
  "started_k y \<longleftrightarrow> stage_k y \<notin> {At Fresh, At Ready}"

definition same_block_k :: "'d kernel_system \<Rightarrow> 'd kernel_system \<Rightarrow> bool" where
  "same_block_k y y' \<longleftrightarrow>
     started_k y' \<and> set (calls_made (kext y)) \<subseteq> set (calls_made (kext y')) \<and>
     (stage_k y = At Gone \<longrightarrow> stage_k y' = At Gone)"

definition was_started_k :: "'d kernel_system \<Rightarrow> ptr \<Rightarrow> bool" where
  "was_started_k y dev \<longleftrightarrow> dev = NULL \<or>
     (\<exists>nv. RmStart nv \<in> set (calls_made (kext y)) \<and> handle_of nv = dev)"

text \<open>A thread has a device that was attached, and falls for want of one, of a mapping, or of the block.\<close>

fun mapper_k_ok :: "'d kernel_system \<Rightarrow> mapper_k \<Rightarrow> bool" where
  "mapper_k_ok y Away \<longleftrightarrow> True"
| "mapper_k_ok y (Entered (ans, _)) \<longleftrightarrow> started_k y \<and> block_pointer (physical_address ans)"
| "mapper_k_ok y (HasDevice a dev (ans, _)) \<longleftrightarrow> started_k y \<and> block_pointer (physical_address ans) \<and>
     was_started_k y dev \<and> (stage_k y = At Gone \<or> (\<exists>st. nvd_state (kext y) = Some (a, st)))"
| "mapper_k_ok y (AsksDevice dev idx mm (ans, _)) \<longleftrightarrow> started_k y \<and>
     block_pointer (physical_address ans) \<and> was_started_k y dev"
| "mapper_k_ok y (Fell f d q) \<longleftrightarrow>
     stage_k y = At Gone \<or> f = NullDereference \<and> (d = Some NULL \<or> d \<noteq> None \<and> k_mapping (fst q) = NULL)"

lemma kext_stage_forward:
  assumes "kext_stage R ph s ph' s'" and "ph \<notin> {At Fresh, At Ready}"
  shows "ph' \<notin> {At Fresh, At Ready} \<and> ph \<noteq> At Gone"
  using assms by (cases rule: kext_stage.cases) (auto simp: phase_after_def)

lemma kext_stage_block:
  assumes "kext_stage R ph s ph' s'" and "ph \<notin> {At Fresh, At Ready}"
    and "nvd_state s = Some (a, st)" and "ph' \<noteq> At Gone"
  shows "\<exists>st'. nvd_state s' = Some (a, st')"
  using assms(1)
proof (cases rule: kext_stage.cases)
  case (k_attached E)
  with assms(3) show ?thesis
    by (auto simp: start_attach_k_def Let_def split: if_splits outcome.splits elim!: place_device_k_done)
next
  case (k_attach_failed E b)
  with assms(3) show ?thesis
    by (auto simp: start_attach_k_def service_defs split: if_splits outcome.splits)
next
  case (k_stopped p)
  with NVMac_stop_state [OF assms(3)] show ?thesis by auto
qed (use assms in auto)

lemma kernel_step_block:
  assumes "kernel_step P y c = Done y'"
  shows "calls_made (kext y') = calls_made (kext y) \<and> stage_k y' = stage_k y \<and>
    (\<forall>a st. nvd_state (kext y) = Some (a, st) \<longrightarrow> (\<exists>st'. nvd_state (kext y') = Some (a, st')))"
  using assms
  by (cases c) (auto simp: with_refs_k_def with_pages_k_def nv_set_dma_address_size_def
      simp del: libc_run.simps page_run.simps request_k.simps
      split: outcome.splits option.splits if_splits)

text \<open>A thread is carried along by a step that keeps the calls made and, until \<open>free\<close>, the block.\<close>

lemma mapper_k_kept:
  assumes "mapper_k_ok y w" and "started_k y \<Longrightarrow> same_block_k y y'"
    and "\<And>a st. started_k y \<Longrightarrow> nvd_state (kext y) = Some (a, st) \<Longrightarrow> stage_k y' \<noteq> At Gone \<Longrightarrow>
      \<exists>st'. nvd_state (kext y') = Some (a, st')"
  shows "mapper_k_ok y' w"
proof -
  have calls: "started_k y \<Longrightarrow> was_started_k y dev \<Longrightarrow> was_started_k y' dev" for dev
    using assms(2) by (auto simp: same_block_k_def was_started_k_def)
  have gone: "stage_k y = At Gone \<Longrightarrow> stage_k y' = At Gone"
    using assms(2) by (auto simp: same_block_k_def started_k_def)
  have later: "started_k y \<Longrightarrow> started_k y'" using assms(2) by (simp add: same_block_k_def)
  show ?thesis
    using assms(1,3) calls gone later by (cases "(y, w)" rule: mapper_k_ok.cases) auto
qed

lemma map_rest_k_kext:
  "kext (map_rest_k P y q) = kext y" "stage_k (map_rest_k P y q) = stage_k y"
  "pages_k (map_rest_k P y q) = pages_k y" "freed_k (map_rest_k P y q) = freed_k y"
  by (cases q, simp)+

lemma micro_k_kext:
  "map_micro_k P y w = (y', w') \<Longrightarrow> kext y' = kext y \<and> stage_k y' = stage_k y"
  by (cases "(P, y, w)" rule: map_micro_k.cases)
    (auto simp: map_rest_k_kext simp del: map_rest_k.simps split: option.splits if_splits)

lemma mapper_k_same:
  "kext y' = kext y \<Longrightarrow> stage_k y' = stage_k y \<Longrightarrow> mapper_k_ok y' w = mapper_k_ok y w"
  by (cases "(y, w)" rule: mapper_k_ok.cases) (simp_all add: started_k_def was_started_k_def)

text \<open>The end of the function is that of a call the device answers.\<close>

lemma map_rest_k_inv:
  assumes "sound_kernel P" and "kernel_inv P y" and "block_pointer (physical_address (fst q))"
    and "k_mapping (fst q) \<noteq> NULL"
  shows "kernel_inv P (map_rest_k P y q)"
proof -
  obtain ans start sz mode where q: "q = (ans, start, sz, mode)" by (metis surj_pair)
  let ?b = "\<lparr>cpu_address = start, aperture_size = 0, cfg_offset = 0\<rparr>"
  let ?q = "(ans, start, sz, NV_MEMORY_CACHED (modes_k P))"
  define st where "st = (undefined :: nv_darwin_state)
    \<lparr>nv_state_of := (undefined :: nv_state)\<lparr>bars := [?b]\<rparr>, device := 1\<rparr>"
  have req: "request_k (objects_k P) (modes_k P) (caches_k P) (Some (0, st)) (mappings_k y) ?q =
      Done (mappings_k (map_rest_k P y q),
        Obtain (k_mapping ans) #
          set_events (objects_k P) (mappings_k y) (physical_address ans) (k_mapping ans)
          @ [Release (k_mapping ans)])"
    using assms(4) by (simp add: q st_def os_map_kernel_space_k_def memoryMode_k_def Let_def)
  have "good_op (maps_k (modes_k P) (caches_k P) (Some (0, st))) (MapOp ?q)"
    using assms(3) q by (auto simp: good_op_def split: if_splits)
  from map_call_inv_k [OF assms(1,2) this] req show ?thesis
    by (simp add: q del: request_k.simps)
qed

lemma started_state_k:
  assumes "kernel_inv P y" and "started_k y"
  shows "nvd_state (kext y) = None \<longleftrightarrow> stage_k y = At Gone"
  using kext_stage_state(1) [OF kernel_invD(1) [OF assms(1)]] assms(2) by (auto simp: started_k_def)

lemma device_was_started_k:
  assumes "kernel_inv P y" and "nvd_state (kext y) = Some (a, st)"
  shows "was_started_k y (device st)"
  using kernel_invD(1) [OF assms(1)] assms(2)
  by (cases "(library_k P, stage_k y, kext y)" rule: kext_stage_inv.cases;
      cases "case stage_k y of At p \<Rightarrow> p | _ \<Rightarrow> Fresh")
    (auto simp: was_started_k_def begun_k_def device_kept_def attached_to_def rm_starts_def
      zero_state_def split: if_splits)

lemma micro_k_inv:
  assumes "sound_kernel P" and "kernel_inv P y" and "mapper_k_ok y w" and "map_micro_k P y w = (y', w')"
  shows "kernel_inv P y' \<and> mapper_k_ok y' w'"
proof (cases w)
  case (Entered q)
  obtain ans r where q: "q = (ans, r)" by (cases q)
  with assms(3) Entered have st: "started_k y" "block_pointer (physical_address ans)" by simp_all
  show ?thesis
  proof (cases "nvd_state (kext y)")
    case None
    with assms(2,4) Entered started_state_k [OF assms(2) st(1)] show ?thesis by auto
  next
    case (Some x)
    obtain a s where "x = (a, s)" by (cases x)
    with Some assms(2,4) Entered q st device_was_started_k [OF assms(2)] show ?thesis by auto
  qed
next
  case (HasDevice a dev q)
  obtain ans start sz mode where q: "q = (ans, start, sz, mode)" by (metis surj_pair)
  with assms(3,4) HasDevice show ?thesis
    using assms(2) started_state_k [OF assms(2)]
    by (auto simp: Let_def split: option.splits if_splits)
next
  case (AsksDevice dev idx mm q)
  obtain ans r where q: "q = (ans, r)" by (cases q)
  with assms(3,4) AsksDevice show ?thesis
    using assms(2) map_rest_k_inv [OF assms(1,2), of q]
    by (auto simp del: map_rest_k.simps split: if_splits)
qed (use assms in auto)

lemma kernel_unload_inv:
  assumes "sound_kernel P"
  shows "kernel_unload P y ts \<Longrightarrow> kernel_inv P y \<and> (\<forall>i. mapper_k_ok y (ts i))"
proof (induction rule: kernel_unload.induct)
  case (k_from_run y)
  with kernel_reach_inv [OF assms] show ?case by simp
next
  case (k_by_framework y ts ph s)
  then have inv: "kernel_inv P y" by simp
  let ?y = "y\<lparr>stage_k := ph, kext := s\<rparr>"
  note stage = k_by_framework.hyps(2)
  have block: "same_block_k y ?y" if "started_k y"
    using kext_stage_forward [OF stage] kext_stage_calls [OF stage] that
    by (auto simp: same_block_k_def started_k_def)
  have "mapper_k_ok ?y (ts i)" for i
  proof (rule mapper_k_kept [OF _ block])
    show "mapper_k_ok y (ts i)" using k_by_framework.IH by simp
    show "\<exists>st'. nvd_state (kext ?y) = Some (a, st')"
      if "started_k y" "nvd_state (kext y) = Some (a, st)" "stage_k ?y \<noteq> At Gone" for a st
      using kext_stage_block [OF stage _ that(2)] that(1,3) by (simp add: started_k_def)
  qed simp_all
  with kernel_inv_framework [OF inv stage] show ?case by blast
next
  case (k_by_call y ts c y')
  then have inv: "kernel_inv P y" by simp
  note keeps = kernel_step_block [OF k_by_call.hyps(4)]
  have "mapper_k_ok y' (ts i)" for i
    by (rule mapper_k_kept [of y]) (use k_by_call.IH keeps in \<open>auto simp: same_block_k_def started_k_def\<close>)
  with kernel_inv_rm [OF assms inv k_by_call.hyps(2-4)] show ?case by blast
next
  case (k_enters y ts q i)
  obtain ans r where "q = (ans, r)" by (cases q)
  moreover have "started_k y"
    using k_enters.IH k_enters.hyps(2) kernel_invD(7) [of P y] by (auto simp: started_k_def)
  ultimately show ?case using k_enters by simp
next
  case (k_continues y ts i y' w)
  then have inv: "kernel_inv P y" and ok: "mapper_k_ok y (ts i)" by simp_all
  from micro_k_kext [OF k_continues.hyps(2)] have "mapper_k_ok y' (ts j) = mapper_k_ok y (ts j)" for j
    by (intro mapper_k_same) simp_all
  with micro_k_inv [OF assms inv ok k_continues.hyps(2)] k_continues.IH show ?case by simp
qed

section \<open>Properties\<close>

text \<open>
  C18. A kernel mapping that is interrupted, at any point and by any number of threads at once.
  The device the thread goes on to call has a reference as long as the driver was not freed, and
  afterwards exactly when \<open>stop\<close> was called before: a driver that attached its device and is
  freed without a \<open>stop\<close>, as the framework does with one whose \<open>start\<close> returned false, has
  given the device back while the thread still calls it.  The thread crashes only for want of a
  device or of a mapping, or once the driver is freed; the references of the system are those
  without interruptions.
\<close>

theorem interrupted_kernel_mappings:
  assumes "sound_kernel P" and "kernel_unload P y ts"
  shows "(\<forall>i dev idx mm q. ts i = AsksDevice dev idx mm q \<longrightarrow> dev = NULL \<or>
      (1 \<le> balance (held (kext y)) dev \<longleftrightarrow>
        (stage_k y = At Gone \<longrightarrow> CloseDevice \<in> set (calls_made (kext y))))) \<and>
    (\<forall>i f d q. ts i = Fell f d q \<longrightarrow> stage_k y = At Gone \<or>
      f = NullDereference \<and> (d = Some NULL \<or> d \<noteq> None \<and> k_mapping (fst q) = NULL)) \<and>
    balance (held (kext y) @ refs_k y) x =
      (if \<exists>st. nvd_state (kext y) = Some (x, st) then 1 else 0) +
      (if device_owed (stage_k y) (kext y) x then 1 else 0) +
      mapped_times (live_map_k P y) x + pages_own (pages_k y) x + pages_left (freed_k y) x"
proof -
  from kernel_unload_inv [OF assms] have inv: "kernel_inv P y" and ok: "\<And>i. mapper_k_ok y (ts i)"
    by simp_all
  note refs = kext_stage_balance [OF kernel_invD(1) [OF inv]]
  have "dev = NULL \<or> (1 \<le> balance (held (kext y)) dev \<longleftrightarrow>
        (stage_k y = At Gone \<longrightarrow> CloseDevice \<in> set (calls_made (kext y))))"
    if "ts i = AsksDevice dev idx mm q" for i dev idx mm q
  proof (cases "dev = NULL")
    case False
    obtain ans r where "q = (ans, r)" by (cases q)
    with ok [of i] that have "started_k y" "was_started_k y dev" by simp_all
    with False started_state_k [OF inv] show ?thesis
      by (auto simp: refs device_owed_def was_started_k_def)
  qed simp
  moreover have "stage_k y = At Gone \<or>
      f = NullDereference \<and> (d = Some NULL \<or> d \<noteq> None \<and> k_mapping (fst q) = NULL)"
    if "ts i = Fell f d q" for i f d q using ok [of i] that by simp
  moreover have "balance (held (kext y) @ refs_k y) x =
      (if \<exists>st. nvd_state (kext y) = Some (x, st) then 1 else 0) +
      (if device_owed (stage_k y) (kext y) x then 1 else 0) +
      mapped_times (live_map_k P y) x + pages_own (pages_k y) x + pages_left (freed_k y) x"
    using kernel_invD(5) [OF inv, of x] refs [of x] by simp
  ultimately show ?thesis by blast
qed

text \<open>A mapping begun after the driver attached its device, which the framework then frees.\<close>

theorem interrupted_kernel_mappings_witness:
  "\<exists>y ts idx mm q. kernel_unload example_kernel y ts \<and> stage_k y = At Gone \<and>
     ts 0 = AsksDevice 0x300 idx mm q \<and> k_mapping (fst q) = 0x700 \<and>
     \<not> 1 \<le> balance (held (kext y)) 0x300"
proof -
  obtain s st where run: "kernel_reach example_kernel (kernel_at (At Halted) s)"
    "RmInitRm \<in> set (calls_made s)" "nvd_state s = Some (0x100, st)" "device st = 0x300"
    "CloseDevice \<notin> set (calls_made s)" "find_bar 0xFD000000 (bars (nv_state_of st)) 0 = 0"
    by (rule example_kernel_attached) blast
  let ?y = "kernel_at (At Halted) s"
  let ?q = "(\<lparr>k_mapping = 0x700, physical_address = 0xFD000000\<rparr>, 0xFD000000, 0x1000,
      NV_MEMORY_CACHED example_modes) :: k_answers map_request"
  obtain mm where mm: "memoryMode_k example_modes example_k_cache (NV_MEMORY_CACHED example_modes) = Some mm"
    by (simp add: memoryMode_k_def)
  have plat: "modes_k example_kernel = example_modes" "caches_k example_kernel = example_k_cache"
    "library_k example_kernel = example_rm" by (simp_all add: example_kernel_def)
  have at: "kext (kernel_at ph d) = d" "stage_k (kernel_at ph d) = ph"
    "kernel_at ph d\<lparr>stage_k := ph', kext := d'\<rparr> = kernel_at ph' d'" for ph d ph' d'
    by (simp_all add: kernel_at_def)
  have "rm_runs_k ?y" "usable_k (RmMap ?q)"
    using run(2) by (simp_all add: rm_runs_k_def at block_pointer_def canonical_def)
  from kernel_unload.k_enters [OF kernel_unload.k_from_run [OF run(1)] this, of 0]
  have "kernel_unload example_kernel ?y ((\<lambda>_. Away)(0 := Entered ?q))" by simp
  from kernel_unload.k_continues [OF this, of 0 ?y "HasDevice 0x100 0x300 ?q"] run(3,4)
  have "kernel_unload example_kernel ?y ((\<lambda>_. Away)(0 := HasDevice 0x100 0x300 ?q))" by (simp add: at)
  from kernel_unload.k_continues [OF this, of 0 ?y "AsksDevice 0x300 0 mm ?q"] run(3,6) mm
  have asks: "kernel_unload example_kernel ?y ((\<lambda>_. Away)(0 := AsksDevice 0x300 0 mm ?q))"
    by (simp add: at plat)
  from run(3) obtain s3 where free: "NVMacRMService_free s = Done s3"
    by (auto simp: NVMacRMService_free_def)
  have "kext_stage example_rm (At Halted) s (At Gone) s3"
    by (rule kext_stage.k_freed [OF _ free]) simp
  with kernel_unload.k_by_framework [OF asks, of "At Gone" s3]
  have gone: "kernel_unload example_kernel (kernel_at (At Gone) s3)
      ((\<lambda>_. Away)(0 := AsksDevice 0x300 0 mm ?q))"
    by (simp add: at plat)
  have "CloseDevice \<notin> set (calls_made s3)"
    using NVMac_free_state(4) [OF free run(3)] run(5) by (simp add: closed_once_def)
  moreover have "((\<lambda>_. Away)(0 := AsksDevice 0x300 0 mm ?q)) 0 = AsksDevice 0x300 0 mm ?q" by simp
  moreover have "stage_k (kernel_at (At Gone) s3) = At Gone" "kext (kernel_at (At Gone) s3) = s3"
    by (simp_all add: at)
  moreover have "k_mapping (fst ?q) = 0x700" "(0x300 :: ptr) \<noteq> NULL" by simp_all
  ultimately show ?thesis
    using conjunct1 [OF interrupted_kernel_mappings [OF example_kernel_sound gone, of NULL]] gone
    by metis
qed

end
