(* ===== verification/UnloadRaces.thy ===== *)
theory UnloadRaces
  imports SystemProps
begin

text \<open>
  Mappings that the framework interrupts: threads of the resource manager inside
  \<open>os_map_kernel_space\<close> of \<open>memory_driverkit.cpp\<close> while the driver is stopped or freed.  The
  function reads the device once, keeps it in a local variable, and goes through the global
  pointer again for the service.
\<close>

section \<open>The function in steps\<close>

text \<open>
  Where a thread is.  \<open>ReadDevice\<close> has the address of the state's block and the device,
  \<open>AskDevice\<close> the device and the index of the BAR; \<open>Crashed\<close> notes the device it had read.
\<close>

datatype mapper =
    NoCall
  | Called "dk_answers map_request"
  | ReadDevice ptr ptr "dk_answers map_request"
  | AskDevice ptr u8 "dk_answers map_request"
  | Crashed fault "ptr option"

text \<open>The last part of the function, from the call of the device on.\<close>

definition map_tail ::
  "'d libkern \<Rightarrow> nv_memory_modes \<Rightarrow> driverkit_cache_modes \<Rightarrow> ptr \<Rightarrow> u8 \<Rightarrow> 'd \<Rightarrow> dk_answers
   \<Rightarrow> u64 \<Rightarrow> u32 \<Rightarrow> 'd map_result" where
  "map_tail K M C client memoryIndex d ans size_bytes mode =
     (if copy_result ans \<noteq> KERN_SUCCESS then
        \<lparr>mapped_at = NULL, new_dict = d, ref_events = [],
         map_calls = [CopyDeviceMemory memoryIndex client]\<rparr>
      else
        (let calls = [CopyDeviceMemory memoryIndex client,
               CreateMapping (returnMemory ans) (nvCacheToIOOption M C (ucast mode)) size_bytes];
             got = Obtain (returnMemory ans)
         in
          if create_result ans \<noteq> KERN_SUCCESS then
            \<lparr>mapped_at = NULL, new_dict = d, ref_events = [got, Release (returnMemory ans)],
             map_calls = calls\<rparr>
          else
            \<lparr>mapped_at = mapping_address ans,
             new_dict = reg_put K d (mapping_address ans) (IOMemoryMapObject (mapping_object ans)),
             ref_events = [got, Obtain (mapping_object ans)]
               @ set_events K d (mapping_address ans) (mapping_object ans)
               @ [Release (mapping_object ans), Release (returnMemory ans)],
             map_calls = calls\<rparr>))"

fun map_rest :: "'d platform \<Rightarrow> 'd system \<Rightarrow> ptr \<Rightarrow> u8 \<Rightarrow> dk_answers map_request \<Rightarrow> 'd system" where
  "map_rest P y client idx (ans, start, sz, mode) =
     (let r = map_tail (objects P) (modes_of P) (caches_of P) client idx (mappings y) ans sz mode
      in y\<lparr>mappings := new_dict r, rm_refs := rm_refs y @ ref_events r\<rparr>)"

text \<open>One step of a thread: the system and the thread after it.\<close>

fun map_micro :: "'d platform \<Rightarrow> 'd system \<Rightarrow> mapper \<Rightarrow> 'd system \<times> mapper" where
  "map_micro P y (Called q) =
     (y, case nvd_state (driver y) of None \<Rightarrow> Crashed NullDereference None
         | Some (a, st) \<Rightarrow> ReadDevice a (device st) q)"
| "map_micro P y (ReadDevice a dev q) =
     (y, case nvd_state (driver y) of None \<Rightarrow> Crashed UseAfterFree (Some dev)
         | Some (a', st) \<Rightarrow>
             if a' \<noteq> a then Crashed UseAfterFree (Some dev)
             else (let idx = find_bar (fst (snd q)) (bars (nv_state_of st)) 0 in
                   if idx = 0xFF then NoCall else AskDevice dev idx q))"
| "map_micro P y (AskDevice dev idx q) =
     (case nvd_state (driver y) of None \<Rightarrow> (y, Crashed NullDereference (Some dev))
      | Some (_, st) \<Rightarrow>
          if dev = NULL then (y, Crashed NullDereference (Some dev))
          else (map_rest P y (service st) idx q, NoCall))"
| "map_micro P y w = (y, w)"

text \<open>A thread that is not interrupted makes the call of \<open>KernelMap\<close>.\<close>

lemma map_micro_alone:
  assumes "rm_step P y (RmMap q) = Done y'"
  shows "\<exists>w. map_micro P y (Called q) = (y, w) \<and>
    (map_micro P y w = (y', NoCall) \<or>
     (\<exists>w'. map_micro P y w = (y, w') \<and> map_micro P y w' = (y', NoCall)))"
proof -
  obtain ans start sz mode where q: "q = (ans, start, sz, mode)" by (metis surj_pair)
  from assms obtain a st where st: "nvd_state (driver y) = Some (a, st)"
    by (cases "nvd_state (driver y)") (auto simp: q with_refs_def os_map_kernel_space_dk_def)
  show ?thesis
  proof (cases "find_bar start (bars (nv_state_of st)) 0 = 0xFF")
    case True
    with assms q st show ?thesis
      by (auto simp: with_refs_def os_map_kernel_space_dk_def Let_def)
  next
    case False
    with assms q st have "device st \<noteq> NULL"
      by (auto simp: with_refs_def os_map_kernel_space_dk_def Let_def)
    with False assms q st show ?thesis
      by (auto simp: with_refs_def os_map_kernel_space_dk_def map_tail_def Let_def split: if_splits)
  qed
qed

section \<open>The system with interrupted mappings\<close>

inductive unload_reach :: "'d platform \<Rightarrow> 'd system \<Rightarrow> (nat \<Rightarrow> mapper) \<Rightarrow> bool" for P where
  from_boot: "sys_reach P y \<Longrightarrow> unload_reach P y (\<lambda>_. NoCall)"
| by_framework: "unload_reach P y ts \<Longrightarrow>
    kit_stage (library_of P) (phase_of y) (driver y) ph s \<Longrightarrow>
    unload_reach P (y\<lparr>phase_of := ph, driver := s\<rparr>) ts"
| by_call: "unload_reach P y ts \<Longrightarrow> rm_runs y \<Longrightarrow> usable y c \<Longrightarrow> rm_step P y c = Done y' \<Longrightarrow>
    unload_reach P y' ts"
| enters: "unload_reach P y ts \<Longrightarrow> rm_runs y \<Longrightarrow> usable y (RmMap q) \<Longrightarrow> ts i = NoCall \<Longrightarrow>
    unload_reach P y (ts(i := Called q))"
| continues: "unload_reach P y ts \<Longrightarrow> map_micro P y (ts i) = (y', w) \<Longrightarrow>
    unload_reach P y' (ts(i := w))"

section \<open>What the steps keep\<close>

text \<open>The driver's block is the same until it is freed, and what has been called stays called.\<close>

definition started :: "'d system \<Rightarrow> bool" where
  "started y \<longleftrightarrow> phase_of y \<notin> {At Fresh, At Ready}"

definition same_block :: "'d system \<Rightarrow> 'd system \<Rightarrow> bool" where
  "same_block y y' \<longleftrightarrow>
     started y' \<and> set (calls_made (driver y)) \<subseteq> set (calls_made (driver y')) \<and>
     (phase_of y = At Gone \<longrightarrow> phase_of y' = At Gone) \<and>
     (\<forall>a st. nvd_state (driver y) = Some (a, st) \<longrightarrow> phase_of y' \<noteq> At Gone \<longrightarrow>
        (\<exists>st'. nvd_state (driver y') = Some (a, st')))"

lemma same_block_refl: "started y \<Longrightarrow> same_block y y"
  by (simp add: same_block_def)

lemma kit_stage_block:
  assumes "kit_stage R ph s ph' s'" and "ph \<notin> {At Fresh, At Ready}"
    and "nvd_state s = Some (a, st)" and "ph' \<noteq> At Gone"
  shows "\<exists>st'. nvd_state s' = Some (a, st')"
  using assms(1)
proof (cases rule: kit_stage.cases)
  case (attached E)
  with assms(3) show ?thesis
    by (auto simp: start_attach_def give_up_stage_def give_up_def service_defs
        split: if_splits outcome.splits dest!: place_device_done)
next
  case (attach_failed E ret)
  with assms(3) show ?thesis
    by (auto simp: start_attach_def give_up_stage_def give_up_def PCIHorrorKit_Stop_Impl_def
        service_defs split: if_splits outcome.splits)
next
  case (stopped p E ret)
  with assms(3) Stop_Impl_state [OF assms(3), of E] show ?thesis by auto
qed (use assms in auto)

lemma kit_stage_forward:
  assumes "kit_stage R ph s ph' s'" and "ph \<notin> {At Fresh, At Ready}"
  shows "ph' \<notin> {At Fresh, At Ready} \<and> ph \<noteq> At Gone"
  using assms by (cases rule: kit_stage.cases) auto

lemma framework_block:
  assumes "kit_stage R (phase_of y) (driver y) ph s" and "started y"
  shows "same_block y (y\<lparr>phase_of := ph, driver := s\<rparr>)"
  using kit_stage_forward [OF assms(1)] kit_stage_block [OF assms(1)] stage_calls [OF assms(1)] assms(2)
  by (auto simp: same_block_def started_def)

lemma rm_step_block:
  assumes "rm_step P y c = Done y'" and "started y"
  shows "same_block y y'"
  using assms
  by (cases c) (auto simp: same_block_def started_def with_refs_def nv_set_dma_address_size_def
      simp del: libc_run.simps page_run.simps request_dk.simps
      split: outcome.splits option.splits if_splits)

lemma map_rest_driver:
  "driver (map_rest P y client idx q) = driver y" "phase_of (map_rest P y client idx q) = phase_of y"
  "pages_held (map_rest P y client idx q) = pages_held y" "tracker (map_rest P y client idx q) = tracker y"
  by (cases q, simp add: Let_def)+

lemma micro_driver:
  "map_micro P y w = (y', w') \<Longrightarrow> driver y' = driver y \<and> phase_of y' = phase_of y"
  by (cases "(P, y, w)" rule: map_micro.cases)
    (auto simp: map_rest_driver simp del: map_rest.simps split: option.splits if_splits)

section \<open>The invariant\<close>

text \<open>A device a thread has in hand was started, so its reference is still there.\<close>

definition was_started :: "'d system \<Rightarrow> ptr \<Rightarrow> bool" where
  "was_started y dev \<longleftrightarrow> dev = NULL \<or>
     (\<exists>nv. RmStart nv \<in> set (calls_made (driver y)) \<and> handle_of nv = dev)"

fun mapper_ok :: "'d system \<Rightarrow> mapper \<Rightarrow> bool" where
  "mapper_ok y NoCall \<longleftrightarrow> True"
| "mapper_ok y (Called (ans, _)) \<longleftrightarrow> started y \<and> block_pointer (mapping_address ans)"
| "mapper_ok y (ReadDevice a dev (ans, _)) \<longleftrightarrow> started y \<and> block_pointer (mapping_address ans) \<and>
     was_started y dev \<and> (phase_of y = At Gone \<or> (\<exists>st. nvd_state (driver y) = Some (a, st)))"
| "mapper_ok y (AskDevice dev idx (ans, _)) \<longleftrightarrow> started y \<and> block_pointer (mapping_address ans) \<and>
     was_started y dev"
| "mapper_ok y (Crashed f d) \<longleftrightarrow> phase_of y = At Gone \<or> f = NullDereference \<and> d = Some NULL"

lemma mapper_ok_kept:
  assumes "same_block y y'" and "mapper_ok y w"
  shows "mapper_ok y' w"
proof -
  have calls: "was_started y dev \<Longrightarrow> was_started y' dev" for dev
    using assms(1) by (auto simp: same_block_def was_started_def)
  show ?thesis
    using assms calls by (cases "(y, w)" rule: mapper_ok.cases) (auto simp: same_block_def)
qed

lemma mapper_ok_same:
  "driver y' = driver y \<Longrightarrow> phase_of y' = phase_of y \<Longrightarrow> mapper_ok y' w = mapper_ok y w"
  by (cases "(y, w)" rule: mapper_ok.cases) (simp_all add: started_def was_started_def)

text \<open>Before the driver is started no thread is inside the function.\<close>

lemma mapper_ok_early: "mapper_ok y w \<Longrightarrow> \<not> started y \<Longrightarrow> mapper_ok y' w"
  by (cases "(y, w)" rule: mapper_ok.cases) (auto simp: started_def)

lemma map_rest_inv:
  assumes "sound_platform P" and "sys_inv P y" and "block_pointer (mapping_address (fst q))"
  shows "sys_inv P (map_rest P y client idx q)"
proof -
  obtain ans start sz mode where q: "q = (ans, start, sz, mode)" by (metis surj_pair)
  let ?b = "\<lparr>cpu_address = start, aperture_size = 0, cfg_offset = 0\<rparr>"
  define st where "st = (undefined :: nv_darwin_state)
    \<lparr>nv_state_of := (undefined :: nv_state)\<lparr>bars := [?b]\<rparr>, device := 1\<rparr>"
  let ?r = "map_tail (objects P) (modes_of P) (caches_of P) client idx (mappings y) ans sz mode"
  have "request_dk (objects P) (modes_of P) (caches_of P) (Some (0, st)) (mappings y) q =
      Done (new_dict ?r, ref_events ?r)"
    by (simp add: q st_def os_map_kernel_space_dk_def map_tail_def Let_def)
  moreover have "good_op (maps_dk (Some (0, st))) (MapOp q)"
    using assms(3) q by (auto simp: good_op_def split: if_splits)
  ultimately have "sys_inv P (y\<lparr>mappings := new_dict ?r, rm_refs := rm_refs y @ ref_events ?r\<rparr>)"
    by (intro map_call_inv [OF assms(1,2), where op = "MapOp q" and nvd = "Some (0, st)"])
      (simp_all del: request_dk.simps)
  then show ?thesis by (simp add: q Let_def)
qed

lemma started_state:
  assumes "sys_inv P y" and "started y"
  shows "nvd_state (driver y) = None \<longleftrightarrow> phase_of y = At Gone"
  using stage_state(1) [OF sys_invD(1) [OF assms(1)]] assms(2) by (auto simp: started_def)

lemma device_was_started:
  assumes "sys_inv P y" and "nvd_state (driver y) = Some (a, st)"
  shows "was_started y (device st)"
proof (cases "device st = NULL")
  case False
  with stage_state(2) [OF sys_invD(1) [OF assms(1)]] assms(2)
  have "phase_of y \<in> {Attached, At Running}" by simp
  with sys_invD(1) [OF assms(1)] assms(2) obtain nv where
    "nv \<in> rm_starts (driver y)" "handle_of nv = device st" by auto
  then show ?thesis by (auto simp: was_started_def rm_starts_def)
qed (simp add: was_started_def)

lemma micro_inv:
  assumes "sound_platform P" and "sys_inv P y" and "mapper_ok y w" and "map_micro P y w = (y', w')"
  shows "sys_inv P y' \<and> mapper_ok y' w'"
proof (cases w)
  case (Called q)
  obtain ans r where q: "q = (ans, r)" by (cases q)
  with assms(3) Called have st: "started y" "block_pointer (mapping_address ans)" by simp_all
  show ?thesis
  proof (cases "nvd_state (driver y)")
    case None
    with assms(2,4) Called started_state [OF assms(2) st(1)] show ?thesis by auto
  next
    case (Some x)
    obtain a s where "x = (a, s)" by (cases x)
    with Some assms(2,4) Called q st device_was_started [OF assms(2)] show ?thesis by auto
  qed
next
  case (ReadDevice a dev q)
  obtain ans start r where q: "q = (ans, start, r)" by (metis surj_pair)
  with assms(3,4) ReadDevice show ?thesis
    using assms(2) started_state [OF assms(2)]
    by (auto simp: Let_def split: option.splits if_splits)
next
  case (AskDevice dev idx q)
  obtain ans r where q: "q = (ans, r)" by (cases q)
  with assms(3,4) AskDevice show ?thesis
    using assms(2) started_state [OF assms(2)] map_rest_inv [OF assms(1,2), of q]
    by (auto simp del: map_rest.simps split: option.splits if_splits)
qed (use assms in auto)

lemma rm_runs_started: "sys_inv P y \<Longrightarrow> rm_runs y \<Longrightarrow> started y"
  using sys_invD(2) [of P y] by (auto simp: started_def)

lemma unload_inv:
  assumes "sound_platform P"
  shows "unload_reach P y ts \<Longrightarrow> sys_inv P y \<and> (\<forall>i. mapper_ok y (ts i))"
proof (induction rule: unload_reach.induct)
  case (from_boot y)
  with sys_reach_inv [OF assms] show ?case by simp
next
  case (by_framework y ts ph s)
  then have inv: "sys_inv P y" by simp
  have "sys_inv P (y\<lparr>phase_of := ph, driver := s\<rparr>)"
  proof (rule sys_inv_framework [OF inv by_framework.hyps(2)])
    assume "ph \<in> {At Fresh, At Ready}"
    from stage_before_start [OF by_framework.hyps(2) this] sys_invD(2) [OF inv]
    show "RmInitRm \<notin> set (calls_made s)" by (simp add: rm_runs_def)
  qed
  moreover have "mapper_ok (y\<lparr>phase_of := ph, driver := s\<rparr>) (ts i)" for i
    using by_framework.IH mapper_ok_kept [OF framework_block [OF by_framework.hyps(2)]]
      mapper_ok_early [of y "ts i"] by (cases "started y") auto
  ultimately show ?case by blast
next
  case (by_call y ts c y')
  then have inv: "sys_inv P y" by simp
  from sys_inv_rm [OF assms inv by_call.hyps(2-4)] by_call.IH
    mapper_ok_kept [OF rm_step_block [OF by_call.hyps(4) rm_runs_started [OF inv by_call.hyps(2)]]]
  show ?case by blast
next
  case (enters y ts q i)
  obtain ans r where "q = (ans, r)" by (cases q)
  with enters rm_runs_started [of P y] show ?case by simp
next
  case (continues y ts i y' w)
  then have inv: "sys_inv P y" and ok: "mapper_ok y (ts i)" by simp_all
  from micro_driver [OF continues.hyps(2)] have "mapper_ok y' (ts j) = mapper_ok y (ts j)" for j
    by (intro mapper_ok_same) simp_all
  with micro_inv [OF assms inv ok continues.hyps(2)] continues.IH show ?case by simp
qed

section \<open>Properties\<close>

text \<open>
  C5. A mapping that is interrupted by a \<open>Stop\<close>, a \<open>free\<close> or other calls, at any point and by
  any number of threads at once: the device it goes on to ask still has a reference (the one
  \<open>Stop\<close> forgets to give back), and it crashes only when the driver had no device as the
  mapping began, or once the driver has been freed.  The references of the system are the same
  as without interruptions.
\<close>

theorem interrupted_mappings:
  assumes "sound_platform P" and "unload_reach P y ts"
  shows "(\<forall>i dev idx q. ts i = AskDevice dev idx q \<longrightarrow> dev = NULL \<or> 1 \<le> balance (held (driver y)) dev) \<and>
    (\<forall>i f d. ts i = Crashed f d \<longrightarrow> phase_of y = At Gone \<or> f = NullDereference \<and> d = Some NULL) \<and>
    balance (held (driver y) @ rm_refs y) x =
      (if \<exists>st. nvd_state (driver y) = Some (x, st) then 1 else 0) +
      (if \<exists>nv. RmStart nv \<in> set (calls_made (driver y)) \<and> handle_of nv = x then 1 else 0) +
      mapped_times (live_map P y) x + pages_own (pages_held y) x"
proof -
  from unload_inv [OF assms] have inv: "sys_inv P y" and ok: "\<And>i. mapper_ok y (ts i)" by simp_all
  note refs = stage_inv_balance [OF sys_invD(1) [OF inv]]
  have "dev = NULL \<or> 1 \<le> balance (held (driver y)) dev" if "ts i = AskDevice dev idx q" for i dev idx q
  proof -
    obtain ans r where "q = (ans, r)" by (cases q)
    with ok [of i] that have "was_started y dev" by simp
    then show ?thesis by (auto simp: was_started_def refs)
  qed
  moreover have "phase_of y = At Gone \<or> f = NullDereference \<and> d = Some NULL"
    if "ts i = Crashed f d" for i f d using ok [of i] that by simp
  moreover have "balance (held (driver y) @ rm_refs y) x =
      (if \<exists>st. nvd_state (driver y) = Some (x, st) then 1 else 0) +
      (if \<exists>nv. RmStart nv \<in> set (calls_made (driver y)) \<and> handle_of nv = x then 1 else 0) +
      mapped_times (live_map P y) x + pages_own (pages_held y) x"
    using sys_invD(5) [OF inv, of x] refs [of x] by simp
  ultimately show ?thesis by blast
qed

text \<open>A mapping begun while the driver runs, interrupted by its stop, and then by its end.\<close>

lemma example_interrupted:
  obtains y ts y' dev idx q where "unload_reach example_platform y ts" and "phase_of y = At Halted"
    and "ts 0 = AskDevice dev idx q" and "dev \<noteq> NULL"
    and "unload_reach example_platform y' (ts(0 := Crashed NullDereference (Some dev)))"
    and "phase_of y' = At Gone"
proof -
  obtain s where run: "sys_reach example_platform (system_at (At Running) s)"
    "RmInitRm \<in> set (calls_made s)"
    "PCIHorrorKit_Start_Impl example_rm example_kit ready_state = Done (KERN_SUCCESS, s)"
    by (rule example_running)
  from run(3) obtain st where st: "nvd_state s = Some (0x100, st)" "device st \<noteq> NULL"
    "find_bar 0xE000000C (bars (nv_state_of st)) 0 \<noteq> 0xFF" by (rule example_bar_found)
  from st(1) obtain s2 s3 where s3: "kit_stage example_rm (At Running) s (At Halted) s2"
    "kit_stage example_rm (At Halted) s2 (At Gone) s3" "nvd_state s3 = None" by (rule stop_free_steps)
  let ?P = example_platform and ?q = "(example_answers, 0xE000000C, 0x1000, 0) :: dk_answers map_request"
  let ?idx = "find_bar 0xE000000C (bars (nv_state_of st)) 0"
  let ?y = "system_at (At Running) s" and ?y2 = "system_at (At Halted) s2" and ?y3 = "system_at (At Gone) s3"
  let ?ask = "(\<lambda>_. NoCall)(0 := AskDevice (device st) ?idx ?q)"
  have lib: "library_of ?P = example_rm" by (simp add: example_platform_def)
  have at: "phase_of (system_at ph d) = ph" "driver (system_at ph d) = d"
    "system_at ph d\<lparr>phase_of := ph', driver := d'\<rparr> = system_at ph' d'" for ph ph' d d'
    by (simp_all add: system_at_def)
  have "rm_runs ?y" "usable ?y (RmMap ?q)"
    using run(2) by (simp_all add: rm_runs_def at example_answers_def block_pointer_def canonical_def)
  from unload_reach.enters [OF unload_reach.from_boot [OF run(1)] this, of 0]
  have "unload_reach ?P ?y ((\<lambda>_. NoCall)(0 := Called ?q))" by simp
  from unload_reach.continues [OF this, of 0 ?y "ReadDevice 0x100 (device st) ?q"] st(1)
  have "unload_reach ?P ?y ((\<lambda>_. NoCall)(0 := ReadDevice 0x100 (device st) ?q))" by (simp add: at)
  from unload_reach.continues [OF this, of 0 ?y "AskDevice (device st) ?idx ?q"] st
  have "unload_reach ?P ?y ?ask" by (simp add: at)
  from unload_reach.by_framework [OF this, of "At Halted" s2] s3(1)
  have halted: "unload_reach ?P ?y2 ?ask" by (simp add: at lib)
  from unload_reach.by_framework [OF this, of "At Gone" s3] s3(2)
  have "unload_reach ?P ?y3 ?ask" by (simp add: at lib)
  from unload_reach.continues [OF this, of 0 ?y3 "Crashed NullDereference (Some (device st))"] s3(3)
  have gone: "unload_reach ?P ?y3 (?ask(0 := Crashed NullDereference (Some (device st))))"
    by (simp add: at)
  show thesis by (rule that [OF halted _ _ st(2) gone]) (simp_all add: at)
qed

theorem interrupted_mappings_witness:
  "(\<exists>y ts dev idx q. unload_reach example_platform y ts \<and> phase_of y = At Halted \<and>
     ts 0 = AskDevice dev idx q \<and> 1 \<le> balance (held (driver y)) dev) \<and>
   (\<exists>y ts dev. unload_reach example_platform y ts \<and> phase_of y = At Gone \<and>
     dev \<noteq> NULL \<and> ts 0 = Crashed NullDereference (Some dev))"
proof -
  obtain y ts y' dev idx q where run: "unload_reach example_platform y ts" "phase_of y = At Halted"
    "ts 0 = AskDevice dev idx q" "dev \<noteq> NULL"
    "unload_reach example_platform y' (ts(0 := Crashed NullDereference (Some dev)))"
    "phase_of y' = At Gone" by (rule example_interrupted)
  from interrupted_mappings [OF example_platform_sound run(1)] run(3,4)
  have "1 \<le> balance (held (driver y)) dev" by blast
  with run(1-3) have "\<exists>y ts dev idx q. unload_reach example_platform y ts \<and> phase_of y = At Halted \<and>
      ts 0 = AskDevice dev idx q \<and> 1 \<le> balance (held (driver y)) dev" by blast
  moreover have "(ts(0 := Crashed NullDereference (Some dev))) 0 = Crashed NullDereference (Some dev)"
    by simp
  with run(4-6) have "\<exists>y ts dev. unload_reach example_platform y ts \<and> phase_of y = At Gone \<and>
      dev \<noteq> NULL \<and> ts 0 = Crashed NullDereference (Some dev)" by blast
  ultimately show ?thesis by blast
qed

end
