(* ===== verification/BlockHands.thy ===== *)
theory BlockHands
  imports NvPrelude
begin

text \<open>
  Threads that each have at most one block (or address) in hand, at a position inside a
  function, while the clients have others: the contract a position has to satisfy for a step of
  one thread to concern only its own block.
\<close>

section \<open>Calls that overlap\<close>

text \<open>
  The dictionary class does not protect its objects: what it documents holds for calls that do
  not overlap, and the sources take no lock around them.  A position is \<open>inside\<close> between the
  start of a call to the dictionary and its effect; when a thread starts one while another is
  inside, the calls overlap.
\<close>

definition others_inside :: "('w \<Rightarrow> bool) \<Rightarrow> (nat \<Rightarrow> 'w) \<Rightarrow> nat \<Rightarrow> bool" where
  "others_inside inside pos i \<longleftrightarrow> (\<exists>j. j \<noteq> i \<and> inside (pos j))"

section \<open>Positions and their blocks\<close>

text \<open>
  \<open>hand w\<close> is the block a thread at position \<open>w\<close> has in hand, \<open>fits m w\<close> what the position
  says of the shared memory \<open>m\<close>, which may depend on that block alone.
\<close>

locale block_hands =
  fixes hand :: "'w \<Rightarrow> ptr option"
    and fits :: "'m \<Rightarrow> 'w \<Rightarrow> bool"
    and same_at :: "ptr \<Rightarrow> 'm \<Rightarrow> 'm \<Rightarrow> bool"
  assumes fits_cong: "fits m w \<Longrightarrow> (\<And>p. hand w = Some p \<Longrightarrow> same_at p m m') \<Longrightarrow> fits m' w"
begin

text \<open>Every position fits; a block in hand is with one thread and with no client.\<close>

definition in_order :: "'m \<Rightarrow> (nat \<Rightarrow> 'w) \<Rightarrow> ptr set \<Rightarrow> bool" where
  "in_order m pos out \<longleftrightarrow>
     (\<forall>i. fits m (pos i)) \<and>
     (\<forall>i p. hand (pos i) = Some p \<longrightarrow> p \<notin> out) \<and>
     (\<forall>i j p. hand (pos i) = Some p \<longrightarrow> hand (pos j) = Some p \<longrightarrow> i = j)"

lemma in_orderD:
  assumes "in_order m pos out"
  shows "fits m (pos i)"
    and "hand (pos i) = Some p \<Longrightarrow> p \<notin> out"
    and "hand (pos i) = Some p \<Longrightarrow> hand (pos j) = Some p \<Longrightarrow> i = j"
  using assms unfolding in_order_def by blast+

lemma in_order_move:
  assumes inv: "in_order m pos out" and move: "pos' = pos(i := w)"
    and moved: "fits m' w" "\<And>p. hand w = Some p \<Longrightarrow> p \<notin> out'"
    and others: "\<And>j p. j \<noteq> i \<Longrightarrow> hand (pos j) = Some p \<Longrightarrow>
        same_at p m m' \<and> p \<notin> out' \<and> hand w \<noteq> Some p"
  shows "in_order m' pos' out'"
  unfolding in_order_def
proof (intro conjI allI impI)
  fix j show "fits m' (pos' j)"
    using fits_cong [OF in_orderD(1) [OF inv, of j]] others [of j] moved(1) move
    by (cases "j = i") auto
next
  fix j p assume "hand (pos' j) = Some p"
  then show "p \<notin> out'" using others [of j p] moved(2) move by (cases "j = i") auto
next
  fix j k p assume "hand (pos' j) = Some p" "hand (pos' k) = Some p"
  then show "j = k"
    using others [of j p] others [of k p] in_orderD(3) [OF inv, of j p k] move
    by (cases "j = i"; cases "k = i") auto
qed

end

end
