(* ===== verification/TrackerRaces.thy ===== *)
theory TrackerRaces
  imports Libc BlockHands
begin

text \<open>
  Races inside \<open>os_alloc_mem\<close> and \<open>os_free_mem\<close>: threads that interleave between the calls
  the two functions make.  A call to the global dictionary is two steps, its start and its
  effect, so that two of them can overlap; from then on the dictionary may hold anything.
  \<open>os_free_mem\<close> reads the size from an object it has no reference to, and gives the block back
  before it removes its entry; no lock covers any of this.  The clients behave: a block is
  freed at most once, by whatever thread.
\<close>

section \<open>The steps of the two functions\<close>

text \<open>
  Where a thread is: outside both functions, or between two of their calls.  \<open>Casting p v k\<close> and
  \<open>Reading p sz k\<close> have the pointer of an object, whose value is \<open>v\<close> or the number \<open>sz\<close>; \<open>k\<close> is
  the age of the entry under which it was found.
\<close>

datatype progress =
    Outside
  | Recording u64 ptr           \<comment> \<open>\<open>os_alloc_mem\<close> has its block\<close>
  | Setting u64 ptr             \<comment> \<open>in \<open>setObject\<close>\<close>
  | Getting ptr                 \<comment> \<open>in \<open>getObject\<close>\<close>
  | Casting ptr os_object nat   \<comment> \<open>before \<open>OSRequiredCast\<close>\<close>
  | Reading ptr u64 nat         \<comment> \<open>before \<open>unsigned64BitValue\<close>\<close>
  | Found ptr u64               \<comment> \<open>\<open>os_free_mem\<close> has read the size\<close>
  | Erasing ptr                 \<comment> \<open>\<open>os_free_mem\<close> has called \<open>IOFree\<close>\<close>
  | Removing ptr                \<comment> \<open>in \<open>removeObject\<close>\<close>
  | Stopped                     \<comment> \<open>in the failed cast\<close>
  | Dangling                    \<comment> \<open>has used an object that was released\<close>

fun in_dictionary :: "progress \<Rightarrow> bool" where
  "in_dictionary (Setting n p) = True"
| "in_dictionary (Getting p) = True"
| "in_dictionary (Removing p) = True"
| "in_dictionary _ = False"

fun erasing :: "progress \<Rightarrow> ptr option" where
  "erasing (Erasing p) = Some p"
| "erasing (Removing p) = Some p"
| "erasing _ = None"

text \<open>
  \<open>heap_of\<close> is the kernel's view: the blocks handed out and not given back, with their sizes.
  \<open>owned\<close> are the blocks the clients have.  \<open>age p\<close> counts the objects released from under the
  key of \<open>p\<close>: the dictionary has the only reference to an object once \<open>os_alloc_mem\<close> has
  returned, so replacing or removing the entry releases it.  \<open>reissued\<close> notes that the kernel
  handed out a block while a thread was still to erase its old entry, \<open>overlapped\<close> that two
  calls to the dictionary have overlapped.
\<close>

record 'd race =
  heap_of :: "ptr \<Rightarrow> u64 option"
  dict_of :: 'd
  owned :: "ptr set"
  doing :: "nat \<Rightarrow> progress"
  log_of :: "heap_call list"
  age :: "ptr \<Rightarrow> nat"
  reissued :: bool
  overlapped :: bool

definition put_entry :: "'d libkern \<Rightarrow> 'd \<Rightarrow> ptr \<Rightarrow> u64 \<Rightarrow> 'd" where
  "put_entry K d p n = set_object K d (os_string K (keyName p)) (os_number K n sizeof_NvU64)"

definition get_entry :: "'d libkern \<Rightarrow> 'd \<Rightarrow> ptr \<Rightarrow> os_object option" where
  "get_entry K d p = get_object K d (os_string K (keyName p))"

definition erase_entry :: "'d libkern \<Rightarrow> 'd \<Rightarrow> ptr \<Rightarrow> 'd" where
  "erase_entry K d p = remove_object K d (os_string K (keyName p))"

text \<open>The ages after the entry of \<open>p\<close> was replaced or removed.\<close>

definition released :: "'d libkern \<Rightarrow> 'd race \<Rightarrow> ptr \<Rightarrow> ptr \<Rightarrow> nat" where
  "released K s p =
     (if get_entry K (dict_of s) p = None then age s else (age s)(p := Suc (age s p)))"

text \<open>A thread starts a call to the dictionary.\<close>

definition enter :: "'d race \<Rightarrow> nat \<Rightarrow> progress \<Rightarrow> 'd race" where
  "enter s i w = s\<lparr>doing := (doing s)(i := w),
     overlapped := overlapped s \<or> others_inside in_dictionary (doing s) i\<rparr>"

lemma enter_simps [simp]:
  "heap_of (enter s i w) = heap_of s" "dict_of (enter s i w) = dict_of s"
  "owned (enter s i w) = owned s" "doing (enter s i w) = (doing s)(i := w)"
  "log_of (enter s i w) = log_of s" "age (enter s i w) = age s"
  "reissued (enter s i w) = reissued s"
  "overlapped (enter s i w) \<longleftrightarrow> overlapped s \<or> others_inside in_dictionary (doing s) i"
  by (simp_all add: enter_def)

text \<open>
  The step that ends a call to the dictionary is the moment of its effect; what follows it in
  the function before the next call (the releases, the return) is part of the step.
\<close>

inductive race_step :: "'d libkern \<Rightarrow> 'd race \<Rightarrow> 'd race \<Rightarrow> bool" for K where
  malloc: "doing s i = Outside \<Longrightarrow> block_pointer p \<Longrightarrow> p \<noteq> NULL \<Longrightarrow> heap_of s p = None \<Longrightarrow>
    race_step K s (s\<lparr>heap_of := (heap_of s)(p \<mapsto> n), doing := (doing s)(i := Recording n p),
      log_of := log_of s @ [IOMallocZero n p],
      reissued := reissued s \<or> (\<exists>j. erasing (doing s j) = Some p)\<rparr>)"
| no_memory: "doing s i = Outside \<Longrightarrow>
    race_step K s (s\<lparr>log_of := log_of s @ [IOMallocZero n NULL]\<rparr>)"
| start_set: "doing s i = Recording n p \<Longrightarrow> race_step K s (enter s i (Setting n p))"
| set_size: "doing s i = Setting n p \<Longrightarrow>
    race_step K s (s\<lparr>dict_of := put_entry K (dict_of s) p n, age := released K s p,
      owned := insert p (owned s), doing := (doing s)(i := Outside)\<rparr>)"
| start_get: "doing s i = Outside \<Longrightarrow> p \<in> owned s \<Longrightarrow>
    race_step K s ((enter s i (Getting p))\<lparr>owned := owned s - {p}\<rparr>)"
| unknown: "doing s i = Getting p \<Longrightarrow> get_entry K (dict_of s) p = None \<Longrightarrow>
    race_step K s (s\<lparr>doing := (doing s)(i := Outside)\<rparr>)"
| got: "doing s i = Getting p \<Longrightarrow> get_entry K (dict_of s) p = Some v \<Longrightarrow>
    race_step K s (s\<lparr>doing := (doing s)(i := Casting p v (age s p))\<rparr>)"
| cast_ok: "doing s i = Casting p (OSNumber sz) k \<Longrightarrow> age s p = k \<Longrightarrow>
    race_step K s (s\<lparr>doing := (doing s)(i := Reading p sz k)\<rparr>)"
| bad_cast: "doing s i = Casting p (IOMemoryMapObject x) k \<Longrightarrow> age s p = k \<Longrightarrow>
    race_step K s (s\<lparr>doing := (doing s)(i := Stopped)\<rparr>)"
| cast_released: "doing s i = Casting p v k \<Longrightarrow> age s p \<noteq> k \<Longrightarrow>
    race_step K s (s\<lparr>doing := (doing s)(i := Dangling)\<rparr>)"
| read_size: "doing s i = Reading p sz k \<Longrightarrow> age s p = k \<Longrightarrow>
    race_step K s (s\<lparr>doing := (doing s)(i := Found p sz)\<rparr>)"
| read_released: "doing s i = Reading p sz k \<Longrightarrow> age s p \<noteq> k \<Longrightarrow>
    race_step K s (s\<lparr>doing := (doing s)(i := Dangling)\<rparr>)"
| give_back: "doing s i = Found p sz \<Longrightarrow>
    race_step K s (s\<lparr>heap_of := (heap_of s)(p := None), doing := (doing s)(i := Erasing p),
      log_of := log_of s @ [IOFree p sz]\<rparr>)"
| start_remove: "doing s i = Erasing p \<Longrightarrow> race_step K s (enter s i (Removing p))"
| erase: "doing s i = Removing p \<Longrightarrow>
    race_step K s (s\<lparr>dict_of := erase_entry K (dict_of s) p, age := released K s p,
      doing := (doing s)(i := Outside)\<rparr>)"
| torn: "overlapped s \<Longrightarrow> race_step K s (s\<lparr>dict_of := d, age := a\<rparr>)"

inductive_cases race_stepE: "race_step K s s'"

definition race_start :: "'d libkern \<Rightarrow> 'd race \<Rightarrow> bool" where
  "race_start K s \<longleftrightarrow> heap_of s = Map.empty \<and> (\<forall>k. get_object K (dict_of s) k = None) \<and>
     owned s = {} \<and> doing s = (\<lambda>_. Outside) \<and> log_of s = [] \<and> \<not> reissued s \<and> \<not> overlapped s"

definition race_reach :: "'d libkern \<Rightarrow> 'd race \<Rightarrow> bool" where
  "race_reach K s \<longleftrightarrow> (\<exists>s0. race_start K s0 \<and> (race_step K)\<^sup>*\<^sup>* s0 s)"

section \<open>Runs of one thread\<close>

text \<open>The steps of one thread, taken together, and what they do.\<close>

lemma alloc_run:
  assumes "doing s i = Outside" and "block_pointer p" and "p \<noteq> NULL" and "heap_of s p = None"
  obtains s' where "(race_step K)\<^sup>*\<^sup>* s s'" "heap_of s' = (heap_of s)(p \<mapsto> n)"
    "dict_of s' = put_entry K (dict_of s) p n" "owned s' = insert p (owned s)" "doing s' = doing s"
    "log_of s' = log_of s @ [IOMallocZero n p]"
    "reissued s' \<longleftrightarrow> reissued s \<or> (\<exists>j. erasing (doing s j) = Some p)"
    "overlapped s' \<longleftrightarrow> overlapped s \<or> others_inside in_dictionary (doing s) i"
proof -
  let ?s1 = "s\<lparr>heap_of := (heap_of s)(p \<mapsto> n), doing := (doing s)(i := Recording n p),
      log_of := log_of s @ [IOMallocZero n p],
      reissued := reissued s \<or> (\<exists>j. erasing (doing s j) = Some p)\<rparr>"
  let ?s2 = "enter ?s1 i (Setting n p)"
  let ?s3 = "?s2\<lparr>dict_of := put_entry K (dict_of ?s2) p n, age := released K ?s2 p,
      owned := insert p (owned ?s2), doing := (doing ?s2)(i := Outside)\<rparr>"
  note [trans] = rtranclp.rtrancl_into_rtrancl
  from assms have "(race_step K)\<^sup>*\<^sup>* s ?s1" by (intro r_into_rtranclp race_step.malloc)
  also have "race_step K ?s1 ?s2" by (rule race_step.start_set) simp
  also have "race_step K ?s2 ?s3" by (rule race_step.set_size) simp
  finally have run: "(race_step K)\<^sup>*\<^sup>* s ?s3" .
  have "others_inside in_dictionary ((doing s)(i := Recording n p)) i \<longleftrightarrow>
      others_inside in_dictionary (doing s) i" by (auto simp: others_inside_def)
  then show ?thesis using assms(1) by (intro that [OF run]) auto
qed

lemma free_run:
  assumes "doing s i = Outside" and "p \<in> owned s" and "get_entry K (dict_of s) p = Some (OSNumber sz)"
  obtains s' where "(race_step K)\<^sup>*\<^sup>* s s'" "heap_of s' = (heap_of s)(p := None)"
    "dict_of s' = dict_of s" "owned s' = owned s - {p}" "doing s' = (doing s)(i := Erasing p)"
    "log_of s' = log_of s @ [IOFree p sz]" "reissued s' \<longleftrightarrow> reissued s"
    "overlapped s' \<longleftrightarrow> overlapped s \<or> others_inside in_dictionary (doing s) i"
proof -
  let ?s1 = "(enter s i (Getting p))\<lparr>owned := owned s - {p}\<rparr>"
  let ?s2 = "?s1\<lparr>doing := (doing ?s1)(i := Casting p (OSNumber sz) (age ?s1 p))\<rparr>"
  let ?s3 = "?s2\<lparr>doing := (doing ?s2)(i := Reading p sz (age ?s1 p))\<rparr>"
  let ?s4 = "?s3\<lparr>doing := (doing ?s3)(i := Found p sz)\<rparr>"
  let ?s5 = "?s4\<lparr>heap_of := (heap_of ?s4)(p := None), doing := (doing ?s4)(i := Erasing p),
      log_of := log_of ?s4 @ [IOFree p sz]\<rparr>"
  note [trans] = rtranclp.rtrancl_into_rtrancl
  from assms(1,2) have "(race_step K)\<^sup>*\<^sup>* s ?s1" by (intro r_into_rtranclp race_step.start_get)
  also have "race_step K ?s1 ?s2" using assms(3) by (intro race_step.got) simp_all
  also have "race_step K ?s2 ?s3" by (rule race_step.cast_ok) simp_all
  also have "race_step K ?s3 ?s4" by (rule race_step.read_size) simp_all
  also have "race_step K ?s4 ?s5" by (rule race_step.give_back) simp
  finally have "(race_step K)\<^sup>*\<^sup>* s ?s5" .
  then show ?thesis by (rule that) simp_all
qed

lemma erase_run:
  assumes "doing s i = Erasing p"
  obtains s' where "(race_step K)\<^sup>*\<^sup>* s s'" "heap_of s' = heap_of s"
    "dict_of s' = erase_entry K (dict_of s) p" "owned s' = owned s"
    "doing s' = (doing s)(i := Outside)" "log_of s' = log_of s" "age s' = released K s p"
    "reissued s' \<longleftrightarrow> reissued s"
    "overlapped s' \<longleftrightarrow> overlapped s \<or> others_inside in_dictionary (doing s) i"
proof -
  let ?s1 = "enter s i (Removing p)"
  let ?s2 = "?s1\<lparr>dict_of := erase_entry K (dict_of ?s1) p, age := released K ?s1 p,
      doing := (doing ?s1)(i := Outside)\<rparr>"
  from assms have "(race_step K)\<^sup>*\<^sup>* s ?s1" by (intro r_into_rtranclp race_step.start_remove)
  moreover have "race_step K ?s1 ?s2" by (rule race_step.erase) simp
  ultimately have "(race_step K)\<^sup>*\<^sup>* s ?s2" by (rule rtranclp.rtrancl_into_rtrancl)
  then show ?thesis by (rule that) (simp_all add: released_def)
qed

lemma unknown_run:
  assumes "doing s i = Outside" and "p \<in> owned s" and "get_entry K (dict_of s) p = None"
  obtains s' where "(race_step K)\<^sup>*\<^sup>* s s'" "heap_of s' = heap_of s" "dict_of s' = dict_of s"
    "owned s' = owned s - {p}" "doing s' = doing s" "log_of s' = log_of s"
    "overlapped s' \<longleftrightarrow> overlapped s \<or> others_inside in_dictionary (doing s) i"
proof -
  let ?s1 = "(enter s i (Getting p))\<lparr>owned := owned s - {p}\<rparr>"
  let ?s2 = "?s1\<lparr>doing := (doing ?s1)(i := Outside)\<rparr>"
  from assms(1,2) have "(race_step K)\<^sup>*\<^sup>* s ?s1" by (intro r_into_rtranclp race_step.start_get)
  moreover have "race_step K ?s1 ?s2" using assms(3) by (intro race_step.unknown) simp_all
  ultimately have run: "(race_step K)\<^sup>*\<^sup>* s ?s2" by (rule rtranclp.rtrancl_into_rtrancl)
  show ?thesis by (rule that [OF run]) (use assms(1) in auto)
qed

text \<open>A thread that is not interrupted runs the functions of \<open>Libc\<close>.\<close>

lemma alloc_alone:
  assumes "doing s i = Outside" and "p \<noteq> NULL \<longrightarrow> block_pointer p \<and> heap_of s p = None"
    and "os_alloc_mem K (dict_of s) p n = (d, cs, status, a)"
  shows "\<exists>s'. (race_step K)\<^sup>*\<^sup>* s s' \<and> dict_of s' = d \<and> log_of s' = log_of s @ cs \<and>
    doing s' = doing s \<and> owned s' = owned s \<union> set_option a"
proof (cases "p = NULL")
  case True
  with assms(3) race_step.no_memory [of s i K n, OF assms(1)] show ?thesis
    by (intro exI [of _ "s\<lparr>log_of := log_of s @ [IOMallocZero n NULL]\<rparr>"])
      (auto simp: os_alloc_mem_def)
next
  case False
  with assms(2) have fresh: "block_pointer p" "heap_of s p = None" by simp_all
  obtain s' where "(race_step K)\<^sup>*\<^sup>* s s'" "dict_of s' = put_entry K (dict_of s) p n"
    "owned s' = insert p (owned s)" "doing s' = doing s" "log_of s' = log_of s @ [IOMallocZero n p]"
    by (rule alloc_run [OF assms(1) fresh(1) False fresh(2), of K n]) (rule that; assumption)
  with False assms(3) show ?thesis
    by (intro exI [of _ s']) (auto simp: os_alloc_mem_def put_entry_def Let_def)
qed

lemma free_alone:
  assumes "doing s i = Outside" and "p \<in> owned s"
    and "os_free_mem K (dict_of s) p = Done (d, cs)"
  shows "\<exists>s'. (race_step K)\<^sup>*\<^sup>* s s' \<and> dict_of s' = d \<and> log_of s' = log_of s @ cs \<and>
    doing s' = doing s \<and> owned s' = owned s - {p}"
proof (cases "get_entry K (dict_of s) p")
  case None
  obtain s' where "(race_step K)\<^sup>*\<^sup>* s s'" "dict_of s' = dict_of s" "owned s' = owned s - {p}"
    "doing s' = doing s" "log_of s' = log_of s"
    by (rule unknown_run [OF assms(1,2) None]) (rule that; assumption)
  with None assms(3) show ?thesis
    by (intro exI [of _ s']) (auto simp: os_free_mem_def get_entry_def Let_def)
next
  case (Some v)
  with assms(3) obtain sz where v: "v = OSNumber sz"
    by (cases v) (auto simp: os_free_mem_def get_entry_def Let_def)
  with Some have entry: "get_entry K (dict_of s) p = Some (OSNumber sz)" by simp
  obtain s1 where s1: "(race_step K)\<^sup>*\<^sup>* s s1" "dict_of s1 = dict_of s"
    "owned s1 = owned s - {p}" "doing s1 = (doing s)(i := Erasing p)"
    "log_of s1 = log_of s @ [IOFree p sz]"
    by (rule free_run [OF assms(1,2) entry]) (rule that; assumption)
  have at: "doing s1 i = Erasing p" by (simp add: s1(4))
  obtain s2 where s2: "(race_step K)\<^sup>*\<^sup>* s1 s2" "dict_of s2 = erase_entry K (dict_of s1) p"
    "owned s2 = owned s1" "doing s2 = (doing s1)(i := Outside)" "log_of s2 = log_of s1"
    by (rule erase_run [OF at, of K]) (rule that; assumption)
  have "d = erase_entry K (dict_of s) p" "cs = [IOFree p sz]"
    using entry assms(3) by (simp_all add: os_free_mem_def get_entry_def erase_entry_def Let_def)
  moreover have "(doing s)(i := Erasing p, i := Outside) = doing s" using assms(1) by auto
  moreover have "(race_step K)\<^sup>*\<^sup>* s s2" using s1(1) s2(1) by (rule rtranclp_trans)
  ultimately show ?thesis using s1(2-5) s2(2-5) by (intro exI [of _ s2]) simp
qed

section \<open>The invariant\<close>

text \<open>The block a thread has in hand inside one of the functions.\<close>

fun in_hand :: "progress \<Rightarrow> ptr option" where
  "in_hand (Recording n p) = Some p"
| "in_hand (Setting n p) = Some p"
| "in_hand (Getting p) = Some p"
| "in_hand (Casting p v k) = Some p"
| "in_hand (Reading p sz k) = Some p"
| "in_hand (Found p sz) = Some p"
| "in_hand Outside = None"
| "in_hand (Erasing p) = None"
| "in_hand (Removing p) = None"
| "in_hand Stopped = None"
| "in_hand Dangling = None"

abbreviation entry :: "'d libkern \<Rightarrow> 'd race \<Rightarrow> ptr \<Rightarrow> os_object option" where
  "entry K s p \<equiv> block_view K (dict_of s) p"

text \<open>What the dictionary may have of a block of \<open>n\<close> bytes.\<close>

definition entry_ok :: "os_object option \<Rightarrow> u64 \<Rightarrow> bool" where
  "entry_ok v n \<longleftrightarrow> v \<in> {None, Some (OSNumber (tracked_size n))}"

text \<open>What a thread's position says of its block, the dictionary \<open>v\<close> and the heap \<open>h\<close>.\<close>

fun progress_ok :: "(ptr \<Rightarrow> os_object option) \<times> (ptr \<Rightarrow> u64 option) \<Rightarrow> progress \<Rightarrow> bool" where
  "progress_ok (v, h) Outside \<longleftrightarrow> True"
| "progress_ok (v, h) (Recording n p) \<longleftrightarrow> block_pointer p \<and> h p = Some n"
| "progress_ok (v, h) (Setting n p) \<longleftrightarrow> block_pointer p \<and> h p = Some n"
| "progress_ok (v, h) (Getting p) \<longleftrightarrow> block_pointer p \<and> (\<exists>n. h p = Some n \<and> entry_ok (v p) n)"
| "progress_ok (v, h) (Casting p x k) \<longleftrightarrow>
     block_pointer p \<and> map_option (OSNumber \<circ> tracked_size) (h p) = Some x"
| "progress_ok (v, h) (Reading p sz k) \<longleftrightarrow> block_pointer p \<and> map_option tracked_size (h p) = Some sz"
| "progress_ok (v, h) (Found p sz) \<longleftrightarrow> block_pointer p \<and> map_option tracked_size (h p) = Some sz"
| "progress_ok (v, h) (Erasing p) \<longleftrightarrow> block_pointer p"
| "progress_ok (v, h) (Removing p) \<longleftrightarrow> block_pointer p"
| "progress_ok (v, h) Stopped \<longleftrightarrow> False"
| "progress_ok (v, h) Dangling \<longleftrightarrow> True"

definition same_block ::
  "ptr \<Rightarrow> (ptr \<Rightarrow> os_object option) \<times> (ptr \<Rightarrow> u64 option)
   \<Rightarrow> (ptr \<Rightarrow> os_object option) \<times> (ptr \<Rightarrow> u64 option) \<Rightarrow> bool" where
  "same_block p m m' \<longleftrightarrow> snd m' p = snd m p \<and> fst m' p \<in> {fst m p, None}"

interpretation tracker_hands: block_hands in_hand progress_ok same_block
proof
  fix m m' w
  show "progress_ok m w \<Longrightarrow> (\<And>p. in_hand w = Some p \<Longrightarrow> same_block p m m') \<Longrightarrow> progress_ok m' w"
    by (cases m; cases m'; cases w) (auto simp: same_block_def entry_ok_def)
qed

abbreviation shared :: "'d libkern \<Rightarrow> 'd race \<Rightarrow> (ptr \<Rightarrow> os_object option) \<times> (ptr \<Rightarrow> u64 option)" where
  "shared K s \<equiv> (block_view K (dict_of s), heap_of s)"

definition owner_inv :: "'d libkern \<Rightarrow> 'd race \<Rightarrow> bool" where
  "owner_inv K s \<longleftrightarrow>
     (\<forall>p \<in> owned s. block_pointer p \<and> (\<exists>n. heap_of s p = Some n \<and> entry_ok (entry K s p) n)) \<and>
     tracker_hands.in_order (shared K s) (doing s) (owned s) \<and>
     replay Map.empty (log_of s) = Some (heap_of s)"

text \<open>What holds as long as no block is handed out while its old entry is there.\<close>

fun settled :: "'d libkern \<Rightarrow> 'd race \<Rightarrow> progress \<Rightarrow> bool" where
  "settled K s (Getting p) \<longleftrightarrow> entry K s p \<noteq> None"
| "settled K s (Casting p x k) \<longleftrightarrow> age s p = k"
| "settled K s (Reading p sz k) \<longleftrightarrow> age s p = k"
| "settled K s (Erasing p) \<longleftrightarrow> heap_of s p = None"
| "settled K s (Removing p) \<longleftrightarrow> heap_of s p = None"
| "settled K s Dangling \<longleftrightarrow> False"
| "settled K s _ \<longleftrightarrow> True"

definition entry_inv :: "'d libkern \<Rightarrow> 'd race \<Rightarrow> bool" where
  "entry_inv K s \<longleftrightarrow>
     (\<forall>p. heap_of s p \<noteq> None \<longrightarrow> p \<in> owned s \<or> (\<exists>i. in_hand (doing s i) = Some p)) \<and>
     (\<forall>p \<in> owned s. entry K s p \<noteq> None) \<and>
     (\<forall>i. settled K s (doing s i))"

lemma in_hand_ok: "progress_ok m w \<Longrightarrow> in_hand w = Some p \<Longrightarrow> block_pointer p \<and> snd m p \<noteq> None"
  by (cases m; cases w) auto

lemma owner_invD:
  assumes "owner_inv K s"
  shows "p \<in> owned s \<Longrightarrow> block_pointer p \<and> (\<exists>n. heap_of s p = Some n \<and> entry_ok (entry K s p) n)"
    and "progress_ok (shared K s) (doing s i)"
    and "in_hand (doing s i) = Some p \<Longrightarrow> p \<notin> owned s"
    and "in_hand (doing s i) = Some p \<Longrightarrow> in_hand (doing s j) = Some p \<Longrightarrow> i = j"
    and "replay Map.empty (log_of s) = Some (heap_of s)"
  using assms unfolding owner_inv_def tracker_hands.in_order_def by blast+

text \<open>A step moves one thread: what is to be shown is about that thread and its block.\<close>

lemma owner_inv_move:
  assumes inv: "owner_inv K s" and move: "doing s' = (doing s)(i := w)"
    and blocks: "\<And>p. p \<in> owned s' \<Longrightarrow>
        block_pointer p \<and> (\<exists>n. heap_of s' p = Some n \<and> entry_ok (entry K s' p) n)"
    and moved: "progress_ok (shared K s') w" "\<And>p. in_hand w = Some p \<Longrightarrow> p \<notin> owned s'"
    and others: "\<And>j p. j \<noteq> i \<Longrightarrow> in_hand (doing s j) = Some p \<Longrightarrow>
        same_block p (shared K s) (shared K s') \<and> p \<notin> owned s' \<and> in_hand w \<noteq> Some p"
    and calls: "replay Map.empty (log_of s') = Some (heap_of s')"
  shows "owner_inv K s'"
proof -
  have "tracker_hands.in_order (shared K s) (doing s) (owned s)" using inv by (simp add: owner_inv_def)
  then have "tracker_hands.in_order (shared K s') (doing s') (owned s')"
    by (rule tracker_hands.in_order_move [OF _ move moved(1)]) (use moved(2) others in blast)+
  with blocks calls show ?thesis by (simp add: owner_inv_def)
qed

text \<open>A step that changes neither heap, dictionary nor log.\<close>

lemma owner_inv_quiet:
  assumes inv: "owner_inv K s" and move: "doing s' = (doing s)(i := w)"
    and same: "heap_of s' = heap_of s" "dict_of s' = dict_of s" "log_of s' = log_of s"
    and own: "owned s' \<subseteq> owned s"
    and moved: "progress_ok (shared K s) w"
    and hand: "\<And>p. in_hand w = Some p \<Longrightarrow>
        p \<notin> owned s' \<and> (in_hand (doing s i) = Some p \<or> p \<in> owned s)"
  shows "owner_inv K s'"
proof (rule owner_inv_move [OF inv move])
  fix j p assume j: "j \<noteq> i" "in_hand (doing s j) = Some p"
  have "p \<notin> owned s" using owner_invD(3) [OF inv j(2)] .
  moreover have "in_hand w \<noteq> Some p"
    using hand [of p] \<open>p \<notin> owned s\<close> owner_invD(4) [OF inv j(2), of i] j(1) by blast
  ultimately show "same_block p (shared K s) (shared K s') \<and> p \<notin> owned s' \<and> in_hand w \<noteq> Some p"
    using own by (auto simp: same_block_def same)
qed (use owner_invD(1,5) [OF inv] own moved hand in \<open>auto simp: same\<close>)

lemma entry_invD:
  assumes "entry_inv K s"
  shows "heap_of s p \<noteq> None \<Longrightarrow> p \<in> owned s \<or> (\<exists>i. in_hand (doing s i) = Some p)"
    and "p \<in> owned s \<Longrightarrow> entry K s p \<noteq> None"
    and "settled K s (doing s i)"
  using assms by (auto simp: entry_inv_def)

lemma entry_inv_move:
  assumes inv: "entry_inv K s" and move: "doing s' = (doing s)(i := w)"
    and live: "\<And>p. heap_of s' p \<noteq> None \<Longrightarrow>
        p \<in> owned s' \<or> in_hand w = Some p \<or>
        heap_of s p \<noteq> None \<and> p \<notin> owned s \<and> in_hand (doing s i) \<noteq> Some p"
    and entries: "\<And>p. p \<in> owned s' \<Longrightarrow> entry K s' p \<noteq> None"
    and moved: "settled K s' w"
    and others: "\<And>j. j \<noteq> i \<Longrightarrow> settled K s (doing s j) \<Longrightarrow> settled K s' (doing s j)"
  shows "entry_inv K s'"
  unfolding entry_inv_def
proof (intro conjI allI ballI impI)
  fix p assume "heap_of s' p \<noteq> None"
  from live [OF this] show "p \<in> owned s' \<or> (\<exists>j. in_hand (doing s' j) = Some p)"
    using entry_invD(1) [OF inv, of p] move by (metis fun_upd_other fun_upd_same)
next
  fix j show "settled K s' (doing s' j)"
    using moved others [of j] entry_invD(3) [OF inv, of j] move by (cases "j = i") auto
qed (use entries in blast)

text \<open>A step that changes neither heap, dictionary nor ages.\<close>

lemma entry_inv_quiet:
  assumes inv: "entry_inv K s" and move: "doing s' = (doing s)(i := w)"
    and same: "heap_of s' = heap_of s" "dict_of s' = dict_of s" "age s' = age s"
    and own: "owned s' \<subseteq> owned s"
    and live: "\<And>p. p \<in> owned s - owned s' \<or> in_hand (doing s i) = Some p \<Longrightarrow> in_hand w = Some p"
    and moved: "settled K s w"
  shows "entry_inv K s'"
proof (rule entry_inv_move [OF inv move])
  fix p assume "heap_of s' p \<noteq> None"
  with live [of p] show "p \<in> owned s' \<or> in_hand w = Some p \<or>
      heap_of s p \<noteq> None \<and> p \<notin> owned s \<and> in_hand (doing s i) \<noteq> Some p"
    by (auto simp: same)
next
  have settled: "settled K s' x = settled K s x" for x by (cases x) (auto simp: same)
  show "settled K s' w" using moved by (simp add: settled)
  show "settled K s' (doing s j)" if "settled K s (doing s j)" for j using that by (simp add: settled)
qed (use entry_invD(2) [OF inv] own in \<open>auto simp: same\<close>)

lemma flags_kept:
  "race_step K s s' \<Longrightarrow> reissued s \<Longrightarrow> reissued s'"
  "race_step K s s' \<Longrightarrow> overlapped s \<Longrightarrow> overlapped s'"
  by (erule race_step.cases; simp)+

lemma owner_inv_free:
  assumes "owner_inv K s" and "heap_of s p = None"
  shows "p \<notin> owned s" and "in_hand (doing s j) \<noteq> Some p"
  using owner_invD(1) [OF assms(1), of p] in_hand_ok [OF owner_invD(2) [OF assms(1)], of j p] assms(2)
  by auto

context libkern_objects
begin

lemma entry_accesses:
  assumes "factories_succeed K" and "block_pointer p"
  shows "block_view K (put_entry K d p n) = (block_view K d)(p \<mapsto> OSNumber (tracked_size n))"
    and "get_entry K d p = block_view K d p"
    and "block_view K (erase_entry K d p) = (block_view K d)(p := None)"
proof -
  have "put_entry K d p n = reg_put K d p (OSNumber (tracked_size n))"
    by (simp add: put_entry_def reg_put_def factories_values [OF assms(1)] tracked_size_def)
  then show "block_view K (put_entry K d p n) = (block_view K d)(p \<mapsto> OSNumber (tracked_size n))"
    by (simp add: block_view_put [OF assms(2)])
  show "get_entry K d p = block_view K d p"
    by (simp add: get_entry_def factories_values [OF assms(1)] block_view_def reg_find_def assms(2))
  have "erase_entry K d p = reg_del K d p"
    by (simp add: erase_entry_def factories_values [OF assms(1)] reg_del_def)
  then show "block_view K (erase_entry K d p) = (block_view K d)(p := None)"
    by (simp add: block_view_del [OF assms(2)])
qed

lemma owner_inv_step:
  assumes "race_step K s s'" and inv: "owner_inv K s" and F: "factories_succeed K"
    and calm: "\<not> overlapped s"
  shows "owner_inv K s'"
  using assms(1)
proof (cases rule: race_step.cases)
  case (malloc i p n)
  with owner_inv_free [OF inv] have "p \<notin> owned s" "\<And>j. in_hand (doing s j) \<noteq> Some p" by simp_all
  with malloc owner_invD [OF inv] show ?thesis
    by (intro owner_inv_move [OF inv, where i = i and w = "Recording n p"])
      (auto simp: replay_append same_block_def)
next
  case (no_memory i n)
  with owner_invD [OF inv] show ?thesis
    by (intro owner_inv_move [OF inv, where i = i and w = Outside])
      (auto simp: replay_append same_block_def)
next
  case (start_set i n p)
  with owner_invD(2,3) [OF inv, of i] show ?thesis
    by (intro owner_inv_quiet [OF inv, where i = i and w = "Setting n p"]) auto
next
  case (set_size i n p)
  with owner_invD(2) [OF inv, of i] owner_invD(4) [OF inv, of i p]
  have "block_pointer p" "heap_of s p = Some n" "\<And>j. j \<noteq> i \<Longrightarrow> in_hand (doing s j) \<noteq> Some p"
    by auto
  with set_size owner_invD [OF inv] show ?thesis
    by (intro owner_inv_move [OF inv, where i = i and w = Outside])
      (auto simp: entry_accesses [OF F] same_block_def entry_ok_def)
next
  case (start_get i p)
  with owner_invD(1) [OF inv, of p] show ?thesis
    by (intro owner_inv_quiet [OF inv, where i = i and w = "Getting p"]) auto
next
  case (unknown i p)
  then show ?thesis by (intro owner_inv_quiet [OF inv, where i = i and w = Outside]) auto
next
  case (got i p v)
  with owner_invD(2,3) [OF inv, of i] show ?thesis
    by (intro owner_inv_quiet [OF inv, where i = i and w = "Casting p v (age s p)"])
      (auto simp: entry_accesses [OF F] entry_ok_def)
next
  case (cast_ok i p sz k)
  with owner_invD(2,3) [OF inv, of i] show ?thesis
    by (intro owner_inv_quiet [OF inv, where i = i and w = "Reading p sz k"]) auto
next
  case (bad_cast i p x k)
  with owner_invD(2) [OF inv, of i] show ?thesis by auto
next
  case (cast_released i p v k)
  then show ?thesis by (intro owner_inv_quiet [OF inv, where i = i and w = Dangling]) auto
next
  case (read_size i p sz k)
  with owner_invD(2,3) [OF inv, of i] show ?thesis
    by (intro owner_inv_quiet [OF inv, where i = i and w = "Found p sz"]) auto
next
  case (read_released i p sz k)
  then show ?thesis by (intro owner_inv_quiet [OF inv, where i = i and w = Dangling]) auto
next
  case (give_back i p sz)
  with owner_invD(2,3) [OF inv, of i] owner_invD(4) [OF inv, of i p]
  have "block_pointer p" "map_option tracked_size (heap_of s p) = Some sz" "p \<notin> owned s"
    "\<And>j. j \<noteq> i \<Longrightarrow> in_hand (doing s j) \<noteq> Some p" by auto
  with give_back owner_invD [OF inv] show ?thesis
    by (intro owner_inv_move [OF inv, where i = i and w = "Erasing p"])
      (auto simp: replay_append same_block_def)
next
  case (start_remove i p)
  with owner_invD(2) [OF inv, of i] show ?thesis
    by (intro owner_inv_quiet [OF inv, where i = i and w = "Removing p"]) auto
next
  case (erase i p)
  with owner_invD(2) [OF inv, of i] have p: "block_pointer p" by simp
  with erase have "block_pointer q \<and> (\<exists>n. heap_of s' q = Some n \<and> entry_ok (entry K s' q) n)"
    if "q \<in> owned s" for q
    using owner_invD(1) [OF inv that] by (auto simp: entry_accesses [OF F] entry_ok_def)
  with erase p owner_invD(3,5) [OF inv] show ?thesis
    by (intro owner_inv_move [OF inv, where i = i and w = Outside])
      (auto simp: entry_accesses [OF F] same_block_def)
qed (use calm in simp)

text \<open>Another thread is settled as before when its block is not the one a step concerns.\<close>

lemma settled_frame:
  assumes "settled K s w"
    and "\<And>q. in_hand w = Some q \<Longrightarrow> entry K s' q = entry K s q \<and> age s' q = age s q"
    and "\<And>q. erasing w = Some q \<Longrightarrow> heap_of s q = None \<Longrightarrow> heap_of s' q = None"
  shows "settled K s' w"
  using assms by (cases w) auto

lemma entry_inv_step:
  assumes "race_step K s s'" and own: "owner_inv K s" and inv: "entry_inv K s"
    and F: "factories_succeed K" and calm: "\<not> reissued s'" "\<not> overlapped s"
  shows "entry_inv K s'"
  using assms(1)
proof (cases rule: race_step.cases)
  case (malloc i p n)
  with calm have "\<forall>j. erasing (doing s j) \<noteq> Some p" by simp
  with malloc have "settled K s' (doing s j)" for j
    by (intro settled_frame [OF entry_invD(3) [OF inv]]) auto
  with malloc owner_inv_free [OF own] entry_invD(1,2) [OF inv] show ?thesis
    by (intro entry_inv_move [OF inv, where i = i and w = "Recording n p"]) auto
next
  case (no_memory i n)
  then show ?thesis by (intro entry_inv_quiet [OF inv, where i = i and w = Outside]) auto
next
  case (start_set i n p)
  then show ?thesis by (intro entry_inv_quiet [OF inv, where i = i and w = "Setting n p"]) auto
next
  case (set_size i n p)
  with owner_invD(2) [OF own, of i] have p: "block_pointer p" by simp
  have "in_hand (doing s j) \<noteq> Some p" if "j \<noteq> i" for j
    using set_size that owner_invD(4) [OF own, of i p j] by auto
  with set_size p have "settled K s' (doing s j)" if "j \<noteq> i" for j
    using that by (intro settled_frame [OF entry_invD(3) [OF inv]])
      (auto simp: entry_accesses [OF F] released_def)
  with set_size p entry_invD(1,2) [OF inv] show ?thesis
    by (intro entry_inv_move [OF inv, where i = i and w = Outside])
      (auto simp: entry_accesses [OF F])
next
  case (start_get i p)
  with entry_invD(2) [OF inv, of p] show ?thesis
    by (intro entry_inv_quiet [OF inv, where i = i and w = "Getting p"]) auto
next
  case (unknown i p)
  with owner_invD(2) [OF own, of i] entry_invD(3) [OF inv, of i] show ?thesis
    by (auto simp: entry_accesses [OF F])
next
  case (got i p v)
  then show ?thesis
    by (intro entry_inv_quiet [OF inv, where i = i and w = "Casting p v (age s p)"]) auto
next
  case (cast_ok i p sz k)
  then show ?thesis by (intro entry_inv_quiet [OF inv, where i = i and w = "Reading p sz k"]) auto
next
  case (bad_cast i p x k)
  with owner_invD(2) [OF own, of i] show ?thesis by auto
next
  case (cast_released i p v k)
  with entry_invD(3) [OF inv, of i] show ?thesis by simp
next
  case (read_size i p sz k)
  then show ?thesis by (intro entry_inv_quiet [OF inv, where i = i and w = "Found p sz"]) auto
next
  case (read_released i p sz k)
  with entry_invD(3) [OF inv, of i] show ?thesis by simp
next
  case (give_back i p sz)
  with owner_invD(3) [OF own, of i p] entry_invD [OF inv] show ?thesis
    by (intro entry_inv_move [OF inv, where i = i and w = "Erasing p"])
      (auto split: if_splits intro: settled_frame [where s = s])
next
  case (start_remove i p)
  with entry_invD(3) [OF inv, of i] show ?thesis
    by (intro entry_inv_quiet [OF inv, where i = i and w = "Removing p"]) auto
next
  case (erase i p)
  with owner_invD(2) [OF own, of i] entry_invD(3) [OF inv, of i]
  have p: "block_pointer p" "heap_of s p = None" by simp_all
  note free = owner_inv_free [OF own p(2)]
  with erase p have "settled K s' (doing s j)" for j
    by (intro settled_frame [OF entry_invD(3) [OF inv]])
      (auto simp: entry_accesses [OF F] released_def)
  with erase p free entry_invD(1,2) [OF inv] show ?thesis
    by (intro entry_inv_move [OF inv, where i = i and w = Outside])
      (auto simp: entry_accesses [OF F])
qed (use calm in simp)

text \<open>The invariants of every state reached without overlapping calls.\<close>

lemma race_inv:
  assumes "factories_succeed K" and "race_reach K s" and "\<not> overlapped s"
  shows "owner_inv K s \<and> (\<not> reissued s \<longrightarrow> entry_inv K s)"
proof -
  from assms(2) obtain s0 where start: "race_start K s0" and run: "(race_step K)\<^sup>*\<^sup>* s0 s"
    by (auto simp: race_reach_def)
  from run assms(3) show ?thesis
  proof (induction rule: rtranclp_induct)
    case base
    with start show ?case
      by (auto simp: race_start_def owner_inv_def tracker_hands.in_order_def entry_inv_def)
  next
    case (step s s')
    with owner_inv_step [OF step(2) _ assms(1)] entry_inv_step [OF step(2) _ _ assms(1)]
      flags_kept [OF step(2)] show ?case by blast
  qed
qed

end

section \<open>Lost blocks\<close>

text \<open>A live block that no client has and no thread holds stays that way.\<close>

definition lost :: "'d race \<Rightarrow> ptr \<Rightarrow> u64 \<Rightarrow> bool" where
  "lost s p n \<longleftrightarrow> heap_of s p = Some n \<and> p \<notin> owned s \<and> (\<forall>i. in_hand (doing s i) \<noteq> Some p)"

lemma lostD: "lost s p n \<Longrightarrow> in_hand (doing s i) = Some q \<Longrightarrow> q \<noteq> p"
  by (auto simp: lost_def)

lemma lost_step:
  assumes "race_step K s s'" and "lost s p n"
  shows "lost s' p n"
  using assms(1)
proof (cases rule: race_step.cases)
  case (start_set i m q)
  with lostD [OF assms(2), of i q] assms(2) show ?thesis by (auto simp: lost_def)
next
  case (set_size i m q)
  with lostD [OF assms(2), of i q] assms(2) show ?thesis by (auto simp: lost_def)
next
  case (got i q v)
  with lostD [OF assms(2), of i q] assms(2) show ?thesis by (auto simp: lost_def)
next
  case (cast_ok i q sz k)
  with lostD [OF assms(2), of i q] assms(2) show ?thesis by (auto simp: lost_def)
next
  case (read_size i q sz k)
  with lostD [OF assms(2), of i q] assms(2) show ?thesis by (auto simp: lost_def)
next
  case (give_back i q sz)
  with lostD [OF assms(2), of i q] assms(2) show ?thesis by (auto simp: lost_def)
qed (use assms(2) in \<open>auto simp: lost_def\<close>)

lemma lost_steps: "(race_step K)\<^sup>*\<^sup>* s s' \<Longrightarrow> lost s p n \<Longrightarrow> lost s' p n"
  by (induction rule: rtranclp_induct) (auto intro: lost_step)

section \<open>Runs that go wrong\<close>

lemma nobody_inside: "\<forall>j. j \<noteq> i \<longrightarrow> \<not> in_dictionary (pos j) \<Longrightarrow> \<not> others_inside in_dictionary pos i"
  by (auto simp: others_inside_def)

text \<open>
  How both start: thread 0 has allocated \<open>p\<close>, has freed it and is to erase its entry when
  thread 1 is handed \<open>p\<close> and records it.
\<close>

lemma race_reissues:
  assumes lib: "libkern_objects K" and F: "factories_succeed K" and start: "race_start K s0"
    and p: "block_pointer p" "p \<noteq> NULL"
  obtains s where "(race_step K)\<^sup>*\<^sup>* s0 s" "heap_of s = [p \<mapsto> m]" "owned s = {p}"
    "doing s = (\<lambda>_. Outside)(0 := Erasing p)" "\<not> overlapped s"
    "get_entry K (dict_of s) p = Some (OSNumber (tracked_size m))"
    "log_of s = [IOMallocZero n p, IOFree p (tracked_size n), IOMallocZero m p]"
proof -
  note entry = libkern_objects.entry_accesses [OF lib F p(1)]
  from start have s0: "heap_of s0 = Map.empty" "owned s0 = {}" "doing s0 = (\<lambda>_. Outside)"
    "log_of s0 = []" "\<not> overlapped s0" by (simp_all add: race_start_def)
  have out: "doing s0 0 = Outside" "heap_of s0 p = None" using s0 by simp_all
  obtain s1 where s1: "(race_step K)\<^sup>*\<^sup>* s0 s1" "heap_of s1 = (heap_of s0)(p \<mapsto> n)"
    "dict_of s1 = put_entry K (dict_of s0) p n" "owned s1 = insert p (owned s0)" "doing s1 = doing s0"
    "log_of s1 = log_of s0 @ [IOMallocZero n p]"
    "overlapped s1 \<longleftrightarrow> overlapped s0 \<or> others_inside in_dictionary (doing s0) 0"
    by (rule alloc_run [OF out(1) p out(2), of K n]) (rule that; assumption)
  have has: "doing s1 0 = Outside" "p \<in> owned s1"
    "get_entry K (dict_of s1) p = Some (OSNumber (tracked_size n))"
    using s0 s1 by (simp_all add: entry)
  obtain s2 where s2: "(race_step K)\<^sup>*\<^sup>* s1 s2" "heap_of s2 = (heap_of s1)(p := None)"
    "dict_of s2 = dict_of s1" "owned s2 = owned s1 - {p}" "doing s2 = (doing s1)(0 := Erasing p)"
    "log_of s2 = log_of s1 @ [IOFree p (tracked_size n)]"
    "overlapped s2 \<longleftrightarrow> overlapped s1 \<or> others_inside in_dictionary (doing s1) 0"
    by (rule free_run [OF has]) (rule that; assumption)
  have again: "doing s2 1 = Outside" "heap_of s2 p = None" using s0 s1 s2 by simp_all
  obtain s3 where s3: "(race_step K)\<^sup>*\<^sup>* s2 s3" "heap_of s3 = (heap_of s2)(p \<mapsto> m)"
    "dict_of s3 = put_entry K (dict_of s2) p m" "owned s3 = insert p (owned s2)" "doing s3 = doing s2"
    "log_of s3 = log_of s2 @ [IOMallocZero m p]"
    "overlapped s3 \<longleftrightarrow> overlapped s2 \<or> others_inside in_dictionary (doing s2) 1"
    by (rule alloc_run [OF again(1) p again(2), of K m]) (rule that; assumption)
  have run: "(race_step K)\<^sup>*\<^sup>* s0 s3" using s1(1) s2(1) s3(1) by (meson rtranclp_trans)
  have "\<not> overlapped s3" using s0 s1(5,7) s2(5,7) s3(7) by (simp add: others_inside_def)
  then show ?thesis using s0 s1 s2 s3 by (intro that [OF run]) (simp_all add: entry)
qed

lemma race_loses_block:
  assumes lib: "libkern_objects K" and F: "factories_succeed K" and start: "race_start K s0"
    and p: "block_pointer p" "p \<noteq> NULL"
  shows "\<exists>s. (race_step K)\<^sup>*\<^sup>* s0 s \<and> \<not> overlapped s \<and> owned s = {} \<and> (\<forall>i. doing s i = Outside) \<and>
    lost s p m \<and> log_of s = [IOMallocZero n p, IOFree p (tracked_size n), IOMallocZero m p]"
proof -
  note entry = libkern_objects.entry_accesses [OF lib F p(1)]
  obtain s where s: "(race_step K)\<^sup>*\<^sup>* s0 s" "heap_of s = [p \<mapsto> m]" "owned s = {p}"
    "doing s = (\<lambda>_. Outside)(0 := Erasing p)" "\<not> overlapped s"
    "log_of s = [IOMallocZero n p, IOFree p (tracked_size n), IOMallocZero m p]"
    by (rule race_reissues [OF assms, of m n]) (rule that; assumption)
  have at: "doing s 0 = Erasing p" using s by simp
  obtain s1 where s1: "(race_step K)\<^sup>*\<^sup>* s s1" "heap_of s1 = heap_of s"
    "dict_of s1 = erase_entry K (dict_of s) p" "owned s1 = owned s"
    "doing s1 = (doing s)(0 := Outside)" "log_of s1 = log_of s"
    "overlapped s1 \<longleftrightarrow> overlapped s \<or> others_inside in_dictionary (doing s) 0"
    by (rule erase_run [OF at, of K]) (rule that; assumption)
  have gone: "doing s1 1 = Outside" "p \<in> owned s1" "get_entry K (dict_of s1) p = None"
    using s s1 by (simp_all add: entry)
  obtain s2 where s2: "(race_step K)\<^sup>*\<^sup>* s1 s2" "heap_of s2 = heap_of s1" "owned s2 = owned s1 - {p}"
    "doing s2 = doing s1" "log_of s2 = log_of s1"
    "overlapped s2 \<longleftrightarrow> overlapped s1 \<or> others_inside in_dictionary (doing s1) 1"
    by (rule unknown_run [OF gone]) (rule that; assumption)
  have "(race_step K)\<^sup>*\<^sup>* s0 s2" using s(1) s1(1) s2(1) by (meson rtranclp_trans)
  moreover have "\<not> overlapped s2" using s(4,5) s1(5,7) s2(6) by (simp add: others_inside_def)
  ultimately show ?thesis using s s1 s2 by (intro exI [of _ s2]) (simp add: lost_def)
qed

text \<open>Thread 1 has looked its entry up when thread 0 removes it.\<close>

lemma race_dangles:
  assumes lib: "libkern_objects K" and F: "factories_succeed K" and start: "race_start K s0"
    and p: "block_pointer p" "p \<noteq> NULL"
  shows "\<exists>s. (race_step K)\<^sup>*\<^sup>* s0 s \<and> \<not> overlapped s \<and> doing s 1 = Dangling \<and> heap_of s = [p \<mapsto> m] \<and>
    log_of s = [IOMallocZero n p, IOFree p (tracked_size n), IOMallocZero m p]"
proof -
  obtain s where s: "(race_step K)\<^sup>*\<^sup>* s0 s" "heap_of s = [p \<mapsto> m]" "owned s = {p}"
    "doing s = (\<lambda>_. Outside)(0 := Erasing p)" "\<not> overlapped s"
    "get_entry K (dict_of s) p = Some (OSNumber (tracked_size m))"
    "log_of s = [IOMallocZero n p, IOFree p (tracked_size n), IOMallocZero m p]"
    by (rule race_reissues [OF assms, of m n]) (rule that; assumption)
  let ?v = "OSNumber (tracked_size m)"
  let ?s1 = "(enter s 1 (Getting p))\<lparr>owned := owned s - {p}\<rparr>"
  let ?s2 = "?s1\<lparr>doing := (doing ?s1)(1 := Casting p ?v (age ?s1 p))\<rparr>"
  have "race_step K s ?s1" using s by (intro race_step.start_get) simp_all
  moreover have "race_step K ?s1 ?s2" using s by (intro race_step.got) simp_all
  ultimately have run: "(race_step K)\<^sup>*\<^sup>* s0 ?s2" using s(1) by (meson rtranclp.rtrancl_into_rtrancl)
  have at: "doing ?s2 0 = Erasing p" using s by simp
  obtain s3 where s3: "(race_step K)\<^sup>*\<^sup>* ?s2 s3" "heap_of s3 = heap_of ?s2"
    "doing s3 = (doing ?s2)(0 := Outside)" "log_of s3 = log_of ?s2" "age s3 = released K ?s2 p"
    "overlapped s3 \<longleftrightarrow> overlapped ?s2 \<or> others_inside in_dictionary (doing ?s2) 0"
    by (rule erase_run [OF at, of K]) (rule that; assumption)
  let ?s4 = "s3\<lparr>doing := (doing s3)(1 := Dangling)\<rparr>"
  have "age s3 p \<noteq> age s p" using s s3(5) by (simp add: released_def)
  then have "race_step K s3 ?s4"
    by (intro race_step.cast_released [where p = p and v = ?v and k = "age s p"]) (simp_all add: s3(3))
  with run s3(1) have "(race_step K)\<^sup>*\<^sup>* s0 ?s4" by (meson rtranclp_trans rtranclp.rtrancl_into_rtrancl)
  moreover have "\<not> overlapped ?s4" using s(4,5) s3(6) by (auto simp: others_inside_def)
  ultimately show ?thesis using s s3 by (intro exI [of _ ?s4]) simp
qed

text \<open>Two threads that record a block each are in \<open>setObject\<close> at once.\<close>

lemma race_overlaps:
  assumes start: "race_start K s0"
    and p: "block_pointer p" "p \<noteq> NULL" and q: "block_pointer q" "q \<noteq> NULL" "q \<noteq> p"
  shows "\<exists>s. (race_step K)\<^sup>*\<^sup>* s0 s \<and> overlapped s \<and> dict_of s = d"
proof -
  from start have s0: "heap_of s0 = Map.empty" "doing s0 = (\<lambda>_. Outside)" by (simp_all add: race_start_def)
  let ?s1 = "s0\<lparr>heap_of := (heap_of s0)(p \<mapsto> 8), doing := (doing s0)(0 := Recording 8 p),
      log_of := log_of s0 @ [IOMallocZero 8 p],
      reissued := reissued s0 \<or> (\<exists>j. erasing (doing s0 j) = Some p)\<rparr>"
  let ?s2 = "?s1\<lparr>heap_of := (heap_of ?s1)(q \<mapsto> 8), doing := (doing ?s1)(1 := Recording 8 q),
      log_of := log_of ?s1 @ [IOMallocZero 8 q],
      reissued := reissued ?s1 \<or> (\<exists>j. erasing (doing ?s1 j) = Some q)\<rparr>"
  let ?s3 = "enter ?s2 0 (Setting 8 p)"
  let ?s4 = "enter ?s3 1 (Setting 8 q)"
  let ?s5 = "?s4\<lparr>dict_of := d, age := age ?s4\<rparr>"
  note [trans] = rtranclp.rtrancl_into_rtrancl
  have "(race_step K)\<^sup>*\<^sup>* s0 ?s1" using s0 p by (intro r_into_rtranclp race_step.malloc) simp_all
  also have "race_step K ?s1 ?s2" using s0 q by (intro race_step.malloc) simp_all
  also have "race_step K ?s2 ?s3" by (rule race_step.start_set) simp
  also have "race_step K ?s3 ?s4" by (rule race_step.start_set) simp
  also have over: "overlapped ?s4" by (auto simp: others_inside_def intro: exI [of _ 0])
  then have "race_step K ?s4 ?s5" by (rule race_step.torn)
  finally show ?thesis using over by (intro exI [of _ ?s5]) simp
qed

section \<open>Properties\<close>

text \<open>
  C7. Threads that race inside \<open>os_alloc_mem\<close> and \<open>os_free_mem\<close>, in every run in which their
  calls to the dictionary do not overlap (no lock of the sources sees to that).  While no thread
  has used a released object, no thread is stopped, every call to \<open>IOFree\<close> gives back a block
  that was handed out and not yet given back, with the size kept of it, and what a client has is
  live.  As long as the kernel hands out no block whose old entry a thread is still to erase, no
  thread uses a released object, each block a client has is recorded, and when every thread is
  outside the two functions the live blocks are those the clients have.
\<close>

theorem racing_tracker_safe:
  assumes "libkern_objects K" and "factories_succeed K" and "race_reach K s" and "\<not> overlapped s"
  shows "((\<forall>i. doing s i \<noteq> Dangling) \<longrightarrow>
      (\<forall>i. doing s i \<noteq> Stopped) \<and>
      replay Map.empty (log_of s) = Some (heap_of s) \<and>
      owned s \<subseteq> dom (heap_of s)) \<and>
    (\<not> reissued s \<longrightarrow>
      (\<forall>i. doing s i \<noteq> Dangling) \<and>
      (\<forall>p n. p \<in> owned s \<and> heap_of s p = Some n \<longrightarrow>
        reg_find K (dict_of s) p = Some (OSNumber (tracked_size n))) \<and>
      ((\<forall>i. doing s i = Outside) \<longrightarrow> dom (heap_of s) = owned s))"
proof -
  from libkern_objects.race_inv [OF assms] have own: "owner_inv K s"
    and entries: "\<not> reissued s \<Longrightarrow> entry_inv K s" by simp_all
  note o = owner_invD [OF own] and e = entry_invD [OF entries]
  have "doing s i \<noteq> Stopped" for i using o(2) [of i] by auto
  moreover have live: "owned s \<subseteq> dom (heap_of s)" using o(1) by auto
  moreover have "doing s i \<noteq> Dangling" if "\<not> reissued s" for i using e(3) [OF that, of i] by auto
  moreover have "reg_find K (dict_of s) p = Some (OSNumber (tracked_size n))"
    if "\<not> reissued s" "p \<in> owned s" "heap_of s p = Some n" for p n
    using o(1) [OF that(2)] e(2) [OF that(1,2)] that(3) by (auto simp: block_view_def entry_ok_def)
  moreover have "dom (heap_of s) = owned s" if "\<not> reissued s" "\<forall>i. doing s i = Outside"
    using e(1) [OF that(1)] that(2) live by fastforce
  ultimately show ?thesis using o(5) by blast
qed

definition example_race :: "map_dict race" where
  "example_race = \<lparr>heap_of = Map.empty, dict_of = Map.empty, owned = {}, doing = (\<lambda>_. Outside),
     log_of = [], age = (\<lambda>_. 0), reissued = False, overlapped = False\<rparr>"

lemma example_race_start: "race_start map_libkern example_race"
  by (simp add: race_start_def example_race_def map_libkern_empty)

text \<open>A thread that has recorded a block of 300 bytes.\<close>

theorem racing_tracker_safe_witness:
  "\<exists>s. race_reach map_libkern s \<and> \<not> overlapped s \<and> owned s = {0x1000} \<and>
     reg_find map_libkern (dict_of s) 0x1000 = Some (OSNumber 44)"
proof -
  have good: "block_pointer 0x1000" "(0x1000 :: ptr) \<noteq> NULL" by (simp_all add: block_pointer_def canonical_def)
  have out: "doing example_race 0 = Outside" "heap_of example_race 0x1000 = None"
    by (simp_all add: example_race_def)
  obtain s where run: "(race_step map_libkern)\<^sup>*\<^sup>* example_race s"
    and s: "heap_of s = (heap_of example_race)(0x1000 \<mapsto> 300)" "owned s = insert 0x1000 (owned example_race)"
    "reissued s \<longleftrightarrow> reissued example_race \<or> (\<exists>j. erasing (doing example_race j) = Some 0x1000)"
    "overlapped s \<longleftrightarrow> overlapped example_race \<or> others_inside in_dictionary (doing example_race) 0"
    by (rule alloc_run [OF out(1) good out(2), of map_libkern 300]) (rule that; assumption)
  have reach: "race_reach map_libkern s" using run example_race_start by (auto simp: race_reach_def)
  have calm: "\<not> overlapped s" "\<not> reissued s" "heap_of s 0x1000 = Some 300" "owned s = {0x1000}"
    using s by (simp_all add: example_race_def others_inside_def)
  have "tracked_size 300 = 44" by (simp add: tracked_size_def sizeof_NvU64_def take_bit_eq_mod)
  with racing_tracker_safe [OF map_libkern.libkern_objects_axioms map_libkern_factories reach calm(1)]
    reach calm show ?thesis by auto
qed

text \<open>
  C8. The order of \<open>IOFree\<close> and \<open>removeObject\<close> in \<open>os_free_mem\<close> loses blocks, also when no calls
  to the dictionary overlap: two threads that allocate one block each and free it can end outside
  both functions with nothing left to free and the second block never given back, and no run
  from there ever gives it back.
\<close>

theorem racing_tracker_leaks:
  assumes "libkern_objects K" and "factories_succeed K" and "race_start K s0"
    and "block_pointer p" and "p \<noteq> NULL"
  shows "\<exists>s. (race_step K)\<^sup>*\<^sup>* s0 s \<and> \<not> overlapped s \<and> owned s = {} \<and> (\<forall>i. doing s i = Outside) \<and>
    log_of s = [IOMallocZero n p, IOFree p (tracked_size n), IOMallocZero m p] \<and>
    (\<forall>s'. (race_step K)\<^sup>*\<^sup>* s s' \<longrightarrow> heap_of s' p = Some m \<and> p \<notin> owned s')"
proof -
  from race_loses_block [OF assms] obtain s where s: "(race_step K)\<^sup>*\<^sup>* s0 s" "owned s = {}"
    "\<forall>i. doing s i = Outside" "lost s p m" "\<not> overlapped s"
    "log_of s = [IOMallocZero n p, IOFree p (tracked_size n), IOMallocZero m p]" by blast
  from lost_steps [OF _ s(4)] s show ?thesis by (auto simp: lost_def)
qed

theorem racing_tracker_leaks_witness:
  "\<exists>s. race_reach map_libkern s \<and> owned s = {} \<and> (\<forall>i. doing s i = Outside) \<and>
     heap_of s 0x1000 = Some 200"
proof -
  have "block_pointer 0x1000" by (simp add: block_pointer_def canonical_def)
  from racing_tracker_leaks [OF map_libkern.libkern_objects_axioms map_libkern_factories
      example_race_start this, of 100 200]
  show ?thesis using example_race_start by (auto simp: race_reach_def)
qed

text \<open>
  C15. Two ways in which nothing stops the tracker from being misused by two threads that each only
  free what they allocated.  Without any overlap, one thread can use the \<open>OSNumber\<close> it found after
  another has released it: \<open>os_free_mem\<close> takes no reference to it, and the other is still to erase
  the entry of a block it has given back.  And two calls to the dictionary can overlap, after
  which it may hold anything.
\<close>

theorem racing_tracker_dangles:
  assumes "libkern_objects K" and "factories_succeed K" and "race_start K s0"
    and "block_pointer p" and "p \<noteq> NULL" and "block_pointer q" and "q \<noteq> NULL" and "q \<noteq> p"
  shows "(\<exists>s. (race_step K)\<^sup>*\<^sup>* s0 s \<and> \<not> overlapped s \<and> doing s 1 = Dangling \<and>
      log_of s = [IOMallocZero n p, IOFree p (tracked_size n), IOMallocZero m p]) \<and>
    (\<exists>s. (race_step K)\<^sup>*\<^sup>* s0 s \<and> overlapped s \<and> dict_of s = d)"
  using race_dangles [OF assms(1-5)] race_overlaps [OF assms(3-8)] by blast

theorem racing_tracker_dangles_witness:
  "\<exists>s. race_reach map_libkern s \<and> \<not> overlapped s \<and> doing s 1 = Dangling"
proof -
  have good: "block_pointer 0x1000" "(0x1000 :: ptr) \<noteq> NULL" "block_pointer 0x2000"
    "(0x2000 :: ptr) \<noteq> NULL" "(0x2000 :: ptr) \<noteq> 0x1000"
    by (simp_all add: block_pointer_def canonical_def)
  obtain s where "(race_step map_libkern)\<^sup>*\<^sup>* example_race s" "\<not> overlapped s" "doing s 1 = Dangling"
    using racing_tracker_dangles [OF map_libkern.libkern_objects_axioms map_libkern_factories
      example_race_start good, where n = 8 and m = 8 and d = Map.empty] by blast
  then show ?thesis using example_race_start by (auto simp: race_reach_def)
qed

end
