(* ===== verification/MapRaces.thy ===== *)
theory MapRaces
  imports MapClients BlockHands
begin

text \<open>
  Races inside \<open>os_map_kernel_space\<close> and \<open>os_unmap_kernel_space\<close> of \<open>memory_driverkit.cpp\<close>:
  threads that interleave between the calls the two functions make.  A call to the global
  dictionary is two steps, its start and its effect, so that two of them can overlap; from then
  on the dictionary may hold anything.  Unlike \<open>os_free_mem\<close>, the unmapping gives nothing back
  before it removes its entry: the dictionary has the last reference to the mapping, and removing
  the entry is what undoes it.
\<close>

section \<open>The steps of the two functions\<close>

text \<open>
  \<open>Holding p v k\<close> has what \<open>getObject\<close> returned, a pointer without a reference; \<open>k\<close> is the age
  of the entry it is from.
\<close>

datatype map_progress =
    NotMapping
  | Entering ptr ptr                    \<comment> \<open>\<open>CreateMapping\<close> gave this object at this address\<close>
  | Storing ptr ptr                     \<comment> \<open>in \<open>setObject\<close>\<close>
  | Seeking ptr                         \<comment> \<open>in \<open>getObject\<close>\<close>
  | Holding ptr "os_object option" nat  \<comment> \<open>before \<open>OSRequiredCast\<close>\<close>
  | Dropping ptr                        \<comment> \<open>the entry was found and cast\<close>
  | Unmapping ptr                       \<comment> \<open>in \<open>removeObject\<close>\<close>
  | MapStopped                          \<comment> \<open>in the failed cast\<close>
  | MapDangling                         \<comment> \<open>has used an object that was released\<close>

fun in_map_dictionary :: "map_progress \<Rightarrow> bool" where
  "in_map_dictionary (Storing p m) = True"
| "in_map_dictionary (Seeking p) = True"
| "in_map_dictionary (Unmapping p) = True"
| "in_map_dictionary _ = False"

text \<open>
  \<open>mapped\<close> are the address ranges in use with the objects that keep them, by their first
  address; \<open>handed\<close> the addresses the clients have; \<open>map_age p\<close> counts the objects released from
  under the key of \<open>p\<close>; \<open>map_overlapped\<close> notes that two calls to the dictionary overlapped.
\<close>

record 'd map_race =
  mapped :: "ptr \<Rightarrow> ptr option"
  map_dict :: 'd
  handed :: "ptr set"
  mapping_at :: "nat \<Rightarrow> map_progress"
  map_age :: "ptr \<Rightarrow> nat"
  map_overlapped :: bool

text \<open>A thread starts a call to the dictionary.\<close>

definition enter_map :: "'d map_race \<Rightarrow> nat \<Rightarrow> map_progress \<Rightarrow> 'd map_race" where
  "enter_map s i w = s\<lparr>mapping_at := (mapping_at s)(i := w),
     map_overlapped := map_overlapped s \<or> others_inside in_map_dictionary (mapping_at s) i\<rparr>"

lemma enter_map_simps [simp]:
  "mapped (enter_map s i w) = mapped s" "map_dict (enter_map s i w) = map_dict s"
  "handed (enter_map s i w) = handed s" "mapping_at (enter_map s i w) = (mapping_at s)(i := w)"
  "map_age (enter_map s i w) = map_age s"
  "map_overlapped (enter_map s i w) \<longleftrightarrow>
     map_overlapped s \<or> others_inside in_map_dictionary (mapping_at s) i"
  by (simp_all add: enter_map_def)

text \<open>The ages after the entry of \<open>p\<close> was replaced or removed.\<close>

definition aged :: "'d libkern \<Rightarrow> 'd map_race \<Rightarrow> ptr \<Rightarrow> ptr \<Rightarrow> nat" where
  "aged K s p =
     (if reg_find K (map_dict s) p = None then map_age s
      else (map_age s)(p := Suc (map_age s p)))"

text \<open>
  Removing an entry releases its object, which ends the mapping: every other reference was
  given back when the entry was made.
\<close>

definition drop_entry :: "'d libkern \<Rightarrow> 'd map_race \<Rightarrow> ptr \<Rightarrow> 'd map_race" where
  "drop_entry K s p =
     s\<lparr>map_dict := reg_del K (map_dict s) p, map_age := aged K s p,
       mapped := (if reg_find K (map_dict s) p = None then mapped s else (mapped s)(p := None))\<rparr>"

text \<open>
  The step that ends a call to the dictionary is the moment of its effect; what follows it in
  the function before the next call (the releases, the return) is part of the step.
\<close>

inductive map_race_step ::
  "'d libkern \<Rightarrow> (os_object option \<Rightarrow> ptr option outcome) \<Rightarrow> 'd map_race \<Rightarrow> 'd map_race \<Rightarrow> bool"
  for K cast where
  create: "mapping_at s i = NotMapping \<Longrightarrow> block_pointer p \<Longrightarrow> mapped s p = None \<Longrightarrow>
    map_race_step K cast s (s\<lparr>mapped := (mapped s)(p \<mapsto> m),
      mapping_at := (mapping_at s)(i := Entering p m)\<rparr>)"
| start_store: "mapping_at s i = Entering p m \<Longrightarrow>
    map_race_step K cast s (enter_map s i (Storing p m))"
| store_object: "mapping_at s i = Storing p m \<Longrightarrow>
    map_race_step K cast s (s\<lparr>map_dict := reg_put K (map_dict s) p (IOMemoryMapObject m),
      map_age := aged K s p, handed := insert p (handed s),
      mapping_at := (mapping_at s)(i := NotMapping)\<rparr>)"
| start_seek: "mapping_at s i = NotMapping \<Longrightarrow> p \<in> handed s \<Longrightarrow>
    map_race_step K cast s ((enter_map s i (Seeking p))\<lparr>handed := handed s - {p}\<rparr>)"
| sought: "mapping_at s i = Seeking p \<Longrightarrow>
    map_race_step K cast s (s\<lparr>mapping_at :=
      (mapping_at s)(i := Holding p (reg_find K (map_dict s) p) (map_age s p))\<rparr>)"
| not_found: "mapping_at s i = Holding p v k \<Longrightarrow> v = None \<or> map_age s p = k \<Longrightarrow>
    cast v = Done None \<Longrightarrow>
    map_race_step K cast s (s\<lparr>mapping_at := (mapping_at s)(i := NotMapping)\<rparr>)"
| found: "mapping_at s i = Holding p v k \<Longrightarrow> v = None \<or> map_age s p = k \<Longrightarrow>
    cast v = Done (Some m) \<Longrightarrow>
    map_race_step K cast s (s\<lparr>mapping_at := (mapping_at s)(i := Dropping p)\<rparr>)"
| failed_cast: "mapping_at s i = Holding p v k \<Longrightarrow> v = None \<or> map_age s p = k \<Longrightarrow>
    cast v = Fault f \<Longrightarrow>
    map_race_step K cast s (s\<lparr>mapping_at := (mapping_at s)(i := MapStopped)\<rparr>)"
| cast_gone: "mapping_at s i = Holding p (Some v) k \<Longrightarrow> map_age s p \<noteq> k \<Longrightarrow>
    map_race_step K cast s (s\<lparr>mapping_at := (mapping_at s)(i := MapDangling)\<rparr>)"
| start_drop: "mapping_at s i = Dropping p \<Longrightarrow>
    map_race_step K cast s (enter_map s i (Unmapping p))"
| drop: "mapping_at s i = Unmapping p \<Longrightarrow>
    map_race_step K cast s ((drop_entry K s p)\<lparr>mapping_at := (mapping_at s)(i := NotMapping)\<rparr>)"
| torn_map: "map_overlapped s \<Longrightarrow> map_race_step K cast s (s\<lparr>map_dict := d, map_age := a\<rparr>)"

definition map_race_start :: "'d libkern \<Rightarrow> 'd map_race \<Rightarrow> bool" where
  "map_race_start K s \<longleftrightarrow> mapped s = Map.empty \<and> (\<forall>k. get_object K (map_dict s) k = None) \<and>
     handed s = {} \<and> mapping_at s = (\<lambda>_. NotMapping) \<and> \<not> map_overlapped s"

definition map_race_reach ::
  "'d libkern \<Rightarrow> (os_object option \<Rightarrow> ptr option outcome) \<Rightarrow> 'd map_race \<Rightarrow> bool" where
  "map_race_reach K cast s \<longleftrightarrow> (\<exists>s0. map_race_start K s0 \<and> (map_race_step K cast)\<^sup>*\<^sup>* s0 s)"

section \<open>A thread that is not interrupted\<close>

lemma map_thread_run:
  assumes "mapping_at s i = NotMapping" and "block_pointer p" and "mapped s p = None"
  obtains s' where "(map_race_step K cast)\<^sup>*\<^sup>* s s'" "mapped s' = (mapped s)(p \<mapsto> m)"
    "map_dict s' = reg_put K (map_dict s) p (IOMemoryMapObject m)" "map_age s' = aged K s p"
    "handed s' = insert p (handed s)" "mapping_at s' = mapping_at s"
    "map_overlapped s' \<longleftrightarrow> map_overlapped s \<or> others_inside in_map_dictionary (mapping_at s) i"
proof -
  let ?s = "s\<lparr>mapped := (mapped s)(p \<mapsto> m), mapping_at := (mapping_at s)(i := Entering p m)\<rparr>"
  let ?t = "enter_map ?s i (Storing p m)"
  let ?u = "?t\<lparr>map_dict := reg_put K (map_dict ?t) p (IOMemoryMapObject m), map_age := aged K ?t p,
      handed := insert p (handed ?t), mapping_at := (mapping_at ?t)(i := NotMapping)\<rparr>"
  note [trans] = rtranclp.rtrancl_into_rtrancl
  have "(map_race_step K cast)\<^sup>*\<^sup>* s ?s"
    using assms by (intro r_into_rtranclp map_race_step.create)
  also have "map_race_step K cast ?s ?t" by (rule map_race_step.start_store) simp
  also have "map_race_step K cast ?t ?u" by (rule map_race_step.store_object) simp
  finally have run: "(map_race_step K cast)\<^sup>*\<^sup>* s ?u" .
  have "others_inside in_map_dictionary ((mapping_at s)(i := Entering p m)) i \<longleftrightarrow>
      others_inside in_map_dictionary (mapping_at s) i" by (auto simp: others_inside_def)
  then show ?thesis using assms(1) by (intro that [OF run]) (auto simp: aged_def)
qed

lemma map_alone:
  assumes "mapping_at s i = NotMapping" and "dk_maps nvd ans start"
    and "block_pointer (mapping_address ans)" and "mapped s (mapping_address ans) = None"
    and "os_map_kernel_space_dk K M C nvd (map_dict s) ans start sz mode = Done r"
  shows "\<exists>s'. (map_race_step K cast)\<^sup>*\<^sup>* s s' \<and> map_dict s' = new_dict r \<and>
    mapping_at s' = mapping_at s \<and> handed s' = insert (mapped_at r) (handed s)"
proof -
  obtain s' where "(map_race_step K cast)\<^sup>*\<^sup>* s s'"
    "map_dict s' = reg_put K (map_dict s) (mapping_address ans) (IOMemoryMapObject (mapping_object ans))"
    "handed s' = insert (mapping_address ans) (handed s)" "mapping_at s' = mapping_at s"
    by (rule map_thread_run [OF assms(1,3,4), of K cast "mapping_object ans"]) (rule that; assumption)
  with map_dk_mapped [OF assms(2), of K M C "map_dict s" sz mode] assms(5) show ?thesis
    by (intro exI [of _ s']) auto
qed

text \<open>An unmapping up to its cast.\<close>

lemma seek_alone:
  assumes "mapping_at s i = NotMapping" and "p \<in> handed s"
  shows "\<exists>s'. (map_race_step K cast)\<^sup>*\<^sup>* s s' \<and> map_dict s' = map_dict s \<and> map_age s' = map_age s \<and>
    mapped s' = mapped s \<and> handed s' = handed s - {p} \<and>
    (map_overlapped s' \<longleftrightarrow> map_overlapped s \<or> others_inside in_map_dictionary (mapping_at s) i) \<and>
    mapping_at s' = (mapping_at s)(i := Holding p (reg_find K (map_dict s) p) (map_age s p))"
proof -
  let ?s = "(enter_map s i (Seeking p))\<lparr>handed := handed s - {p}\<rparr>"
  let ?t = "?s\<lparr>mapping_at := (mapping_at ?s)(i := Holding p (reg_find K (map_dict ?s) p) (map_age ?s p))\<rparr>"
  have "map_race_step K cast s ?s" using assms by (rule map_race_step.start_seek)
  moreover have "map_race_step K cast ?s ?t" by (rule map_race_step.sought) simp
  ultimately have "(map_race_step K cast)\<^sup>*\<^sup>* s ?t"
    by (meson converse_rtranclp_into_rtranclp r_into_rtranclp)
  then show ?thesis by (intro exI [of _ ?t]) simp
qed

lemma unmap_alone:
  assumes "mapping_at s i = NotMapping" and "p \<in> handed s"
    and "os_unmap_kernel_space_dk K cast (map_dict s) p sz = Done (d, evs)"
  shows "\<exists>s'. (map_race_step K cast)\<^sup>*\<^sup>* s s' \<and> map_dict s' = d \<and>
    mapping_at s' = mapping_at s \<and> handed s' = handed s - {p}"
proof -
  let ?v = "reg_find K (map_dict s) p"
  obtain s1 where s1: "(map_race_step K cast)\<^sup>*\<^sup>* s s1" "map_dict s1 = map_dict s" "map_age s1 = map_age s"
    "handed s1 = handed s - {p}" "mapping_at s1 = (mapping_at s)(i := Holding p ?v (map_age s p))"
    using seek_alone [OF assms(1,2), of K cast] by blast
  have restored: "(mapping_at s)(i := w, i := NotMapping) = mapping_at s" for w
    using assms(1) by auto
  note [trans] = rtranclp.rtrancl_into_rtrancl
  from assms(3) obtain mo where casts: "cast ?v = Done mo"
    by (cases "cast ?v") (auto simp: os_unmap_kernel_space_dk_def)
  show ?thesis
  proof (cases mo)
    case None
    let ?t = "s1\<lparr>mapping_at := (mapping_at s1)(i := NotMapping)\<rparr>"
    have "map_race_step K cast s1 ?t" using s1 casts None
      by (intro map_race_step.not_found [where p = p and v = ?v and k = "map_age s p"]) simp_all
    with s1(1) have "(map_race_step K cast)\<^sup>*\<^sup>* s ?t" by (rule rtranclp.rtrancl_into_rtrancl)
    moreover have "d = map_dict s" using assms(3) casts None by (simp add: os_unmap_kernel_space_dk_def)
    ultimately show ?thesis using s1 restored by (intro exI [of _ ?t]) simp
  next
    case (Some m)
    let ?t = "s1\<lparr>mapping_at := (mapping_at s1)(i := Dropping p)\<rparr>"
    let ?u = "enter_map ?t i (Unmapping p)"
    let ?w = "(drop_entry K ?u p)\<lparr>mapping_at := (mapping_at ?u)(i := NotMapping)\<rparr>"
    from s1(1) have "(map_race_step K cast)\<^sup>*\<^sup>* s s1" .
    also have "map_race_step K cast s1 ?t" using s1 casts Some
      by (intro map_race_step.found [where p = p and v = ?v and k = "map_age s p"]) simp_all
    also have "map_race_step K cast ?t ?u" by (rule map_race_step.start_drop) simp
    also have "map_race_step K cast ?u ?w" by (rule map_race_step.drop) simp
    finally have "(map_race_step K cast)\<^sup>*\<^sup>* s ?w" .
    moreover have "d = reg_del K (map_dict s) p"
      using assms(3) casts Some by (simp add: os_unmap_kernel_space_dk_def)
    ultimately show ?thesis using s1 restored [of "Dropping p"]
      by (intro exI [of _ ?w]) (simp add: drop_entry_def)
  qed
qed

section \<open>The invariant\<close>

text \<open>
  Every address in use is with a client, entered in the dictionary with its object, or in the
  hands of one thread, which is about to enter it or has found its entry.
\<close>

fun at_hand :: "map_progress \<Rightarrow> ptr option" where
  "at_hand (Entering p m) = Some p"
| "at_hand (Storing p m) = Some p"
| "at_hand (Seeking p) = Some p"
| "at_hand (Holding p v k) = Some p"
| "at_hand (Dropping p) = Some p"
| "at_hand (Unmapping p) = Some p"
| "at_hand NotMapping = None"
| "at_hand MapStopped = None"
| "at_hand MapDangling = None"

text \<open>The shared memory: the dictionary, the ages of its entries and the mappings.\<close>

type_synonym map_shared = "(ptr \<Rightarrow> os_object option) \<times> (ptr \<Rightarrow> nat) \<times> (ptr \<Rightarrow> ptr option)"

definition entered :: "map_shared \<Rightarrow> ptr \<Rightarrow> bool" where
  "entered m p \<longleftrightarrow> block_pointer p \<and>
     (\<exists>x. snd (snd m) p = Some x \<and> fst m p = Some (IOMemoryMapObject x))"

fun map_progress_ok :: "map_shared \<Rightarrow> map_progress \<Rightarrow> bool" where
  "map_progress_ok m NotMapping \<longleftrightarrow> True"
| "map_progress_ok m (Entering p x) \<longleftrightarrow> block_pointer p \<and> snd (snd m) p = Some x \<and> fst m p = None"
| "map_progress_ok m (Storing p x) \<longleftrightarrow> block_pointer p \<and> snd (snd m) p = Some x \<and> fst m p = None"
| "map_progress_ok m (Seeking p) \<longleftrightarrow> entered m p"
| "map_progress_ok m (Holding p v k) \<longleftrightarrow> entered m p \<and> v = fst m p \<and> fst (snd m) p = k"
| "map_progress_ok m (Dropping p) \<longleftrightarrow> entered m p"
| "map_progress_ok m (Unmapping p) \<longleftrightarrow> entered m p"
| "map_progress_ok m MapStopped \<longleftrightarrow> False"
| "map_progress_ok m MapDangling \<longleftrightarrow> False"

definition same_address :: "ptr \<Rightarrow> map_shared \<Rightarrow> map_shared \<Rightarrow> bool" where
  "same_address p m m' \<longleftrightarrow>
     fst m' p = fst m p \<and> fst (snd m') p = fst (snd m) p \<and> snd (snd m') p = snd (snd m) p"

interpretation map_hands: block_hands at_hand map_progress_ok same_address
proof
  fix m m' w
  show "map_progress_ok m w \<Longrightarrow> (\<And>p. at_hand w = Some p \<Longrightarrow> same_address p m m') \<Longrightarrow>
      map_progress_ok m' w"
    by (cases w) (auto simp: same_address_def entered_def)
qed

abbreviation map_shared_of :: "'d libkern \<Rightarrow> 'd map_race \<Rightarrow> map_shared" where
  "map_shared_of K s \<equiv> (block_view K (map_dict s), map_age s, mapped s)"

definition map_race_inv :: "'d libkern \<Rightarrow> 'd map_race \<Rightarrow> bool" where
  "map_race_inv K s \<longleftrightarrow>
     (\<forall>p \<in> handed s. entered (map_shared_of K s) p) \<and>
     map_hands.in_order (map_shared_of K s) (mapping_at s) (handed s) \<and>
     (\<forall>p. mapped s p \<noteq> None \<longrightarrow> p \<in> handed s \<or> (\<exists>i. at_hand (mapping_at s i) = Some p)) \<and>
     (\<forall>p. block_view K (map_dict s) p \<noteq> None \<longrightarrow> mapped s p \<noteq> None)"

lemma map_race_invD:
  assumes "map_race_inv K s"
  shows "p \<in> handed s \<Longrightarrow> entered (map_shared_of K s) p"
    and "map_progress_ok (map_shared_of K s) (mapping_at s i)"
    and "at_hand (mapping_at s i) = Some p \<Longrightarrow> p \<notin> handed s"
    and "at_hand (mapping_at s i) = Some p \<Longrightarrow> at_hand (mapping_at s j) = Some p \<Longrightarrow> i = j"
    and "mapped s p \<noteq> None \<Longrightarrow> p \<in> handed s \<or> (\<exists>i. at_hand (mapping_at s i) = Some p)"
    and "block_view K (map_dict s) p \<noteq> None \<Longrightarrow> mapped s p \<noteq> None"
  using assms unfolding map_race_inv_def map_hands.in_order_def by auto

lemma at_hand_mapped:
  "map_progress_ok m w \<Longrightarrow> at_hand w = Some p \<Longrightarrow> block_pointer p \<and> snd (snd m) p \<noteq> None"
  by (cases w) (auto simp: entered_def)

text \<open>A step moves one thread and touches one address \<open>p\<close>, which no other thread has.\<close>

lemma map_race_inv_move:
  assumes inv: "map_race_inv K s" and move: "mapping_at s' = (mapping_at s)(i := w)"
    and alone: "\<And>j. j \<noteq> i \<Longrightarrow> at_hand (mapping_at s j) \<noteq> Some p"
    and frame: "\<And>q. q \<noteq> p \<Longrightarrow> (q \<in> handed s' \<longleftrightarrow> q \<in> handed s) \<and>
        same_address q (map_shared_of K s) (map_shared_of K s')"
    and hands: "\<And>q. q \<noteq> p \<Longrightarrow> at_hand (mapping_at s i) \<noteq> Some q \<and> at_hand w \<noteq> Some q"
    and moved: "map_progress_ok (map_shared_of K s') w"
    and here: "p \<in> handed s' \<Longrightarrow> at_hand w = None \<and> entered (map_shared_of K s') p"
      "mapped s' p \<noteq> None \<Longrightarrow> p \<in> handed s' \<or> at_hand w = Some p"
      "block_view K (map_dict s') p \<noteq> None \<Longrightarrow> mapped s' p \<noteq> None"
  shows "map_race_inv K s'"
proof -
  have order: "map_hands.in_order (map_shared_of K s) (mapping_at s) (handed s)"
    using inv by (simp add: map_race_inv_def)
  have order': "map_hands.in_order (map_shared_of K s') (mapping_at s') (handed s')"
  proof (rule map_hands.in_order_move [OF order move moved])
    show "q \<notin> handed s'" if "at_hand w = Some q" for q
      using that here(1) hands [of q] by (cases "q = p") auto
    show "same_address q (map_shared_of K s) (map_shared_of K s') \<and> q \<notin> handed s' \<and> at_hand w \<noteq> Some q"
      if "j \<noteq> i" "at_hand (mapping_at s j) = Some q" for j q
      using that alone [of j] frame [of q] hands [of q] map_race_invD(3) [OF inv, of j q] by auto
  qed
  have blocks: "entered (map_shared_of K s') q" if "q \<in> handed s'" for q
    using that here(1) frame [of q] map_race_invD(1) [OF inv, of q]
    by (cases "q = p") (auto simp: entered_def same_address_def)
  have held: "q \<in> handed s' \<or> (\<exists>j. at_hand (mapping_at s' j) = Some q)" if q: "mapped s' q \<noteq> None" for q
  proof (cases "q = p")
    case True
    with q here(2) move show ?thesis by (metis fun_upd_same)
  next
    case False
    with q frame [of q] have "mapped s q \<noteq> None" "q \<in> handed s' \<longleftrightarrow> q \<in> handed s"
      by (simp_all add: same_address_def)
    with map_race_invD(5) [OF inv, of q] hands [OF False] move show ?thesis
      by (metis fun_upd_other)
  qed
  have "mapped s' q \<noteq> None" if "block_view K (map_dict s') q \<noteq> None" for q
    using that here(3) frame [of q] map_race_invD(6) [OF inv, of q]
    by (cases "q = p") (auto simp: same_address_def)
  with order' blocks held show ?thesis unfolding map_race_inv_def by blast
qed

text \<open>A step that changes only the position of a thread that has \<open>p\<close> in hand, or takes it.\<close>

lemma map_race_inv_quiet:
  assumes inv: "map_race_inv K s" and move: "mapping_at s' = (mapping_at s)(i := w)"
    and same: "map_dict s' = map_dict s" "map_age s' = map_age s" "mapped s' = mapped s"
    and taken: "at_hand (mapping_at s i) = Some p \<and> handed s' = handed s \<or>
        at_hand (mapping_at s i) = None \<and> p \<in> handed s \<and> handed s' = handed s - {p}"
    and moved: "map_progress_ok (map_shared_of K s) w" "at_hand w = Some p"
  shows "map_race_inv K s'"
proof (rule map_race_inv_move [OF inv move, where p = p])
  show "at_hand (mapping_at s j) \<noteq> Some p" if "j \<noteq> i" for j
  proof
    assume j: "at_hand (mapping_at s j) = Some p"
    from taken map_race_invD(3) [OF inv j] have "at_hand (mapping_at s i) = Some p" by simp
    from map_race_invD(4) [OF inv j this] that show False by simp
  qed
  show "(q \<in> handed s' \<longleftrightarrow> q \<in> handed s) \<and> same_address q (map_shared_of K s) (map_shared_of K s')"
    if "q \<noteq> p" for q
  proof
    show "q \<in> handed s' \<longleftrightarrow> q \<in> handed s" using taken that by blast
  qed (simp add: same_address_def same)
  show "at_hand (mapping_at s i) \<noteq> Some q \<and> at_hand w \<noteq> Some q" if "q \<noteq> p" for q
  proof -
    have "at_hand (mapping_at s i) \<in> {None, Some p}" using taken by blast
    with moved(2) that show ?thesis by auto
  qed
  show "map_progress_ok (map_shared_of K s') w" using moved(1) by (simp add: same)
  have "p \<notin> handed s'" using taken map_race_invD(3) [OF inv, of i p] by fastforce
  then show "at_hand w = None \<and> entered (map_shared_of K s') p" if "p \<in> handed s'" using that by blast
  show "p \<in> handed s' \<or> at_hand w = Some p" using moved(2) by simp
  show "block_view K (map_dict s') p \<noteq> None \<Longrightarrow> mapped s' p \<noteq> None"
    using map_race_invD(6) [OF inv, of p] by (simp add: same)
qed

context mapping_system
begin

lemma view_of_cast:
  assumes "block_pointer p"
  shows "cast (reg_find K d p) = Done None \<Longrightarrow> block_view K d p = None"
    and "cast (reg_find K d p) = Done (Some m) \<Longrightarrow> block_view K d p = Some (IOMemoryMapObject m)"
    and "cast (reg_find K d p) = Fault f \<Longrightarrow> \<exists>n. block_view K d p = Some (OSNumber n)"
proof -
  have "cast (Some (IOMemoryMapObject x)) = Done (Some x)" "cast (Some (OSNumber n)) = Fault Panic" for x n
    using cast_required by (simp_all add: required_cast_def)
  note cases = this cast_null
  obtain x where x: "reg_find K d p = x" by blast
  show "cast (reg_find K d p) = Done None \<Longrightarrow> block_view K d p = None"
    and "cast (reg_find K d p) = Done (Some m) \<Longrightarrow> block_view K d p = Some (IOMemoryMapObject m)"
    and "cast (reg_find K d p) = Fault f \<Longrightarrow> \<exists>n. block_view K d p = Some (OSNumber n)"
    using cases assms unfolding block_view_def x by (cases x; cases "the x"; auto)+
qed

text \<open>What a thread holds casts to the mapping object.\<close>

lemma held_cast:
  assumes "map_progress_ok m (Holding p v k)"
  shows "\<exists>x. cast v = Done (Some x)" and "v \<noteq> None" and "fst (snd m) p = k"
  using assms cast_required by (auto simp: entered_def required_cast_def)

lemma map_race_inv_step:
  assumes "map_race_step K cast s s'" and inv: "map_race_inv K s" and calm: "\<not> map_overlapped s"
  shows "map_race_inv K s'"
  using assms(1)
proof (cases rule: map_race_step.cases)
  case (create i p m)
  have "p \<notin> handed s" using map_race_invD(1) [OF inv, of p] create by (auto simp: entered_def)
  moreover have "at_hand (mapping_at s j) \<noteq> Some p" for j
    using at_hand_mapped [OF map_race_invD(2) [OF inv, of j], of p] create by auto
  moreover have "block_view K (map_dict s) p = None" using map_race_invD(6) [OF inv, of p] create by force
  ultimately show ?thesis using create
    by (intro map_race_inv_move [OF inv, where i = i and w = "Entering p m" and p = p])
      (simp_all add: same_address_def)
next
  case (start_store i p m)
  with map_race_invD(2) [OF inv, of i] show ?thesis
    by (intro map_race_inv_quiet [OF inv, where i = i and w = "Storing p m" and p = p]) simp_all
next
  case (store_object i p m)
  with map_race_invD(2) [OF inv, of i]
  have p: "block_pointer p" "mapped s p = Some m" by simp_all
  have "at_hand (mapping_at s j) \<noteq> Some p" if "j \<noteq> i" for j
    using that store_object map_race_invD(4) [OF inv, of j p i] by auto
  with store_object p show ?thesis
    by (intro map_race_inv_move [OF inv, where i = i and w = NotMapping and p = p])
      (simp_all add: block_view_put same_address_def entered_def aged_def)
next
  case (start_seek i p)
  with map_race_invD(1) [OF inv, of p] show ?thesis
    by (intro map_race_inv_quiet [OF inv, where i = i and w = "Seeking p" and p = p]) simp_all
next
  case (sought i p)
  with map_race_invD(2) [OF inv, of i] show ?thesis
    by (intro map_race_inv_quiet [OF inv, where i = i and p = p
          and w = "Holding p (reg_find K (map_dict s) p) (map_age s p)"])
      (auto simp: entered_def block_view_def)
next
  case (not_found i p v k)
  with map_race_invD(2) [OF inv, of i] held_cast(1) [of "map_shared_of K s" p v k] show ?thesis by simp
next
  case (found i p v k m)
  with map_race_invD(2) [OF inv, of i] show ?thesis
    by (intro map_race_inv_quiet [OF inv, where i = i and w = "Dropping p" and p = p]) simp_all
next
  case (failed_cast i p v k f)
  with map_race_invD(2) [OF inv, of i] held_cast(1) [of "map_shared_of K s" p v k] show ?thesis by simp
next
  case (cast_gone i p v k)
  with map_race_invD(2) [OF inv, of i] show ?thesis by simp
next
  case (start_drop i p)
  with map_race_invD(2) [OF inv, of i] show ?thesis
    by (intro map_race_inv_quiet [OF inv, where i = i and w = "Unmapping p" and p = p]) simp_all
next
  case (drop i p)
  with map_race_invD(2) [OF inv, of i] have p: "block_pointer p"
    "reg_find K (map_dict s) p \<noteq> None" by (auto simp: block_view_def entered_def)
  have "p \<notin> handed s" using drop map_race_invD(3) [OF inv, of i p] by simp
  moreover have "at_hand (mapping_at s j) \<noteq> Some p" if "j \<noteq> i" for j
    using that drop map_race_invD(4) [OF inv, of j p i] by auto
  ultimately show ?thesis using drop p
    by (intro map_race_inv_move [OF inv, where i = i and w = NotMapping and p = p])
      (simp_all add: drop_entry_def block_view_del same_address_def aged_def)
qed (use calm in simp)

lemma map_overlapped_kept: "map_race_step K cast s s' \<Longrightarrow> map_overlapped s \<Longrightarrow> map_overlapped s'"
  by (erule map_race_step.cases; simp add: drop_entry_def)

lemma map_race_reach_inv:
  assumes "map_race_reach K cast s" and "\<not> map_overlapped s"
  shows "map_race_inv K s"
proof -
  from assms(1) obtain s0 where start: "map_race_start K s0" and run: "(map_race_step K cast)\<^sup>*\<^sup>* s0 s"
    by (auto simp: map_race_reach_def)
  from run assms(2) show ?thesis
  proof (induction rule: rtranclp_induct)
    case base
    with start show ?case
      by (simp add: map_race_start_def map_race_inv_def map_hands.in_order_def block_view_def
          reg_find_def)
  next
    case (step s s')
    with map_race_inv_step [OF step(2)] map_overlapped_kept [OF step(2)] show ?case by blast
  qed
qed

end

section \<open>Properties\<close>

text \<open>
  C13. Threads that race inside the DriverKit mapping calls lose nothing, in every run in which
  their calls to the dictionary do not overlap (no lock of the sources sees to that): no thread is
  stopped or uses an object that was released, although none takes a reference to what it found;
  an address a client has is mapped and its entry has the mapping's object, an address about to be
  entered has no entry that it would replace, and when every thread is outside the two calls the
  mapped addresses are those the clients have, each with its object in the dictionary, and there
  are no other entries.
\<close>

theorem racing_mappings_safe:
  assumes "mapping_system K cast" and "map_race_reach K cast s" and "\<not> map_overlapped s"
  shows "(\<forall>i. mapping_at s i \<noteq> MapStopped \<and> mapping_at s i \<noteq> MapDangling) \<and>
    (\<forall>p. p \<in> handed s \<longrightarrow> (\<exists>m. mapped s p = Some m \<and>
      reg_find K (map_dict s) p = Some (IOMemoryMapObject m))) \<and>
    (\<forall>i p m. mapping_at s i = Entering p m \<longrightarrow>
      mapped s p = Some m \<and> reg_find K (map_dict s) p = None) \<and>
    ((\<forall>i. mapping_at s i = NotMapping) \<longrightarrow>
      dom (mapped s) = handed s \<and>
      block_view K (map_dict s) = map_option IOMemoryMapObject \<circ> mapped s)"
proof -
  note inv = map_race_invD [OF mapping_system.map_race_reach_inv [OF assms]]
  have "mapping_at s i \<noteq> MapStopped \<and> mapping_at s i \<noteq> MapDangling" for i using inv(2) [of i] by auto
  moreover have "\<exists>m. mapped s p = Some m \<and> reg_find K (map_dict s) p = Some (IOMemoryMapObject m)"
    if "p \<in> handed s" for p using inv(1) [OF that] by (auto simp: block_view_def entered_def)
  moreover have "mapped s p = Some m \<and> reg_find K (map_dict s) p = None"
    if "mapping_at s i = Entering p m" for i p m
    using inv(2) [of i] that by (simp add: block_view_def split: if_splits)
  moreover have quiet: "dom (mapped s) = handed s" if "\<forall>i. mapping_at s i = NotMapping"
    using inv(1,5) that by (fastforce simp: entered_def)
  moreover have "block_view K (map_dict s) = map_option IOMemoryMapObject \<circ> mapped s"
    if "\<forall>i. mapping_at s i = NotMapping"
  proof
    fix p
    show "block_view K (map_dict s) p = (map_option IOMemoryMapObject \<circ> mapped s) p"
      using inv(1) [of p] inv(6) [of p] quiet [OF that]
      by (cases "mapped s p") (force simp: entered_def)+
  qed
  ultimately show ?thesis by blast
qed

text \<open>
  A thread has looked an address up, without a reference to what it found, when another maps
  elsewhere and returns.
\<close>

theorem racing_mappings_safe_witness:
  "\<exists>s. map_race_reach map_libkern example_cast s \<and> \<not> map_overlapped s \<and>
     mapping_at s 0 = Holding 0x1000 (Some (IOMemoryMapObject 0x200)) 0 \<and>
     reg_find map_libkern (map_dict s) 0x2000 = Some (IOMemoryMapObject 0x300)"
proof -
  let ?K = map_libkern and ?step = "map_race_step map_libkern example_cast"
  have p: "block_pointer 0x1000" "block_pointer 0x2000"
    by (simp_all add: block_pointer_def canonical_def)
  define s0 :: "map_dict map_race" where "s0 = \<lparr>mapped = Map.empty, map_dict = Map.empty, handed = {},
      mapping_at = (\<lambda>_. NotMapping), map_age = (\<lambda>_. 0), map_overlapped = False\<rparr>"
  have s0: "map_race_start ?K s0" "mapping_at s0 = (\<lambda>_. NotMapping)" "mapped s0 = Map.empty"
    "handed s0 = {}" "map_age s0 = (\<lambda>_. 0)" "\<not> map_overlapped s0" "reg_find ?K (map_dict s0) q = None" for q
    by (simp_all add: s0_def map_race_start_def map_libkern_empty reg_find_def)
  have at0: "mapping_at s0 0 = NotMapping" "mapped s0 0x1000 = None" using s0 by simp_all
  obtain s1 where s1: "?step\<^sup>*\<^sup>* s0 s1" "mapped s1 = (mapped s0)(0x1000 \<mapsto> 0x200)"
    "map_dict s1 = reg_put ?K (map_dict s0) 0x1000 (IOMemoryMapObject 0x200)"
    "map_age s1 = aged ?K s0 0x1000" "handed s1 = insert 0x1000 (handed s0)"
    "mapping_at s1 = mapping_at s0"
    "map_overlapped s1 \<longleftrightarrow> map_overlapped s0 \<or> others_inside in_map_dictionary (mapping_at s0) 0"
    by (rule map_thread_run [OF at0(1) p(1) at0(2), of ?K example_cast "0x200"]) (rule that; assumption)
  have at1: "mapping_at s1 0 = NotMapping" "0x1000 \<in> handed s1" using s0 s1 by simp_all
  obtain s2 where s2: "?step\<^sup>*\<^sup>* s1 s2" "mapped s2 = mapped s1"
    "map_overlapped s2 \<longleftrightarrow> map_overlapped s1 \<or> others_inside in_map_dictionary (mapping_at s1) 0"
    "mapping_at s2 = (mapping_at s1)
      (0 := Holding 0x1000 (reg_find ?K (map_dict s1) 0x1000) (map_age s1 0x1000))"
    using seek_alone [OF at1, of ?K example_cast] by blast
  have at2: "mapping_at s2 1 = NotMapping" "mapped s2 0x2000 = None" using s0 s1 s2 by simp_all
  obtain s3 where s3: "?step\<^sup>*\<^sup>* s2 s3" "mapped s3 = (mapped s2)(0x2000 \<mapsto> 0x300)"
    "handed s3 = insert 0x2000 (handed s2)" "mapping_at s3 = mapping_at s2"
    "map_overlapped s3 \<longleftrightarrow> map_overlapped s2 \<or> others_inside in_map_dictionary (mapping_at s2) 1"
    by (rule map_thread_run [OF at2(1) p(2) at2(2), of ?K example_cast "0x300"]) (rule that; assumption)
  have reach: "map_race_reach ?K example_cast s3"
    using s0(1) s1(1) s2(1) s3(1) unfolding map_race_reach_def by (meson rtranclp_trans)
  have calm: "\<not> map_overlapped s3"
    using s0(2,6) s1(6,7) s2(3,4) s3(5) by (simp add: others_inside_def)
  have held: "mapping_at s3 0 = Holding 0x1000 (Some (IOMemoryMapObject 0x200)) 0"
    using s0 s1 s2(4) s3(4) p by (simp add: map_libkern.blocks.find_put aged_def)
  have "0x2000 \<in> handed s3" "mapped s3 0x2000 = Some 0x300" using s3 by simp_all
  with racing_mappings_safe [OF map_system.mapping_system_axioms reach calm]
  have "reg_find ?K (map_dict s3) 0x2000 = Some (IOMemoryMapObject 0x300)" by auto
  with reach calm held show ?thesis by blast
qed

end
