(* ===== verification/Spec2Isabelle.thy ===== *)
theory Spec2Isabelle
  imports LowMemory SemaClients MapClients PageClients OsInfo Firmware LogNvlink SpdmPolyfill NvStubs
    PciClients LockBlocks SystemRuns KernelUnload UnloadRaces TrackerRaces MapRaces
begin

text \<open>
  A model of NVMac, an attempt to run NVIDIA's open GPU kernel modules on macOS, in two forms:
  the DriverKit extension \<open>PCIHorrorKit\<close> and the kernel extension \<open>NVMacRMService\<close>.  NVIDIA's
  resource manager (a git submodule, not in the repository) is linked against \<open>libnv-darwin\<close>,
  the operating-system layer modelled here, and \<open>libspdm-polyfill\<close>.  The driver creates the
  global state \<open>nvd_state\<close>, describes the PCI device and its BARs in it and starts the resource
  manager, which then calls back into the layer: memory, locks, mappings, DMA pages, PCI
  accesses, firmware, logging, time.  Where the two targets have different code, a definition
  for each carries the suffix \<open>_dk\<close> (DriverKit) or \<open>_k\<close> (kernel).

  The theories, and the files of \<open>Support/libnv-darwin\<close> they model unless another is named:

  \<^item> \<open>NvPrelude\<close>: words, status codes, the faults a C++ statement can end in and the type
    \<open>outcome\<close> that keeps a fault apart from a result; generic facts on lists and words.
  \<^item> \<open>CString\<close>: the C library functions the sources call (\<open>snprintf\<close> of a pointer,
    \<open>strlcpy\<close>, \<open>strncpy\<close>, \<open>memcpy\<close>, \<open>strtoul\<close>, ...), on buffers as lists.
  \<^item> \<open>CLayout\<close>: sizes and field offsets of C types, and the structures the files declare and
    allocate, those of \<open>shim_driverkit.h\<close> first.
  \<^item> \<open>Registry\<close>: dictionaries keyed by a printed pointer, used by \<open>libc.cpp\<close> and
    \<open>memory_*.cpp\<close>.  The locale \<open>libkern_objects\<close> is Apple's documentation of the classes,
    \<open>pointer_registry\<close> the contract the two clients get; \<open>block_pointer\<close> says for which
    addresses the printed keys tell pointers apart.
  \<^item> \<open>Libc\<close>: \<open>libc.cpp\<close>, the allocation tracker (\<open>os_alloc_mem\<close>, \<open>os_free_mem\<close>; the state
    is the dictionary), with the abstract specification \<open>heap_spec\<close> and the simulation
    \<open>tracks\<close>, the type \<open>masked_number\<close> of what the dictionary holds, and the memory and
    string wrappers.  \<open>LowMemory\<close>: runs of the tracker in which its key and number objects
    cannot be made (\<open>flaky\<close>, \<open>low_run\<close>), against \<open>low_spec\<close>.
  \<^item> \<open>TrackerRaces\<close>: the steps inside \<open>os_alloc_mem\<close> and \<open>os_free_mem\<close> (\<open>race_step\<close>), which
    threads interleave; each function run alone is its definition in \<open>Libc\<close>.  A call to the
    dictionary is two steps, so that calls can overlap (after which it holds anything), and
    the age of an entry tells an object still there from a released one.  \<open>BlockHands\<close> has
    the locale \<open>block_hands\<close>, the contract of a position inside a function, for both registries.
  \<^item> \<open>Sync\<close>: the locks of \<open>libc_driverkit.cpp\<close> and \<open>libc_kernel.cpp\<close>, over the locale
    \<open>lock_semantics\<close>; \<open>Semaphores\<close>: those of \<open>libc.cpp\<close>, over \<open>counting_semaphores\<close>, where a
    handle may name no semaphore.  \<open>LockBlocks\<close>: clients that make and free locks and
    semaphores of either target, against the allocators, by the locale \<open>lock_objects\<close>.
  \<^item> \<open>LockClients\<close>: threads that interleave on one lock (\<open>client_step\<close>) or try one
    (\<open>try_step\<close>).  The locale \<open>section_lock\<close> is the contract of a lock, given by every
    spinlock, mutex and read/write lock under \<open>blocking_locks\<close>; semaphores do not give it
    (\<open>SemaClients\<close>).
  \<^item> \<open>NvState\<close>: the records of \<open>nv_darwin.h\<close>, with the fields of NVIDIA's state that are
    used; the global pointer \<open>nvd_state\<close> as an option with the macros \<open>NV_STATE_PTR\<close> and
    \<open>NV_GLOBAL_DEVICE\<close>, whose fault at \<open>NULL\<close> every user inherits (\<open>on_device\<close>); the macro
    \<open>nvd_task\<close> of \<open>shim_driverkit.h\<close> and \<open>shim_kernel.h\<close>; and \<open>memory.cpp\<close>.
  \<^item> \<open>KernelMap\<close>: \<open>os_map_kernel_space\<close> and \<open>os_unmap_kernel_space\<close> of \<open>memory_driverkit.cpp\<close>
    and \<open>memory_kernel.cpp\<close>, with the page constants; references are a list of events and
    their \<open>balance\<close>.
  \<^item> \<open>MapClients\<close>: runs of those two calls against the map \<open>map_spec\<close> of addresses to
    mapping objects, by the locale \<open>mapping_target\<close> that both targets give; \<open>MapRaces\<close>: the
    steps inside the DriverKit calls, which threads interleave (\<open>map_race_step\<close>).
  \<^item> \<open>DmaPages\<close>: page allocation, its page table and the mappings of those two files; the
    locale \<open>page_mapper\<close> is the address computation of the four mapping functions.
  \<^item> \<open>PageClients\<close>: runs of allocations and frees in any order, by the locale
    \<open>page_target\<close>.
  \<^item> \<open>PciConfig\<close>: \<open>pci_driverkit.cpp\<close> and \<open>pci_kernel.cpp\<close>; the locale \<open>guarded_access\<close> is
    the shape of the reads and writes of each width, \<open>bar_memory\<close> and \<open>port_memory\<close> are the spaces
    of the device they reach; \<open>PciClients\<close>: sequences of accesses of
    mixed widths against the byte-wise reference \<open>pci_spec\<close>, by the locale \<open>register_target\<close>.
  \<^item> \<open>OsInfo\<close>: \<open>os.cpp\<close>.
  \<^item> \<open>Firmware\<close>: \<open>firmware_kernel.cpp\<close> and \<open>firmware_driverkit.cpp\<close>, both instances of the
    locale \<open>firmware_service\<close>.
  \<^item> \<open>LogNvlink\<close>: \<open>debug.cpp\<close>, \<open>nvlink.cpp\<close>, \<open>userland.cpp\<close>, with the locales
    \<open>bounded_formatter\<close> and \<open>block_copy\<close>.
  \<^item> \<open>SpdmPolyfill\<close>: the files of \<open>Support/libspdm-polyfill\<close>.
  \<^item> \<open>NvStubs\<close>: \<open>acpi.cpp\<close>, \<open>power.cpp\<close>, \<open>stubs.c\<close>, \<open>iokit.cpp\<close>.
  \<^item> \<open>Services\<close>: \<open>PCIHorrorKit/PCIHorrorKit.cpp\<close> and \<open>NVMacRM/NVMacRMService.cpp\<close>; the
    locale \<open>service_lifecycle\<close> is the contract of the I/O framework.
  \<^item> \<open>ServiceLives\<close>: the step relations \<open>kit_life\<close> and \<open>kext_life\<close> of the two drivers
    from \<open>init\<close> to \<open>free\<close>, with their invariants \<open>kit_inv\<close> and \<open>kext_inv\<close>.
  \<^item> \<open>StartStages\<close>: the DriverKit \<open>Start\<close> cut where the resource manager runs inside it
    (\<open>start_begin\<close>, \<open>start_attach\<close>; the whole is \<open>start_in_stages\<close>), and \<open>kit_stage\<close>, the driver's
    steps with those stages.
  \<^item> \<open>System\<close>, \<open>SystemProps\<close>: the DriverKit driver and the resource manager together, in the
    step relation \<open>sys_reach\<close> over the driver's state, both dictionaries, the page allocations
    and the references; its invariant \<open>sys_inv\<close> and the abstract system it simulates.
    \<open>SystemRuns\<close>: whole runs with the calls made in them (\<open>sys_trace\<close>) as abstract runs.
    \<open>UnloadRaces\<close>: the same system with mappings that are interrupted inside
    \<open>os_map_kernel_space\<close> (\<open>map_micro\<close>, \<open>unload_reach\<close>).

  \<^item> \<open>KextStages\<close>, \<open>KernelSystem\<close>, \<open>KernelProps\<close>: the same for the kernel: the stages of its
    \<open>start\<close> (\<open>start_k_in_stages\<close>), the driver and the resource manager together
    (\<open>kernel_reach\<close>, \<open>kernel_inv\<close>), the references held and the calls that return.
    \<open>KernelUnload\<close>: the interrupted mappings of the kernel (\<open>map_micro_k\<close>).

  What the lemmas show.  The two systems: in every reachable state each reference is accounted
  for, and it is known which calls return (no mapping of a recorded BAR before the device is
  attached or after it is stopped); every DriverKit run, to after the driver is gone, is the run
  of an abstract system.
  Data: a run of the tracker makes the calls of the specification, up to the size it keeps of a
  block, exactly which pointers and sizes it confuses, and that its dictionary stays well typed; when
  its objects cannot be made, which blocks are lost;
  printing and \<open>strtoul\<close> are inverse; copies are bounded; PCI accesses are the byte-wise
  reference on BAR memory or I/O ports, and reach past the guarded range only by their width.
  Resources: every run of mappings and of page allocations, the firmware loads and the driver
  lives have a computed balance of references: what is still in use, or the leak named.  Every
  block of a lock or semaphore is given back as it was allocated, but for the mutexes, which are
  lost; the structures allocated have the sizes of their fields.
  Addresses: the page table entry by entry, its bounds, the agreement of mappings and page
  table, the BARs recorded at start with those found later.  Concurrency: threads that use the
  blocking locks exclude each other and always finish; those that use a semaphore, or trust a
  conditional acquisition, block or all get in; those that race inside the tracker, as long as
  their calls to the dictionary do not overlap, can lose a block or use a released object, but
  only when a block is handed out before its old entry is erased; those that race inside the
  mapping calls, under the same condition, lose nothing; and a
  mapping interrupted by a stop goes on with a device that is still there, on DriverKit; in the
  kernel it may call a device that \<open>free\<close> has given back.
  Termination: when the BAR loop ends and when a
  page allocation returns.  Errors: the outcome of every guard, NULL and refused access.
  Several theorems state behaviour that is plainly not meant (an inverted test, a clamp that
  wraps); they are theorems about the code as it is.

  Parameters.  Apple's and NVIDIA's functions are arguments: a record of operations when the
  code depends on their state (dictionaries, locks, semaphores, device registers), or the
  answers of one call as a record when it only branches on them.  What is assumed of an
  operation is in a locale and is its documented behaviour; each locale has an interpretation,
  on a concrete instance where it describes Apple's code and on the model's definitions where
  it is a contract of this code.  Addresses and numbers of headers outside the repository are
  fields (\<open>rm_library\<close>, \<open>nv_memory_modes\<close>); the standard PCI offsets and bits are written out.

  Bounds and fuel.  There is no fuel: loops are structural or have a measure (\<open>fill_bars\<close>);
  the one that may not end, the BAR loop with its \<open>uint8_t\<close> counter, is a partial function
  (\<open>probe_bars_dk\<close>), and \<open>Start\<close> uses its value for fewer than 256 BARs (\<open>first_bar_dk\<close>).
  Integers are words of their C width; counters that are \<open>int\<close> in the source fault at
  \<open>2 ^ 31\<close> (\<open>fill_ptes\<close>).

  Not modelled: log lines of the memory functions, what the memory fence of
  \<open>os_flush_cpu_write_combine_buffer\<close> does to the processor (only which instruction it is),
  the functions \<open>shim_driverkit.h\<close> declares that nothing calls, the class declarations of
  \<open>NVMacRMService.hpp\<close> and \<open>PCIHorrorKit.iig\<close> and the prototypes of \<open>libspdm_polyfill.h\<close> (they
  declare what is modelled with its definition), the Swift application, the build files, and
  the resource manager itself; the references of the key and number objects the tracker makes,
  uses and releases within one call.  Steps inside a function are modelled for the two registries and
  the interrupted mappings; elsewhere threads interleave between calls.  A method of a driver
  is one step, its start three, and so is \<open>os_map_kernel_space\<close> from its last read of the global
  state on.
\<close>

end
